(* ===== verification/Prelude.thy ===== *)
theory Prelude
  imports Main "HOL-Library.Word" "HOL-Library.Monad_Syntax"
begin

unbundle bit_operations_syntax

text \<open>
  What every other theory of the development shares: the names of the machine integers of the
  code, byte buffers with bounds-checked stores, folds of operations that may fail, little-endian
  encodings, and the lemmas about them.

  A C buffer is a list of bytes.  A store outside of it is undefined behaviour of the code; here it
  is \<^term>\<open>None\<close>, so that a theorem with conclusion \<open>f \<dots> = Some b\<close> also says that no store
  of \<open>f\<close> leaves its buffer.
\<close>

subsection \<open>Machine integers\<close>

type_synonym u8 = "8 word"
type_synonym u16 = "16 word"
type_synonym u32 = "32 word"
type_synonym bytes = "8 word list"

lemma unat_less_32: "unat (x :: u32) < 2 ^ 32"
  using unsigned_less [of x] by simp

lemma unat_add_small: "unat (a :: u32) + n < 2 ^ 32 \<Longrightarrow> unat (a + of_nat n) = unat a + n"
  by (simp add: unat_word_ariths unat_of_nat)

lemma add_of_nat_neq:
  assumes "i < 2 ^ 32" "j < 2 ^ 32" "i \<noteq> j" shows "(a :: u32) + of_nat i \<noteq> a + of_nat j"
proof
  assume "a + of_nat i = a + of_nat j"
  then have "unat (of_nat i :: u32) = unat (of_nat j :: u32)" by simp
  then show False using assms by (simp add: unat_of_nat)
qed

named_theorems store_simps \<open>evaluation of stores into buffers\<close>

subsection \<open>Stores\<close>

definition store :: "nat \<Rightarrow> 'a \<Rightarrow> 'a list \<Rightarrow> 'a list option" where
  "store i v xs = (if i < length xs then Some (xs[i := v]) else None)"

text \<open>\<open>memcpy (xs + off, ys, length ys)\<close>\<close>

definition store_list :: "nat \<Rightarrow> 'a list \<Rightarrow> 'a list \<Rightarrow> 'a list option" where
  "store_list off ys xs =
     (if off + length ys \<le> length xs
      then Some (take off xs @ ys @ drop (off + length ys) xs) else None)"

fun foldM :: "('a \<Rightarrow> 's \<Rightarrow> 's option) \<Rightarrow> 'a list \<Rightarrow> 's \<Rightarrow> 's option" where
  "foldM f [] s = Some s"
| "foldM f (x # xs) s = Option.bind (f x s) (foldM f xs)"

lemma store_Some [store_simps]: "i < length xs \<Longrightarrow> store i v xs = Some (xs[i := v])"
  by (simp add: store_def)

lemma length_store: "store i v xs = Some ys \<Longrightarrow> length ys = length xs"
  by (auto simp: store_def split: if_splits)

lemma store_list_Some [store_simps]:
  "off + length ys \<le> length xs \<Longrightarrow>
   store_list off ys xs = Some (take off xs @ ys @ drop (off + length ys) xs)"
  by (simp add: store_list_def)

lemma length_store_list: "store_list off ys xs = Some zs \<Longrightarrow> length zs = length xs"
  by (auto simp: store_list_def split: if_splits)

lemma nth_store_list:
  assumes "store_list off ys xs = Some zs" and "i < length xs"
  shows "zs ! i = (if off \<le> i \<and> i < off + length ys then ys ! (i - off) else xs ! i)"
  using assms by (auto simp: store_list_def nth_append min_def split: if_splits)

lemma store_list_full: "length ys = length xs \<Longrightarrow> store_list 0 ys xs = Some ys"
  by (simp add: store_list_def)

lemma foldM_append: "foldM f (xs @ ys) s = Option.bind (foldM f xs s) (foldM f ys)"
  by (induction xs arbitrary: s) (auto simp: bind_eq_Some_conv split: Option.bind_splits)

lemma foldM_map: "foldM f (map h xs) s = foldM (\<lambda>x. f (h x)) xs s"
  by (induction xs arbitrary: s) (auto intro!: Option.bind_cong)

lemma foldM_cong:
  "(\<And>x s. x \<in> set xs \<Longrightarrow> f x s = g x s) \<Longrightarrow> foldM f xs s = foldM g xs s"
  by (induction xs arbitrary: s) (auto intro!: Option.bind_cong)

lemma foldM_invariant:
  assumes "foldM f xs s = Some t" and "P s"
    and "\<And>x s t. x \<in> set xs \<Longrightarrow> P s \<Longrightarrow> f x s = Some t \<Longrightarrow> P t"
  shows "P t"
  using assms by (induction xs arbitrary: s) (auto simp: bind_eq_Some_conv)

text \<open>
  Stores one after the other are one store of the concatenation, so that a loop that fills a buffer
  from left to right is one \<^const>\<open>store_list\<close>.
\<close>

lemma store_as_list: "store i v = store_list i [v]"
  by (rule ext) (simp add: store_def store_list_def upd_conv_take_nth_drop)

lemma store_list_append:
  "Option.bind (store_list off xs buf) (store_list (off + length xs) ys) =
   store_list off (xs @ ys) buf"
proof (cases "off + length xs + length ys \<le> length buf")
  case True
  then show ?thesis by (cases xs) (auto simp: store_list_def min_def ac_simps)
next
  case False
  then show ?thesis by (auto simp: store_list_def)
qed

lemma store_list_append_at:
  "off' = off + length xs \<Longrightarrow>
   Option.bind (store_list off xs buf) (\<lambda>b. Option.bind (store_list off' ys b) f) =
   Option.bind (store_list off (xs @ ys) buf) f"
  by (auto simp: store_list_append [symmetric] bind_assoc)

lemma store_list_append_last:
  "off' = off + length xs \<Longrightarrow>
   Option.bind (store_list off xs buf) (store_list off' ys) = store_list off (xs @ ys) buf"
  by (simp add: store_list_append)

lemma store_list_snoc:
  "off' = off + length xs \<Longrightarrow>
   Option.bind (store_list off xs buf) (store off' v) = store_list off (xs @ [v]) buf"
  by (simp add: store_as_list store_list_append)

lemma store_list_snoc_at:
  "off' = off + length xs \<Longrightarrow>
   Option.bind (store_list off xs buf) (\<lambda>b. Option.bind (store off' v b) f) =
   Option.bind (store_list off (xs @ [v]) buf) f"
  by (simp add: store_as_list store_list_append_at)

lemmas seq_stores =
  store_list_append_at store_list_append_last store_list_snoc store_list_snoc_at

lemma foldM_store_list:
  assumes "\<And>i. i < n \<Longrightarrow> length (g i) = w" and "0 < n"
  shows "foldM (\<lambda>i. store_list (off + w * i) (g i)) [0..<n] buf =
         store_list off (concat (map g [0..<n])) buf"
  using assms
proof (induction n arbitrary: buf)
  case 0
  then show ?case by simp
next
  case (Suc n)
  have len: "length (concat (map g [0..<n])) = w * n"
    using Suc.prems(1) by (induction n) auto
  show ?case
  proof (cases "n = 0")
    case True
    then show ?thesis
      using Suc.prems(1) by (cases "store_list off (g 0) buf") (auto simp: foldM_append)
  next
    case False
    have "foldM (\<lambda>i. store_list (off + w * i) (g i)) [0..<Suc n] buf =
          Option.bind (store_list off (concat (map g [0..<n])) buf) (store_list (off + w * n) (g n))"
      using Suc False by (simp add: foldM_append)
         (auto simp: bind_eq_Some_conv split: Option.bind_splits)
    also have "\<dots> = store_list off (concat (map g [0..<Suc n])) buf"
      using store_list_append [of off "concat (map g [0..<n])" buf "g n"] len by simp
    finally show ?thesis .
  qed
qed

lemma length_concat_map:
  "(\<And>i. i < n \<Longrightarrow> length (g i) = w) \<Longrightarrow> length (concat (map g [0..<n])) = w * n"
  by (induction n) auto

lemma nth_concat_map:
  assumes "\<And>i. i < n \<Longrightarrow> length (g i) = w" and "i < n" and "j < w"
  shows "concat (map g [0..<n]) ! (w * i + j) = g i ! j"
  using assms
proof (induction n)
  case 0
  then show ?case by simp
next
  case (Suc n)
  have len: "length (concat (map g [0..<n])) = w * n"
    using Suc.prems(1) by (simp add: length_concat_map)
  show ?case
  proof (cases "i = n")
    case True
    then show ?thesis using len by (simp add: nth_append)
  next
    case False
    then have "i < n" using Suc.prems(2) by simp
    then have "w * i + j < w * n"
      using Suc.prems(3) by (metis Suc_leI add_less_cancel_left less_le_trans mult_Suc_right
          mult_le_mono2 add.commute)
    then show ?thesis using Suc \<open>i < n\<close> len by (simp add: nth_append)
  qed
qed

lemma concat_singletons: "n = length xs \<Longrightarrow> concat (map (\<lambda>k. [f (xs ! k)]) [0..<n]) = map f xs"
  by (simp add: concat_map_singleton) (rule nth_equalityI, simp_all)

text \<open>
  A buffer given as the values of a function: a store updates the function.  With this form a
  sequence of stores at known offsets evaluates by rewriting.
\<close>

lemma store_map_upt [store_simps]:
  assumes "i < n" shows "store i v (map f [0..<n]) = Some (map (f(i := v)) [0..<n])"
proof -
  have "(map f [0..<n])[i := v] = map (f(i := v)) [0..<n]"
    by (rule nth_equalityI) (auto simp: nth_list_update)
  then show ?thesis using assms by (simp add: store_def)
qed

lemma list_as_map_upt: "xs = map ((!) xs) [0..<length xs]"
  by (simp add: map_nth)

text \<open>A store in the middle part of a concatenation.\<close>

lemma store_window:
  assumes "j < length ws"
  shows "store (length ps + j) v (ps @ ws @ qs) =
         map_option (\<lambda>w. ps @ w @ qs) (store j v ws)"
  using assms by (simp add: store_def list_update_append)

subsection \<open>Searches\<close>

lemma find_SomeD: "List.find P xs = Some x \<Longrightarrow> x \<in> set xs \<and> P x"
  by (auto simp: find_Some_iff)

subsection \<open>Characters\<close>

definition ascii_bytes :: "string \<Rightarrow> bytes" where
  "ascii_bytes cs = map (\<lambda>c. of_nat (of_char c)) cs"

lemma length_ascii_bytes [simp]: "length (ascii_bytes cs) = length cs"
  by (simp add: ascii_bytes_def)

subsection \<open>Little-endian encodings\<close>

definition le16 :: "u16 \<Rightarrow> bytes" where
  "le16 x = [ucast x, ucast (drop_bit 8 x)]"

definition le32 :: "u32 \<Rightarrow> bytes" where
  "le32 x = [ucast x, ucast (drop_bit 8 x), ucast (drop_bit 16 x), ucast (drop_bit 24 x)]"

definition of_le16 :: "bytes \<Rightarrow> u16" where
  "of_le16 b = ucast (b ! 0) OR push_bit 8 (ucast (b ! 1))"

definition of_le32 :: "bytes \<Rightarrow> u32" where
  "of_le32 b = ucast (b ! 0) OR push_bit 8 (ucast (b ! 1)) OR
               push_bit 16 (ucast (b ! 2)) OR push_bit 24 (ucast (b ! 3))"

lemma length_le16 [simp]: "length (le16 x) = 2"
  by (simp add: le16_def)

lemma length_le32 [simp]: "length (le32 x) = 4"
  by (simp add: le32_def)

lemma of_le16_le16 [simp]: "of_le16 (le16 x @ bs) = x"
  unfolding of_le16_def le16_def
  by (rule bit_word_eqI) (auto simp: bit_simps)

lemma of_le32_le32 [simp]: "of_le32 (le32 x @ bs) = x"
proof (rule bit_word_eqI)
  fix n assume n: "n < LENGTH(32)"
  consider "n < 8" | "8 \<le> n" "n < 16" | "16 \<le> n" "n < 24" | "24 \<le> n" by linarith
  then show "bit (of_le32 (le32 x @ bs)) n = bit x n"
    using n by cases (auto simp: of_le32_def le32_def bit_simps)
qed

end
