(* ===== verification/Platform.thy ===== *)
theory Platform
  imports Prelude
begin

text \<open>
  What the code takes from the Pico SDK's headers, which are not part of the repository: the
  address map of the chip and the constants of the UF2 format.  They are parameters of the model.
  \<open>addressmap_ok\<close> and \<open>uf2_ok\<close> name the documented facts the code relies on;
  \<open>rp2040\<close> and \<open>uf2_h\<close> are the documented values, used in the witnesses only.

  The address checks of \<open>bootrom/usb_boot_device.h\<close> are also here: every component uses them.
\<close>

subsection \<open>The address map\<close>

record addressmap =
  XIP_MAIN_BASE :: u32
  XIP_SRAM_BASE :: u32
  XIP_SRAM_END :: u32
  SRAM_BASE :: u32
  SRAM_END :: u32

definition MEM_SIZE :: "addressmap \<Rightarrow> nat" where
  "MEM_SIZE am = unat (SRAM_END am - SRAM_BASE am)"

definition addressmap_ok :: "addressmap \<Rightarrow> bool" where
  "addressmap_ok am \<longleftrightarrow>
     8192 \<le> unat (XIP_MAIN_BASE am) \<and>
     unat (XIP_MAIN_BASE am) < unat (XIP_SRAM_BASE am) \<and>
     unat (XIP_SRAM_BASE am) < unat (XIP_SRAM_END am) \<and>
     unat (XIP_SRAM_END am) + 4096 \<le> unat (SRAM_BASE am) \<and>
     unat (SRAM_BASE am) < unat (SRAM_END am) \<and>
     unat (SRAM_END am) < 2 ^ 31 \<and>
     4096 dvd unat (XIP_MAIN_BASE am) \<and> 4096 dvd unat (SRAM_BASE am) \<and>
     4096 dvd MEM_SIZE am \<and> MEM_SIZE am < 2 ^ 20 \<and>
     unat (XIP_SRAM_END am) - unat (XIP_SRAM_BASE am) = 2 ^ 14"

definition rp2040 :: addressmap where
  "rp2040 = \<lparr> XIP_MAIN_BASE = 0x10000000, XIP_SRAM_BASE = 0x15000000, XIP_SRAM_END = 0x15004000,
              SRAM_BASE = 0x20000000, SRAM_END = 0x20042000 \<rparr>"

lemma rp2040_ok: "addressmap_ok rp2040"
  by (simp add: addressmap_ok_def rp2040_def MEM_SIZE_def)

lemma MEM_SIZE_rp2040: "MEM_SIZE rp2040 = 270336"
  by (simp add: rp2040_def MEM_SIZE_def)

lemma MEM_SIZE_nat:
  "addressmap_ok am \<Longrightarrow> MEM_SIZE am = unat (SRAM_END am) - unat (SRAM_BASE am)"
  by (simp add: addressmap_ok_def MEM_SIZE_def unat_sub word_le_nat_alt)

subsection \<open>Memory\<close>

text \<open>The address space as the CPU sees it: a load from an unmapped address is a bus fault.\<close>

type_synonym memory = "u32 \<Rightarrow> u8 option"

definition sram_mapped :: "addressmap \<Rightarrow> memory \<Rightarrow> bool" where
  "sram_mapped am m \<longleftrightarrow> (\<forall>k < MEM_SIZE am. m (SRAM_BASE am + of_nat k) \<noteq> None)"

text \<open>\<open>memcpy\<close> out of and into memory, byte after byte.\<close>

definition mem_read :: "memory \<Rightarrow> u32 \<Rightarrow> nat \<Rightarrow> bytes option" where
  "mem_read m a n = those (map (\<lambda>k. m (a + of_nat k)) [0..<n])"

fun mem_write :: "u32 \<Rightarrow> bytes \<Rightarrow> memory \<Rightarrow> memory option" where
  "mem_write a [] m = Some m"
| "mem_write a (b # bs) m = (if m a = None then None else mem_write (a + 1) bs (m(a \<mapsto> b)))"

text \<open>The RAM of an RP2040, all zero, and nothing else.\<close>

definition zero_ram :: memory where
  "zero_ram a =
     (if (SRAM_BASE rp2040 \<le> a \<and> a < SRAM_END rp2040) \<or> (XIP_SRAM_BASE rp2040 \<le> a \<and> a < XIP_SRAM_END rp2040)
      then Some 0 else None)"

subsection \<open>The address checks\<close>

definition is_address_ram :: "addressmap \<Rightarrow> u32 \<Rightarrow> bool" where
  "is_address_ram am addr \<longleftrightarrow>
     (addr \<ge> SRAM_BASE am \<and> addr \<le> SRAM_END am) \<or>
     (addr \<ge> XIP_SRAM_BASE am \<and> addr \<le> XIP_SRAM_END am)"

definition is_address_flash :: "addressmap \<Rightarrow> u32 \<Rightarrow> bool" where
  "is_address_flash am addr \<longleftrightarrow> addr \<ge> XIP_MAIN_BASE am \<and> addr \<le> SRAM_BASE am"

definition is_address_rom :: "u32 \<Rightarrow> bool" where
  "is_address_rom addr \<longleftrightarrow> addr < 8192"

subsection \<open>The UF2 format\<close>

text \<open>\<open>struct uf2_block\<close>, without its data, and its layout in a sector.\<close>

record uf2_block =
  magic_start0 :: u32
  magic_start1 :: u32
  uf2_flags :: u32
  target_addr :: u32
  payload_size :: u32
  uf2_block_no :: u32
  uf2_num_blocks :: u32
  file_size :: u32
  magic_end :: u32

record uf2_consts =
  UF2_MAGIC_START0 :: u32
  UF2_MAGIC_START1 :: u32
  UF2_MAGIC_END :: u32
  UF2_FLAG_NOT_MAIN_FLASH :: u32
  UF2_FLAG_FAMILY_ID_PRESENT :: u32
  RP2040_FAMILY_ID :: u32
  uf2_parse :: "bytes \<Rightarrow> uf2_block"
  uf2_data_offset :: nat

definition uf2_h :: uf2_consts where
  "uf2_h = \<lparr> UF2_MAGIC_START0 = 0x0A324655, UF2_MAGIC_START1 = 0x9E5D5157,
             UF2_MAGIC_END = 0x0AB16F30, UF2_FLAG_NOT_MAIN_FLASH = 1,
             UF2_FLAG_FAMILY_ID_PRESENT = 0x2000, RP2040_FAMILY_ID = 0xe48bff56,
             uf2_parse = (\<lambda>b. \<lparr> magic_start0 = of_le32 b, magic_start1 = of_le32 (drop 4 b),
               uf2_flags = of_le32 (drop 8 b), target_addr = of_le32 (drop 12 b),
               payload_size = of_le32 (drop 16 b), uf2_block_no = of_le32 (drop 20 b),
               uf2_num_blocks = of_le32 (drop 24 b), file_size = of_le32 (drop 28 b),
               magic_end = of_le32 (drop 508 b) \<rparr>),
             uf2_data_offset = 32 \<rparr>"

subsection \<open>The constants of PICOBOOT\<close>

text \<open>\<open>struct picoboot_cmd\<close> with the arguments of all commands, and \<open>struct picoboot_cmd_status\<close>.\<close>

record picoboot_cmd =
  dMagic :: u32
  cmd_dToken :: u32
  cmd_bCmdId :: u8
  bCmdSize :: u8
  dTransferLength :: u32
  dAddr :: u32
  dSize :: u32
  bExclusive :: u8
  dPC :: u32
  dSP :: u32
  dDelayMS :: u32

record picoboot_cmd_status =
  dToken :: u32
  dStatusCode :: u32
  bCmdId :: u8
  bInProgress :: bool

record picoboot_consts =
  PICOBOOT_MAGIC :: u32
  PICOBOOT_OK :: u32
  PICOBOOT_UNKNOWN_CMD :: u32
  PICOBOOT_INVALID_CMD_LENGTH :: u32
  PICOBOOT_INVALID_TRANSFER_LENGTH :: u32
  PICOBOOT_INVALID_ADDRESS :: u32
  PICOBOOT_BAD_ALIGNMENT :: u32
  PICOBOOT_INTERLEAVED_WRITE :: u32
  PICOBOOT_REBOOTING :: u32
  EXCLUSIVE_AND_EJECT :: u8
  PC_REBOOT :: u8
  PICOBOOT_IF_CMD_STATUS :: u8
  PICOBOOT_IF_RESET :: u8
  sizeof_picoboot_cmd :: nat
  sizeof_exclusive_cmd :: u8
  sizeof_reboot_cmd :: u8
  sizeof_range_cmd :: u8
  sizeof_address_only_cmd :: u8
  picoboot_cmd_parse :: "bytes \<Rightarrow> picoboot_cmd"
  cmd_status_bytes :: "picoboot_cmd_status \<Rightarrow> bytes"

text \<open>What the code relies on: \<open>PICOBOOT_OK\<close> is 0, and only it.\<close>

definition picoboot_ok :: "picoboot_consts \<Rightarrow> bool" where
  "picoboot_ok pb \<longleftrightarrow>
     PICOBOOT_OK pb = 0 \<and>
     distinct [PICOBOOT_OK pb, PICOBOOT_UNKNOWN_CMD pb, PICOBOOT_INVALID_CMD_LENGTH pb,
       PICOBOOT_INVALID_TRANSFER_LENGTH pb, PICOBOOT_INVALID_ADDRESS pb, PICOBOOT_BAD_ALIGNMENT pb,
       PICOBOOT_INTERLEAVED_WRITE pb, PICOBOOT_REBOOTING pb]"

definition picoboot_h :: picoboot_consts where
  "picoboot_h =
     \<lparr> PICOBOOT_MAGIC = 0x431fd10b, PICOBOOT_OK = 0, PICOBOOT_UNKNOWN_CMD = 1,
       PICOBOOT_INVALID_CMD_LENGTH = 2, PICOBOOT_INVALID_TRANSFER_LENGTH = 3,
       PICOBOOT_INVALID_ADDRESS = 4, PICOBOOT_BAD_ALIGNMENT = 5, PICOBOOT_INTERLEAVED_WRITE = 6,
       PICOBOOT_REBOOTING = 7, EXCLUSIVE_AND_EJECT = 2, PC_REBOOT = 2, PICOBOOT_IF_CMD_STATUS = 0x42,
       PICOBOOT_IF_RESET = 0x41, sizeof_picoboot_cmd = 32, sizeof_exclusive_cmd = 1,
       sizeof_reboot_cmd = 12, sizeof_range_cmd = 8, sizeof_address_only_cmd = 4,
       picoboot_cmd_parse = (\<lambda>b.
         \<lparr> dMagic = of_le32 b, cmd_dToken = of_le32 (drop 4 b), cmd_bCmdId = b ! 8, bCmdSize = b ! 9,
           dTransferLength = of_le32 (drop 12 b), dAddr = of_le32 (drop 16 b), dSize = of_le32 (drop 20 b),
           bExclusive = b ! 16, dPC = of_le32 (drop 16 b), dSP = of_le32 (drop 20 b),
           dDelayMS = of_le32 (drop 24 b) \<rparr>),
       cmd_status_bytes = (\<lambda>st. le32 (dToken st) @ le32 (dStatusCode st) @
         [bCmdId st, if bInProgress st then 1 else 0] @ replicate 6 0) \<rparr>"

lemma picoboot_h_ok: "picoboot_ok picoboot_h"
  by (simp add: picoboot_ok_def picoboot_h_def)

subsection \<open>Facts about memory\<close>

lemma mem_write_dom: "mem_write a bs m = Some m' \<Longrightarrow> m' x = None \<longleftrightarrow> m x = None"
  by (induction a bs m rule: mem_write.induct) (auto split: if_splits)

lemma mem_write_outside:
  assumes "mem_write a bs m = Some m'" and "\<And>k. k < length bs \<Longrightarrow> x \<noteq> a + of_nat k"
  shows "m' x = m x"
  using assms
proof (induction a bs m rule: mem_write.induct)
  case (2 a b bs m)
  have x: "x \<noteq> a" using "2.prems"(2) [of 0] by simp
  have step: "m a \<noteq> None" "mem_write (a + 1) bs (m(a \<mapsto> b)) = Some m'"
    using "2.prems"(1) by (simp_all split: if_splits)
  have "x \<noteq> a + 1 + of_nat k" if "k < length bs" for k
    using "2.prems"(2) [of "Suc k"] that by (simp add: algebra_simps)
  then have "m' x = (m(a \<mapsto> b)) x" by (rule "2.IH" [OF step])
  with x show ?case by simp
qed simp

lemma mem_write_total:
  assumes "\<And>k. k < length bs \<Longrightarrow> m (a + of_nat k) \<noteq> None"
  shows "\<exists>m'. mem_write a bs m = Some m'"
  using assms
proof (induction bs arbitrary: a m)
  case (Cons b bs)
  have "m a \<noteq> None" using Cons.prems [of 0] by simp
  moreover have "(m(a \<mapsto> b)) (a + 1 + of_nat k) \<noteq> None" if "k < length bs" for k
    using Cons.prems [of "Suc k"] that by (simp add: algebra_simps)
  then have "\<exists>m'. mem_write (a + 1) bs (m(a \<mapsto> b)) = Some m'" by (rule Cons.IH)
  ultimately show ?case by (simp only: mem_write.simps if_False)
qed simp

lemma those_eq_Some: "those xs = Some ys \<longleftrightarrow> xs = map Some ys"
  by (induction xs arbitrary: ys) (auto split: option.splits)

lemma mem_read_eq: "mem_read m a n = Some bs \<longleftrightarrow> length bs = n \<and> (\<forall>k < n. m (a + of_nat k) = Some (bs ! k))"
  unfolding mem_read_def those_eq_Some list_eq_iff_nth_eq by auto

lemma mem_write_read:
  assumes "mem_write a bs m = Some m'" and "length bs < 2 ^ 32"
  shows "mem_read m' a (length bs) = Some bs"
  using assms
proof (induction bs arbitrary: a m)
  case (Cons b bs)
  have w: "mem_write (a + 1) bs (m(a \<mapsto> b)) = Some m'" using Cons.prems(1) by (simp split: if_splits)
  have "m' a = (m(a \<mapsto> b)) a"
  proof (rule mem_write_outside [OF w])
    fix k assume "k < length bs"
    then have "unat (of_nat (Suc k) :: u32) \<noteq> 0" using Cons.prems(2) by (simp only: unat_of_nat) simp
    then have "(of_nat (Suc k) :: u32) \<noteq> 0" by (metis unat_0)
    then show "a \<noteq> a + 1 + of_nat k" by (simp add: add.assoc)
  qed
  then have "m' a = Some b" by simp
  moreover have "\<forall>k < length bs. m' (a + 1 + of_nat k) = Some (bs ! k)"
    using Cons.IH [OF w] Cons.prems(2) by (simp add: mem_read_eq)
  ultimately show ?case
    by (auto simp: mem_read_eq less_Suc_eq_0_disj algebra_simps)
qed (simp add: mem_read_eq)

end
