(* ===== verification/Runtime.thy ===== *)
theory Runtime
  imports Platform
begin

text \<open>
  \<open>usb_device_tiny/runtime.c\<close>: the reboot through the watchdog, with the four scratch registers that tell
  the boot ROM where to go.  Also \<open>reset_usb_boot\<close> of \<open>bootrom/bootrom_main.c\<close>, which ends in it.  Here
  it is one step; \<open>Reset_Path\<close> has its statements with the wait for the reference clock.
\<close>

record watchdog =
  wd_scratch :: "nat \<Rightarrow> u32"
  wd_load :: u32
  wd_tick :: u32
  wd_enabled :: bool

record runtime_state =
  rebooting :: bool
  watchdog_hw :: watchdog
  usb_activity_gpio_pin_mask :: u32

definition watchdog_rebooting :: "'a runtime_state_scheme \<Rightarrow> bool" where
  "watchdog_rebooting s = rebooting s"

definition watchdog_reboot :: "u32 \<Rightarrow> u32 \<Rightarrow> u32 \<Rightarrow> 'a runtime_state_scheme \<Rightarrow> 'a runtime_state_scheme" where
  "watchdog_reboot pc sp delay_ms s =
     (let scratch = wd_scratch (watchdog_hw s);
          scratch =
            (if pc \<noteq> 0 then
               let pc = pc OR 1; scratch = scratch(4 := 0xb007c0d3)
               in scratch(5 := pc XOR - scratch 4, 6 := sp, 7 := pc)
             else scratch(4 := 0))
      in s\<lparr>watchdog_hw :=
             \<lparr>wd_scratch = scratch, wd_load = delay_ms * 1000, wd_tick = 12, wd_enabled = True\<rparr>,
           rebooting := True\<rparr>)"

definition safe_reboot :: "u32 \<Rightarrow> u32 \<Rightarrow> u32 \<Rightarrow> 'a runtime_state_scheme \<Rightarrow> 'a runtime_state_scheme" where
  "safe_reboot addr sp delay_ms = watchdog_reboot addr sp delay_ms"

text \<open>
  It does not return: the state is the one in which it waits for the watchdog.  The argument \<open>wrapper\<close> is
  the address of \<open>_usb_boot_reboot_wrapper\<close>, which the linker chooses.
\<close>

definition reset_usb_boot ::
    "addressmap \<Rightarrow> u32 \<Rightarrow> u32 \<Rightarrow> u32 \<Rightarrow> 'a runtime_state_scheme \<Rightarrow> 'a runtime_state_scheme" where
  "reset_usb_boot am wrapper gpio_mask disable_mask s =
     (let w = watchdog_hw s;
          w = w\<lparr>wd_scratch := (wd_scratch w)(0 := gpio_mask, 1 := disable_mask)\<rparr>
      in watchdog_reboot wrapper (SRAM_END am) 10 (s\<lparr>watchdog_hw := w\<rparr>))"

text \<open>
  What the boot ROM of the chip does with the registers is documented (RP2040 datasheet, watchdog boot):
  with the magic number and a matching check word it enters at scratch 7 with the stack pointer of
  scratch 6; otherwise it boots as after power on.
\<close>

definition watchdog_entry :: "watchdog \<Rightarrow> (u32 \<times> u32) option" where
  "watchdog_entry w =
     (if wd_scratch w 4 = 0xb007c0d3 \<and> wd_scratch w 5 XOR - 0xb007c0d3 = wd_scratch w 7
      then Some (wd_scratch w 7, wd_scratch w 6) else None)"

lemma watchdog_reboot_entry:
  "watchdog_entry (watchdog_hw (watchdog_reboot pc sp delay_ms s)) =
     (if pc = 0 then None else Some (pc OR 1, sp))"
  "rebooting (watchdog_reboot pc sp delay_ms s)"
  by (simp_all add: watchdog_entry_def watchdog_reboot_def Let_def xor.assoc)

text \<open>A reboot leaves the watchdog running with registers that the boot ROM accepts exactly if an
  address was given: it then enters at that address, in Thumb state, with the given stack; address 0
  boots as after power on.\<close>

lemma watchdog_reboot_enters:
  "watchdog_entry (watchdog_hw (watchdog_reboot pc sp delay_ms s)) =
     (if pc = 0 then None else Some (pc OR 1, sp)) \<and>
   watchdog_rebooting (watchdog_reboot pc sp delay_ms s) \<and>
   wd_enabled (watchdog_hw (watchdog_reboot pc sp delay_ms s)) \<and>
   wd_load (watchdog_hw (watchdog_reboot pc sp delay_ms s)) = delay_ms * 1000"
  using watchdog_reboot_entry [of pc sp delay_ms s]
  by (simp add: watchdog_rebooting_def) (simp add: watchdog_reboot_def Let_def)

end
