(* ===== verification/Async_Task.thy ===== *)
theory Async_Task
  imports Runtime
begin

text \<open>
  \<open>bootrom/async_task.c\<close> and \<open>async_task.h\<close>: the tasks that the interrupt handlers queue and the
  worker thread executes.  A task reads or writes RAM, or erases, programs or reads the flash through a
  table of function pointers that a client may move to RAM (\<open>AT_VECTORIZE_FLASH\<close>) and change.

  The functions of \<open>program_flash_generic.c\<close> appear as the calls they are, in the order of the calls
  (\<open>flash_calls\<close>).  A result \<^term>\<open>None\<close> is a bus fault, an access outside of a buffer, or
  foreign code that does not return.
\<close>

subsection \<open>State\<close>

datatype task_callback = Write_uf2_page_complete | Atc_ack | Atc_chunk_task_done

datatype data_ptr = NullPtr | SectorBuf nat | PicobootBuf

record async_task =
  at_token :: u32
  at_result :: u32
  at_callback :: "task_callback option"
  at_transfer_addr :: u32
  at_erase_addr :: u32
  at_erase_size :: u32
  at_data :: data_ptr
  at_data_length :: u32
  at_picoboot_user_token :: u32
  at_type :: u8
  at_exclusive_param :: u8
  at_source :: u8
  at_check_last_mutation_source :: bool

record async_task_queue =
  q_task :: async_task
  q_full :: bool
  q_disable :: bool

datatype flash_call =
  Flash_enter_cmd_xip | Connect_internal_flash | Flash_exit_xip | Gpio_setup
| Flash_abort | Flash_sector_erase u32 | Flash_page_program u32 bytes | Flash_read_data u32 nat

text \<open>
  \<open>flash_funcs\<close> is \<^term>\<open>None\<close> for the table in ROM, \<^term>\<open>Some a\<close> for its copy at \<open>a\<close>.
  \<open>ejected\<close> is the flag that \<open>msc_eject\<close> sets.
\<close>

record async_state = runtime_state +
  virtual_disk_queue :: async_task_queue
  picoboot_queue :: async_task_queue
  flash_funcs :: "u32 option"
  last_mutation_source :: u8
  ejected :: bool
  mem :: memory
  sector_buf :: bytes
  picoboot_buf :: bytes
  flash_calls :: "flash_call list"

text \<open>
  What the code calls and the repository does not hold: the answers of the flash chip, the bytes of
  \<open>default_flash_funcs\<close> (the linker's addresses), and the code of the client, which runs at an address
  with arguments.
\<close>

record 's foreign =
  flash_data :: "flash_call list \<Rightarrow> u32 \<Rightarrow> nat \<Rightarrow> bytes"
  funcs_image :: bytes
  user_code :: "u32 \<Rightarrow> u32 list \<Rightarrow> data_ptr \<Rightarrow> 's \<Rightarrow> (u32 \<times> 's) option"

definition AT_EXIT_XIP :: u8 where "AT_EXIT_XIP = 0x01"
definition AT_FLASH_ERASE :: u8 where "AT_FLASH_ERASE = 0x02"
definition AT_READ :: u8 where "AT_READ = 0x04"
definition AT_WRITE :: u8 where "AT_WRITE = 0x08"
definition AT_EXCLUSIVE :: u8 where "AT_EXCLUSIVE = 0x10"
definition AT_ENTER_CMD_XIP :: u8 where "AT_ENTER_CMD_XIP = 0x20"
definition AT_EXEC :: u8 where "AT_EXEC = 0x40"
definition AT_VECTORIZE_FLASH :: u8 where "AT_VECTORIZE_FLASH = 0x80"
definition FLASH_PAGE_SIZE :: u32 where "FLASH_PAGE_SIZE = 256"
definition FLASH_PAGE_MASK :: u32 where "FLASH_PAGE_MASK = FLASH_PAGE_SIZE - 1"
definition FLASH_SECTOR_ERASE_SIZE :: u32 where "FLASH_SECTOR_ERASE_SIZE = 4096"
definition TASK_SOURCE_VIRTUAL_DISK :: u8 where "TASK_SOURCE_VIRTUAL_DISK = 1"
definition TASK_SOURCE_PICOBOOT :: u8 where "TASK_SOURCE_PICOBOOT = 2"
definition FLASH_VALID_BLOCKS_BASE :: "addressmap \<Rightarrow> u32" where
  "FLASH_VALID_BLOCKS_BASE am = XIP_SRAM_BASE am"
definition FLASH_BITMAPS_SIZE :: "addressmap \<Rightarrow> u32" where
  "FLASH_BITMAPS_SIZE am = XIP_SRAM_END am - XIP_SRAM_BASE am"
definition sizeof_flash_funcs :: u32 where "sizeof_flash_funcs = 28"

lemmas task_types = AT_EXIT_XIP_def AT_FLASH_ERASE_def AT_READ_def AT_WRITE_def AT_EXCLUSIVE_def
  AT_ENTER_CMD_XIP_def AT_EXEC_def AT_VECTORIZE_FLASH_def

lemmas flash_sizes = FLASH_PAGE_SIZE_def FLASH_PAGE_MASK_def FLASH_SECTOR_ERASE_SIZE_def
  sizeof_flash_funcs_def

definition has_type :: "async_task \<Rightarrow> u8 \<Rightarrow> bool" where
  "has_type task t \<longleftrightarrow> at_type task AND t \<noteq> 0"

subsection \<open>The data of a task\<close>

definition load_data :: "data_ptr \<Rightarrow> nat \<Rightarrow> 'a async_state_scheme \<Rightarrow> bytes option" where
  "load_data p n s =
     (case p of
        NullPtr \<Rightarrow> None
      | SectorBuf off \<Rightarrow> if off + n \<le> length (sector_buf s) then Some (take n (drop off (sector_buf s))) else None
      | PicobootBuf \<Rightarrow> if n \<le> length (picoboot_buf s) then Some (take n (picoboot_buf s)) else None)"

definition store_data :: "data_ptr \<Rightarrow> bytes \<Rightarrow> 'a async_state_scheme \<Rightarrow> 'a async_state_scheme option" where
  "store_data p bs s =
     (case p of
        NullPtr \<Rightarrow> None
      | SectorBuf off \<Rightarrow> map_option (\<lambda>b. s\<lparr>sector_buf := b\<rparr>) (store_list off bs (sector_buf s))
      | PicobootBuf \<Rightarrow> map_option (\<lambda>b. s\<lparr>picoboot_buf := b\<rparr>) (store_list 0 bs (picoboot_buf s)))"

subsection \<open>The flash functions and their table\<close>

definition call_flash :: "flash_call \<Rightarrow> 'a async_state_scheme \<Rightarrow> 'a async_state_scheme" where
  "call_flash c s = s\<lparr>flash_calls := flash_calls s @ [c]\<rparr>"

definition do_flash_enter_cmd_xip :: "'a async_state_scheme \<Rightarrow> u32 \<times> 'a async_state_scheme" where
  "do_flash_enter_cmd_xip s = (0, call_flash Flash_enter_cmd_xip s)"

definition do_flash_exit_xip :: "'a async_state_scheme \<Rightarrow> u32 \<times> 'a async_state_scheme" where
  "do_flash_exit_xip s =
     (0, call_flash Gpio_setup (call_flash Flash_exit_xip (call_flash Connect_internal_flash s)))"

definition do_flash_erase_sector ::
    "addressmap \<Rightarrow> u32 \<Rightarrow> 'a async_state_scheme \<Rightarrow> u32 \<times> 'a async_state_scheme" where
  "do_flash_erase_sector am addr s = (0, call_flash (Flash_sector_erase (addr - XIP_MAIN_BASE am)) s)"

definition do_flash_page_program ::
    "addressmap \<Rightarrow> u32 \<Rightarrow> data_ptr \<Rightarrow> 'a async_state_scheme \<Rightarrow> (u32 \<times> 'a async_state_scheme) option" where
  "do_flash_page_program am addr data s = do {
     bs \<leftarrow> load_data data 256 s;
     Some (0, call_flash (Flash_page_program (addr - XIP_MAIN_BASE am) bs) s)
   }"

definition do_flash_page_read ::
    "'a async_state_scheme foreign \<Rightarrow> addressmap \<Rightarrow> u32 \<Rightarrow> data_ptr \<Rightarrow> 'a async_state_scheme \<Rightarrow>
     (u32 \<times> 'a async_state_scheme) option" where
  "do_flash_page_read env am addr data s = do {
     let bs = flash_data env (flash_calls s) (addr - XIP_MAIN_BASE am) (unat FLASH_PAGE_SIZE);
     s \<leftarrow> store_data data bs (call_flash (Flash_read_data (addr - XIP_MAIN_BASE am) (unat FLASH_PAGE_SIZE)) s);
     Some (0, s)
   }"

text \<open>Entry \<open>k\<close> of the table: through \<open>flash_funcs\<close>, and as it is in ROM.\<close>

definition default_vector :: "'s foreign \<Rightarrow> nat \<Rightarrow> u32" where
  "default_vector env k = of_le32 (drop (4 * k) (funcs_image env))"

definition flash_vector :: "'a async_state_scheme foreign \<Rightarrow> nat \<Rightarrow> 'a async_state_scheme \<Rightarrow> u32 option" where
  "flash_vector env k s =
     (case flash_funcs s of
        None \<Rightarrow> Some (default_vector env k)
      | Some a \<Rightarrow> map_option of_le32 (mem_read (mem s) (a + of_nat (4 * k)) 4))"

text \<open>A call through the table: of the program's own function, or of the client's.\<close>

definition call_vector ::
    "'a async_state_scheme foreign \<Rightarrow> nat \<Rightarrow> u32 list \<Rightarrow> data_ptr \<Rightarrow>
     ('a async_state_scheme \<Rightarrow> (u32 \<times> 'a async_state_scheme) option) \<Rightarrow>
     'a async_state_scheme \<Rightarrow> (u32 \<times> 'a async_state_scheme) option" where
  "call_vector env k args data f s = do {
     p \<leftarrow> flash_vector env k s;
     if p = default_vector env k then f s else user_code env p args data s
   }"

partial_function (option) erase_loop ::
    "'a async_state_scheme foreign \<Rightarrow> addressmap \<Rightarrow> u32 \<Rightarrow> u32 \<Rightarrow> u32 \<Rightarrow> 'a async_state_scheme \<Rightarrow>
     (u32 \<times> 'a async_state_scheme) option" where [code]:
  "erase_loop env am end_addr addr ret s =
     (if addr < end_addr \<and> ret = 0 then
        Option.bind (call_vector env 3 [addr] NullPtr (Some \<circ> do_flash_erase_sector am addr) s)
          (\<lambda>(ret, s). erase_loop env am end_addr (addr + FLASH_SECTOR_ERASE_SIZE) ret s)
      else Some (ret, s))"

definition do_flash_erase_range ::
    "'a async_state_scheme foreign \<Rightarrow> picoboot_consts \<Rightarrow> addressmap \<Rightarrow> u32 \<Rightarrow> u32 \<Rightarrow>
     'a async_state_scheme \<Rightarrow> (u32 \<times> 'a async_state_scheme) option" where
  "do_flash_erase_range env pb am addr len = erase_loop env am (addr + len) addr (PICOBOOT_OK pb)"

definition is_address_safe_for_vectoring :: "addressmap \<Rightarrow> u32 \<Rightarrow> bool" where
  "is_address_safe_for_vectoring am addr \<longleftrightarrow>
     is_address_ram am addr \<and>
     (addr < FLASH_VALID_BLOCKS_BASE am \<or> FLASH_VALID_BLOCKS_BASE am + FLASH_BITMAPS_SIZE am < addr)"


subsection \<open>The execution of a task\<close>

text \<open>
  The body of \<open>_execute_task\<close> in stages, one for each type bit.  A stage gives the status with which
  the body returns early, if it does; \<open>and_then\<close> runs the next stage if it does not.
\<close>

type_synonym 's stage = "'s \<Rightarrow> (u32 option \<times> 's) option"

definition and_then :: "'s stage \<Rightarrow> 's stage \<Rightarrow> 's stage" where
  "and_then f g s = Option.bind (f s) (\<lambda>(r, s). if r = None then g s else Some (r, s))"

definition go_on :: "'s stage" where "go_on s = Some (None, s)"

definition return_status :: "u32 \<Rightarrow> 's stage" where "return_status r s = Some (Some r, s)"

text \<open>\<open>if (ret) return ret;\<close>\<close>

definition check_ret :: "(u32 \<times> 's) option \<Rightarrow> (u32 option \<times> 's) option" where
  "check_ret x = map_option (\<lambda>(ret, s). (if ret \<noteq> 0 then Some ret else None, s)) x"

definition exec_vectorize ::
    "'a async_state_scheme foreign \<Rightarrow> picoboot_consts \<Rightarrow> addressmap \<Rightarrow> async_task \<Rightarrow> 'a async_state_scheme stage" where
  "exec_vectorize env pb am task s =
     (if has_type task AT_VECTORIZE_FLASH then
        if at_transfer_addr task AND 1 \<noteq> 0 then return_status (PICOBOOT_BAD_ALIGNMENT pb) s
        else if is_address_safe_for_vectoring am (at_transfer_addr task) \<and>
                is_address_safe_for_vectoring am (at_transfer_addr task + sizeof_flash_funcs)
        then do {
          m \<leftarrow> mem_write (at_transfer_addr task) (funcs_image env) (mem s);
          go_on (s\<lparr>mem := m, flash_funcs := Some (at_transfer_addr task)\<rparr>)
        }
        else return_status (PICOBOOT_INVALID_ADDRESS pb) s
      else go_on s)"

definition async_disable_queue :: "bool \<Rightarrow> async_task_queue \<Rightarrow> async_task_queue" where
  "async_disable_queue disable q = q\<lparr>q_disable := disable\<rparr>"

definition exec_exclusive :: "picoboot_consts \<Rightarrow> async_task \<Rightarrow> 'a async_state_scheme stage" where
  "exec_exclusive pb task s =
     go_on (if has_type task AT_EXCLUSIVE then
        let s = s\<lparr>virtual_disk_queue :=
                    async_disable_queue (at_exclusive_param task \<noteq> 0) (virtual_disk_queue s)\<rparr>
        in if at_exclusive_param task = EXCLUSIVE_AND_EJECT pb then s\<lparr>ejected := True\<rparr> else s
      else s)"

definition exec_exit_xip :: "'a async_state_scheme foreign \<Rightarrow> async_task \<Rightarrow> 'a async_state_scheme stage" where
  "exec_exit_xip env task s =
     (if has_type task AT_EXIT_XIP
      then check_ret (call_vector env 2 [] NullPtr (Some \<circ> do_flash_exit_xip) s) else go_on s)"

definition exec_exec :: "'a async_state_scheme foreign \<Rightarrow> async_task \<Rightarrow> 'a async_state_scheme stage" where
  "exec_exec env task s =
     (if has_type task AT_EXEC
      then map_option (\<lambda>(_, s). (None, s)) (user_code env (at_transfer_addr task OR 1) [] NullPtr s)
      else go_on s)"

definition exec_mutation :: "picoboot_consts \<Rightarrow> async_task \<Rightarrow> 'a async_state_scheme stage" where
  "exec_mutation pb task s =
     (if has_type task (AT_WRITE OR AT_FLASH_ERASE) then
        if at_check_last_mutation_source task \<and> last_mutation_source s \<noteq> at_source task
        then return_status (PICOBOOT_INTERLEAVED_WRITE pb) s
        else go_on (s\<lparr>last_mutation_source := at_source task\<rparr>)
      else go_on s)"

definition exec_erase ::
    "'a async_state_scheme foreign \<Rightarrow> picoboot_consts \<Rightarrow> addressmap \<Rightarrow> async_task \<Rightarrow> 'a async_state_scheme stage" where
  "exec_erase env pb am task s =
     (if has_type task AT_FLASH_ERASE then
        if at_erase_addr task AND (FLASH_SECTOR_ERASE_SIZE - 1) \<noteq> 0
        then return_status (PICOBOOT_BAD_ALIGNMENT pb) s
        else if at_erase_size task AND (FLASH_SECTOR_ERASE_SIZE - 1) \<noteq> 0
        then return_status (PICOBOOT_BAD_ALIGNMENT pb) s
        else if \<not> (is_address_flash am (at_erase_addr task) \<and>
                   is_address_flash am (at_erase_addr task + at_erase_size task))
        then return_status (PICOBOOT_INVALID_ADDRESS pb) s
        else check_ret (call_vector env 4 [at_erase_addr task, at_erase_size task] NullPtr
               (do_flash_erase_range env pb am (at_erase_addr task) (at_erase_size task)) s)
      else go_on s)"

text \<open>Where a read or write goes: \<^term>\<open>Inr True\<close> is direct access to memory.\<close>

definition transfer_access :: "picoboot_consts \<Rightarrow> addressmap \<Rightarrow> async_task \<Rightarrow> u32 + bool" where
  "transfer_access pb am task =
     (let a = at_transfer_addr task; e = at_transfer_addr task + at_data_length task in
      if (is_address_ram am a \<and> is_address_ram am e) \<or>
         (\<not> has_type task AT_WRITE \<and> is_address_rom a \<and> is_address_rom e)
      then Inr True
      else if is_address_flash am a \<and> is_address_flash am e
      then if a AND (FLASH_PAGE_SIZE - 1) \<noteq> 0 then Inl (PICOBOOT_BAD_ALIGNMENT pb) else Inr False
      else Inl (PICOBOOT_INVALID_ADDRESS pb))"

text \<open>A write to memory that overlaps the table in RAM goes back to the one in ROM.\<close>

definition revert_vectors :: "u32 \<Rightarrow> u32 \<Rightarrow> 'a async_state_scheme \<Rightarrow> 'a async_state_scheme" where
  "revert_vectors addr len s =
     (case flash_funcs s of
        None \<Rightarrow> s
      | Some ff \<Rightarrow>
          if max ff addr < min (ff + sizeof_flash_funcs) (addr + len) then s\<lparr>flash_funcs := None\<rparr> else s)"

definition exec_write ::
    "'a async_state_scheme foreign \<Rightarrow> addressmap \<Rightarrow> bool \<Rightarrow> async_task \<Rightarrow> 'a async_state_scheme stage" where
  "exec_write env am direct task s =
     (if has_type task AT_WRITE then
        if direct then do {
          bs \<leftarrow> load_data (at_data task) (unat (at_data_length task)) s;
          let s = revert_vectors (at_transfer_addr task) (at_data_length task) s;
          m \<leftarrow> mem_write (at_transfer_addr task) bs (mem s);
          go_on (s\<lparr>mem := m\<rparr>)
        }
        else check_ret (call_vector env 5 [at_transfer_addr task] (at_data task)
               (do_flash_page_program am (at_transfer_addr task) (at_data task)) s)
      else go_on s)"

definition exec_read ::
    "'a async_state_scheme foreign \<Rightarrow> addressmap \<Rightarrow> bool \<Rightarrow> async_task \<Rightarrow> 'a async_state_scheme stage" where
  "exec_read env am direct task s =
     (if has_type task AT_READ then
        if direct then do {
          bs \<leftarrow> mem_read (mem s) (at_transfer_addr task) (unat (at_data_length task));
          s \<leftarrow> store_data (at_data task) bs s;
          go_on s
        }
        else check_ret (call_vector env 6 [at_transfer_addr task] (at_data task)
               (do_flash_page_read env am (at_transfer_addr task) (at_data task)) s)
      else go_on s)"

definition exec_enter_cmd_xip ::
    "'a async_state_scheme foreign \<Rightarrow> async_task \<Rightarrow> 'a async_state_scheme stage" where
  "exec_enter_cmd_xip env task s =
     (if has_type task AT_ENTER_CMD_XIP
      then check_ret (call_vector env 1 [] NullPtr (Some \<circ> do_flash_enter_cmd_xip) s) else go_on s)"

text \<open>The block of \<open>if (type & (AT_WRITE | AT_READ))\<close>.\<close>

definition exec_transfer ::
    "'a async_state_scheme foreign \<Rightarrow> picoboot_consts \<Rightarrow> addressmap \<Rightarrow> async_task \<Rightarrow> 'a async_state_scheme stage" where
  "exec_transfer env pb am task s =
     (if has_type task (AT_WRITE OR AT_READ) then
        (case transfer_access pb am task of
           Inl ret \<Rightarrow> return_status ret s
         | Inr direct \<Rightarrow>
             and_then (exec_write env am direct task)
               (and_then (exec_read env am direct task) (exec_enter_cmd_xip env task)) s)
      else go_on s)"

definition execute_task_body ::
    "'a async_state_scheme foreign \<Rightarrow> picoboot_consts \<Rightarrow> addressmap \<Rightarrow> async_task \<Rightarrow> 'a async_state_scheme stage" where
  "execute_task_body env pb am task =
     and_then (exec_vectorize env pb am task)
       (and_then (exec_exclusive pb task)
         (and_then (exec_exit_xip env task)
           (and_then (exec_exec env task)
             (and_then (exec_mutation pb task)
               (and_then (exec_erase env pb am task) (exec_transfer env pb am task))))))"

text \<open>\<open>_execute_task\<close>\<close>

definition execute_task_status ::
    "'a async_state_scheme foreign \<Rightarrow> picoboot_consts \<Rightarrow> addressmap \<Rightarrow> async_task \<Rightarrow>
     'a async_state_scheme \<Rightarrow> (u32 \<times> 'a async_state_scheme) option" where
  "execute_task_status env pb am task s =
     (if watchdog_rebooting s then Some (PICOBOOT_REBOOTING pb, s)
      else map_option (\<lambda>(ret, s). (case ret of Some r \<Rightarrow> r | None \<Rightarrow> PICOBOOT_OK pb, s))
             (execute_task_body env pb am task s))"

subsection \<open>The queues and the worker\<close>

definition reset_task :: async_task where
  "reset_task =
     \<lparr> at_token = 0, at_result = 0, at_callback = None, at_transfer_addr = 0, at_erase_addr = 0,
       at_erase_size = 0, at_data = NullPtr, at_data_length = 0, at_picoboot_user_token = 0, at_type = 0,
       at_exclusive_param = 0, at_source = 0, at_check_last_mutation_source = False \<rparr>"

text \<open>The task is an object of the caller, which keeps the callback it is given.\<close>

definition queue_task ::
    "async_task \<Rightarrow> task_callback \<Rightarrow> async_task_queue \<Rightarrow> async_task \<times> async_task_queue" where
  "queue_task task callback q =
     (let task = task\<lparr>at_callback := Some callback\<rparr> in (task, q\<lparr>q_task := task, q_full := True\<rparr>))"

definition dequeue_task :: "async_task_queue \<Rightarrow> async_task option \<times> async_task_queue" where
  "dequeue_task q = (if q_full q then (Some (q_task q), q\<lparr>q_full := False\<rparr>) else (None, q))"

definition reset_queue :: "async_task_queue \<Rightarrow> async_task_queue" where
  "reset_queue q = async_disable_queue False (q\<lparr>q_full := False\<rparr>)"

text \<open>The argument \<open>disable\<close> is the flag of the queue; \<open>call\<close> runs a callback.\<close>

definition execute_task ::
    "'a async_state_scheme foreign \<Rightarrow> picoboot_consts \<Rightarrow> addressmap \<Rightarrow>
     (task_callback \<Rightarrow> async_task \<Rightarrow> 'a async_state_scheme \<Rightarrow> 'a async_state_scheme option) \<Rightarrow>
     bool \<Rightarrow> async_task \<Rightarrow> 'a async_state_scheme \<Rightarrow> 'a async_state_scheme option" where
  "execute_task env pb am call disable task s = do {
     (ret, s) \<leftarrow> (if disable then Some (1, s) else execute_task_status env pb am task s);
     let task = task\<lparr>at_result := ret\<rparr>;
     callback \<leftarrow> at_callback task;
     call callback task s
   }"

text \<open>One turn of the loop of \<open>async_task_worker\<close>; the flag says whether there was a task.\<close>

definition async_task_worker ::
    "'a async_state_scheme foreign \<Rightarrow> picoboot_consts \<Rightarrow> addressmap \<Rightarrow>
     (task_callback \<Rightarrow> async_task \<Rightarrow> 'a async_state_scheme \<Rightarrow> 'a async_state_scheme option) \<Rightarrow>
     'a async_state_scheme \<Rightarrow> (bool \<times> 'a async_state_scheme) option" where
  "async_task_worker env pb am call s =
     (case dequeue_task (virtual_disk_queue s) of
        (Some task, q) \<Rightarrow>
          map_option (Pair True)
            (execute_task env pb am call (q_disable q) task (s\<lparr>virtual_disk_queue := q\<rparr>))
      | (None, q) \<Rightarrow>
          (case dequeue_task (picoboot_queue s) of
             (Some task, q) \<Rightarrow>
               map_option (Pair True)
                 (execute_task env pb am call (q_disable q) task (s\<lparr>picoboot_queue := q\<rparr>))
           | (None, q) \<Rightarrow> Some (False, s)))"

end
