(* ===== verification/Serial_Number.thy ===== *)
theory Serial_Number
  imports Prelude
begin

text \<open>
  The serial numbers of \<open>bootrom/usb_boot_device.c\<close>: the 32-bit volume serial number, which is the
  time of its first use, and the 12 characters of the USB serial number string, which
  \<open>usb_boot_device_init\<close> writes from the chip's and the software's revision numbers.
\<close>

record boot_device_state =
  serial_number32 :: u32
  serial_number_valid :: bool

text \<open>The argument \<open>now\<close> is what \<open>time_us_32\<close> reads from the timer.\<close>

definition msc_get_serial_number32 :: "u32 \<Rightarrow> boot_device_state \<Rightarrow> u32 \<times> boot_device_state" where
  "msc_get_serial_number32 now s =
     (let s = (if \<not> serial_number_valid s
               then s\<lparr>serial_number32 := now, serial_number_valid := True\<rparr> else s)
      in (serial_number32 s, s))"

definition to_hex_digit :: "u32 \<Rightarrow> u8" where
  "to_hex_digit x = (if x < 10 then 0x30 + ucast x else 0x41 + ucast x - 10)"

fun write_six_loop :: "nat \<Rightarrow> nat \<Rightarrow> u32 \<Rightarrow> bytes \<Rightarrow> bytes option" where
  "write_six_loop 0 dest val buf = Some buf"
| "write_six_loop (Suc i) dest val buf =
     Option.bind (store dest (to_hex_digit (drop_bit 28 val)) buf)
       (write_six_loop i (dest + 1) (push_bit 4 val))"

definition write_six_msb_hex_chars :: "nat \<Rightarrow> u32 \<Rightarrow> bytes \<Rightarrow> bytes option" where
  "write_six_msb_hex_chars dest val buf = write_six_loop 6 dest val buf"

text \<open>The part of \<open>usb_boot_device_init\<close> that sets the string.\<close>

definition set_serial_number_string :: "u32 \<Rightarrow> u32 \<Rightarrow> bytes \<Rightarrow> bytes option" where
  "set_serial_number_string gitref software_git_revision str =
     Option.bind (write_six_msb_hex_chars 0 gitref str)
       (write_six_msb_hex_chars 6 software_git_revision)"

subsection \<open>The volume serial number never changes once it is read\<close>

lemma msc_get_serial_number32_valid [simp]:
  "serial_number_valid (snd (msc_get_serial_number32 now s))"
  by (simp add: msc_get_serial_number32_def Let_def)

lemma msc_get_serial_number32_stable:
  "msc_get_serial_number32 later (snd (msc_get_serial_number32 now s)) =
   msc_get_serial_number32 now s"
  by (simp add: msc_get_serial_number32_def Let_def)

subsection \<open>The string\<close>

definition six_hex_text :: "u32 \<Rightarrow> bytes" where
  "six_hex_text val = map (\<lambda>i. to_hex_digit (take_bit 4 (drop_bit (28 - 4 * i) val))) [0..<6]"

lemma write_six_loop_store_list:
  "write_six_loop (Suc n) dest val buf =
   store_list dest (map (\<lambda>i. to_hex_digit (drop_bit 28 (push_bit (4 * i) val))) [0..<Suc n]) buf"
proof (induction n arbitrary: dest val buf)
  case 0
  show ?case
    by (cases "store dest (to_hex_digit (drop_bit 28 val)) buf") (simp_all add: store_as_list)
next
  case (Suc n)
  have "write_six_loop (Suc (Suc n)) dest val buf =
      Option.bind (store_list dest [to_hex_digit (drop_bit 28 val)] buf)
        (store_list (dest + 1) (map (\<lambda>i. to_hex_digit (drop_bit 28 (push_bit (4 * i) (push_bit 4 val)))) [0..<Suc n]))"
  proof -
    have "write_six_loop (Suc n) (dest + 1) (push_bit 4 val) = store_list (dest + 1)
        (map (\<lambda>i. to_hex_digit (drop_bit 28 (push_bit (4 * i) (push_bit 4 val)))) [0..<Suc n])"
      by (rule ext) (rule Suc.IH)
    then show ?thesis
      by (subst write_six_loop.simps) (simp only: store_as_list)
  qed
  also have "\<dots> = store_list dest (to_hex_digit (drop_bit 28 val) #
      map (\<lambda>i. to_hex_digit (drop_bit 28 (push_bit (4 * i) (push_bit 4 val)))) [0..<Suc n]) buf"
    by (simp add: store_list_append_last del: upt_Suc)
  also have "to_hex_digit (drop_bit 28 val) #
      map (\<lambda>i. to_hex_digit (drop_bit 28 (push_bit (4 * i) (push_bit 4 val)))) [0..<Suc n] =
      map (\<lambda>i. to_hex_digit (drop_bit 28 (push_bit (4 * i) val))) [0..<Suc (Suc n)]"
    by (simp add: upt_conv_Cons map_Suc_upt [symmetric] comp_def push_bit_push_bit del: upt_Suc)
  finally show ?case .
qed

lemma drop_push_nibble:
  "i < 6 \<Longrightarrow> drop_bit 28 (push_bit (4 * i) (val :: u32)) = take_bit 4 (drop_bit (28 - 4 * i) val)"
  by (rule bit_word_eqI) (auto simp: bit_simps)


lemma length_six_hex_text [simp]: "length (six_hex_text val) = 6"
  by (simp add: six_hex_text_def)

lemma write_six_store_list: "write_six_msb_hex_chars dest val = store_list dest (six_hex_text val)"
proof (rule ext)
  fix buf
  have "map (\<lambda>i. to_hex_digit (drop_bit 28 (push_bit (4 * i) val))) [0..<Suc 5] = six_hex_text val"
    unfolding six_hex_text_def by (rule map_cong) (simp_all add: drop_push_nibble del: upt_Suc)
  then show "write_six_msb_hex_chars dest val buf = store_list dest (six_hex_text val) buf"
    using write_six_loop_store_list [of 5 dest val buf]
    by (simp add: write_six_msb_hex_chars_def numeral_eq_Suc del: upt_Suc)
qed

lemma set_serial_number_string_eq:
  assumes "12 \<le> length str"
  shows "set_serial_number_string gitref git_rev str =
         Some (six_hex_text gitref @ six_hex_text git_rev @ drop 12 str)"
  using assms by (simp add: set_serial_number_string_def write_six_store_list seq_stores store_list_Some)

end
