(* ===== verification/Uf2_Write.thy ===== *)
theory Uf2_Write
  imports Async_Task Serial_Number
begin

text \<open>
  The write side of \<open>bootrom/virtual_disk.c\<close>.  A sector that is a UF2 block updates the record of the
  current transfer; then, in this program, \<open>_write_uf2_page\<close> hands over to the boot loader with
  \<open>reset_usb_boot\<close>, which does not return, so the rest of its body is never reached.
\<close>

subsection \<open>State\<close>

text \<open>A pointer to a bit set: the array \<open>uf2_valid_ram_blocks\<close>, or an address.\<close>

datatype bits_ptr = NullBits | RamBlocks | BitsAt u32

record uf2_info =
  valid_blocks :: bits_ptr
  max_valid_blocks :: u32
  cleared_pages :: bits_ptr
  max_cleared_pages :: u32
  num_blocks :: u32
  uf2_token :: u32
  valid_block_count :: u32
  lowest_addr :: u32
  block_no :: u32
  next_task :: async_task
  uf2_ram :: bool

definition zero_uf2_info :: uf2_info where
  "zero_uf2_info =
     \<lparr> valid_blocks = NullBits, max_valid_blocks = 0, cleared_pages = NullBits, max_cleared_pages = 0,
       num_blocks = 0, uf2_token = 0, valid_block_count = 0, lowest_addr = 0, block_no = 0,
       next_task = reset_task, uf2_ram = False \<rparr>"

record disk_state = async_state +
  uf2 :: uf2_info
  uf2_valid_ram_blocks :: bytes
  boot_device :: boot_device_state

definition MAX_RAM_UF2_BLOCKS :: nat where "MAX_RAM_UF2_BLOCKS = 1280"

definition FLASH_MAX_VALID_BLOCKS :: "addressmap \<Rightarrow> nat" where
  "FLASH_MAX_VALID_BLOCKS am =
     unat (FLASH_BITMAPS_SIZE am) * 8 * unat FLASH_SECTOR_ERASE_SIZE
       div (unat FLASH_PAGE_SIZE + unat FLASH_SECTOR_ERASE_SIZE) div 32 * 32"

definition FLASH_CLEARED_PAGES_BASE :: "addressmap \<Rightarrow> u32" where
  "FLASH_CLEARED_PAGES_BASE am = FLASH_VALID_BLOCKS_BASE am + of_nat (FLASH_MAX_VALID_BLOCKS am div 8)"

definition FLASH_MAX_CLEARED_PAGES :: "addressmap \<Rightarrow> nat" where
  "FLASH_MAX_CLEARED_PAGES am =
     FLASH_MAX_VALID_BLOCKS am * unat FLASH_PAGE_SIZE div unat FLASH_SECTOR_ERASE_SIZE"

subsection \<open>Operations\<close>

definition vd_reset :: "'a disk_state_scheme \<Rightarrow> 'a disk_state_scheme" where
  "vd_reset s = s\<lparr>uf2 := (uf2 s)\<lparr>num_blocks := 0\<rparr>\<rparr>"

definition clear_bitset :: "bits_ptr \<Rightarrow> u32 \<Rightarrow> 'a disk_state_scheme \<Rightarrow> 'a disk_state_scheme option" where
  "clear_bitset p count s =
     (let zeros = replicate (unat count div 8) 0 in
      case p of
        NullBits \<Rightarrow> None
      | RamBlocks \<Rightarrow> map_option (\<lambda>b. s\<lparr>uf2_valid_ram_blocks := b\<rparr>) (store_list 0 zeros (uf2_valid_ram_blocks s))
      | BitsAt a \<Rightarrow> map_option (\<lambda>m. s\<lparr>mem := m\<rparr>) (mem_write a zeros (mem s)))"

text \<open>A block of another size of transfer starts a new one.  The flag says whether it fits.\<close>

definition new_uf2_transfer ::
    "addressmap \<Rightarrow> uf2_block \<Rightarrow> bool \<Rightarrow> bool \<Rightarrow> 'a disk_state_scheme \<Rightarrow> (bool \<times> 'a disk_state_scheme) option" where
  "new_uf2_transfer am b ram flash s = do {
     let info = zero_uf2_info
       \<lparr>uf2_ram := ram,
        valid_blocks := if ram then RamBlocks else BitsAt (FLASH_VALID_BLOCKS_BASE am),
        max_valid_blocks := of_nat (if ram then MAX_RAM_UF2_BLOCKS else FLASH_MAX_VALID_BLOCKS am)\<rparr>;
     s \<leftarrow> clear_bitset (valid_blocks info) (max_valid_blocks info) s;
     let info = (if flash then info\<lparr>cleared_pages := BitsAt (FLASH_CLEARED_PAGES_BASE am),
                                    max_cleared_pages := of_nat (FLASH_MAX_CLEARED_PAGES am)\<rparr>
                 else info);
     s \<leftarrow> (if flash then clear_bitset (cleared_pages info) (max_cleared_pages info) s else Some s);
     if max_valid_blocks info < uf2_num_blocks b then Some (False, s\<lparr>uf2 := info\<rparr>)
     else Some (True, s\<lparr>uf2 := info\<lparr>num_blocks := uf2_num_blocks b, valid_block_count := 0,
                                    lowest_addr := 0xffffffff\<rparr>\<rparr>)
   }"

definition setup_next_task :: "uf2_consts \<Rightarrow> uf2_block \<Rightarrow> u32 \<Rightarrow> u8 \<Rightarrow> uf2_info \<Rightarrow> uf2_info" where
  "setup_next_task u b token type info =
     info\<lparr> block_no := uf2_block_no b,
           uf2_token := token,
           next_task := reset_task
             \<lparr> at_token := token,
               at_transfer_addr := target_addr b,
               at_type := type,
               at_data := SectorBuf (uf2_data_offset u),
               at_callback := Some Write_uf2_page_complete,
               at_data_length := FLASH_PAGE_SIZE,
               at_source := TASK_SOURCE_VIRTUAL_DISK \<rparr> \<rparr>"

definition update_current_uf2_info ::
    "addressmap \<Rightarrow> uf2_consts \<Rightarrow> uf2_block \<Rightarrow> u32 \<Rightarrow> 'a disk_state_scheme \<Rightarrow> (bool \<times> 'a disk_state_scheme) option" where
  "update_current_uf2_info am u b token s =
     (let addr = target_addr b;
          ram = is_address_ram am addr \<and> is_address_ram am (addr + FLASH_PAGE_MASK);
          flash = is_address_flash am addr \<and> is_address_flash am (addr + FLASH_PAGE_MASK);
          invalid = (\<lambda>s. Some (False, s\<lparr>uf2 := (uf2 s)\<lparr>num_blocks := 0\<rparr>\<rparr>))
      in if \<not> (uf2_num_blocks b \<noteq> 0 \<and> (ram \<or> flash)) \<or> (flash \<and> addr AND FLASH_PAGE_MASK \<noteq> 0) then invalid s
         else if \<not> q_disable (virtual_disk_queue s) then do {
           let is_new = (num_blocks (uf2 s) \<noteq> uf2_num_blocks b);
           (fits, s) \<leftarrow> (if is_new then new_uf2_transfer am b ram flash s else Some (True, s));
           let type = (if is_new \<and> flash then AT_WRITE OR AT_EXIT_XIP else AT_WRITE);
           if \<not> fits then Some (False, s)
           else if ram \<noteq> uf2_ram (uf2 s) then invalid s
           else if uf2_block_no b < uf2_num_blocks b
           then Some (True, s\<lparr>uf2 := setup_next_task u b token type (uf2 s)\<rparr>)
           else invalid s
         }
         else invalid s)"

text \<open>A call returns, or it waits for the reboot.\<close>

datatype 's outcome = Returned bool 's | Rebooted 's

definition write_uf2_page :: "addressmap \<Rightarrow> u32 \<Rightarrow> 'a disk_state_scheme \<Rightarrow> 'a disk_state_scheme outcome" where
  "write_uf2_page am wrapper s = Rebooted (reset_usb_boot am wrapper (usb_activity_gpio_pin_mask s) 0 s)"

definition vd_write_block ::
    "addressmap \<Rightarrow> uf2_consts \<Rightarrow> u32 \<Rightarrow> u32 \<Rightarrow> u32 \<Rightarrow> bytes \<Rightarrow> 'a disk_state_scheme \<Rightarrow>
     'a disk_state_scheme outcome option" where
  "vd_write_block am u wrapper token lba buf s =
     (let b = uf2_parse u buf in
      if magic_start0 b = UF2_MAGIC_START0 u \<and> magic_start1 b = UF2_MAGIC_START1 u \<and>
         magic_end b = UF2_MAGIC_END u \<and>
         uf2_flags b AND UF2_FLAG_FAMILY_ID_PRESENT u \<noteq> 0 \<and> file_size b = RP2040_FAMILY_ID u \<and>
         uf2_flags b AND UF2_FLAG_NOT_MAIN_FLASH u = 0 \<and> payload_size b = 256
      then do {
        (ok, s) \<leftarrow> update_current_uf2_info am u b token s;
        Some (if ok then write_uf2_page am wrapper s else Returned False s)
      }
      else Some (Returned False s))"


subsection \<open>What a block changes\<close>

lemma bitmap_sizes:
  assumes "addressmap_ok am"
  shows "FLASH_BITMAPS_SIZE am = 16384" "FLASH_MAX_VALID_BLOCKS am = 123360" "FLASH_MAX_CLEARED_PAGES am = 7710"
proof -
  have "unat (FLASH_BITMAPS_SIZE am) = unat (XIP_SRAM_END am) - unat (XIP_SRAM_BASE am)"
    using assms by (simp add: FLASH_BITMAPS_SIZE_def addressmap_ok_def unat_sub word_le_nat_alt)
  then have size: "unat (FLASH_BITMAPS_SIZE am) = 16384" using assms by (simp add: addressmap_ok_def)
  show "FLASH_BITMAPS_SIZE am = 16384" using size by (simp add: word_unat_eq_iff)
  show blocks: "FLASH_MAX_VALID_BLOCKS am = 123360"
    by (simp add: FLASH_MAX_VALID_BLOCKS_def size flash_sizes)
  show "FLASH_MAX_CLEARED_PAGES am = 7710"
    by (simp add: FLASH_MAX_CLEARED_PAGES_def blocks flash_sizes)
qed

definition xip_byte :: "addressmap \<Rightarrow> u32 \<Rightarrow> bool" where
  "xip_byte am x \<longleftrightarrow> XIP_SRAM_BASE am \<le> x \<and> x < XIP_SRAM_END am"

definition xip_mapped :: "addressmap \<Rightarrow> memory \<Rightarrow> bool" where
  "xip_mapped am m \<longleftrightarrow> (\<forall>k < 16384. m (XIP_SRAM_BASE am + of_nat k) \<noteq> None)"

definition disk_ready :: "addressmap \<Rightarrow> 'a disk_state_scheme \<Rightarrow> bool" where
  "disk_ready am s \<longleftrightarrow> xip_mapped am (mem s) \<and> length (uf2_valid_ram_blocks s) = 160"

text \<open>Only the transfer record and the bit sets may differ.\<close>

definition bits_frame :: "addressmap \<Rightarrow> 'a disk_state_scheme \<Rightarrow> 'a disk_state_scheme \<Rightarrow> bool" where
  "bits_frame am s t \<longleftrightarrow>
     (\<forall>x. mem t x \<noteq> mem s x \<longrightarrow> xip_byte am x) \<and> flash_calls t = flash_calls s \<and>
     virtual_disk_queue t = virtual_disk_queue s \<and> picoboot_queue t = picoboot_queue s \<and>
     flash_funcs t = flash_funcs s \<and> sector_buf t = sector_buf s \<and> watchdog_hw t = watchdog_hw s \<and>
     rebooting t = rebooting s \<and> usb_activity_gpio_pin_mask t = usb_activity_gpio_pin_mask s"

lemma clear_xip:
  assumes "addressmap_ok am" and "xip_mapped am m" and "off + n \<le> 16384"
  shows "\<exists>m'. mem_write (XIP_SRAM_BASE am + of_nat off) (replicate n 0) m = Some m' \<and>
      xip_mapped am m' \<and> (\<forall>x. m' x \<noteq> m x \<longrightarrow> xip_byte am x)"
proof -
  let ?a = "XIP_SRAM_BASE am + of_nat off :: u32"
  have at: "?a + of_nat k = XIP_SRAM_BASE am + of_nat (off + k)" for k by (simp add: add.assoc)
  have "m (?a + of_nat k) \<noteq> None" if "k < n" for k
    unfolding at by (rule assms(2) [unfolded xip_mapped_def, rule_format]) (use assms(3) that in simp)
  then obtain m' where m': "mem_write ?a (replicate n 0) m = Some m'"
    using mem_write_total [of "replicate n 0" m ?a] by auto
  have "xip_mapped am m'" using assms(2) mem_write_dom [OF m'] by (simp add: xip_mapped_def)
  moreover have "xip_byte am x" if "m' x \<noteq> m x" for x
  proof -
    have "\<exists>k < n. x = XIP_SRAM_BASE am + of_nat (off + k)"
      using mem_write_outside [OF m', of x] that unfolding at by auto
    then obtain k where k: "k < n" "x = XIP_SRAM_BASE am + of_nat (off + k)" by blast
    then have x: "unat x = unat (XIP_SRAM_BASE am) + (off + k)"
      using assms(1,3) unat_add_small [of "XIP_SRAM_BASE am" "off + k"] by (simp add: addressmap_ok_def)
    have "unat (XIP_SRAM_BASE am) < unat (XIP_SRAM_END am)"
        "unat (XIP_SRAM_END am) - unat (XIP_SRAM_BASE am) = 16384"
      using assms(1) by (simp_all add: addressmap_ok_def)
    then have "unat (XIP_SRAM_END am) = unat (XIP_SRAM_BASE am) + 16384" by linarith
    then show ?thesis using x assms(3) k(1)
      by (simp add: xip_byte_def word_le_nat_alt word_less_nat_alt)
  qed
  ultimately show ?thesis using m' by blast
qed

lemma clear_bitset_total:
  assumes "addressmap_ok am" and "disk_ready am s"
    and "p = RamBlocks \<and> count = 1280 \<or> p = BitsAt (XIP_SRAM_BASE am + of_nat off) \<and> off + unat count div 8 \<le> 16384"
  shows "\<exists>t. clear_bitset p count s = Some t \<and> disk_ready am t \<and> bits_frame am s t \<and> uf2 t = uf2 s"
  using assms(3)
proof
  assume "p = RamBlocks \<and> count = 1280"
  then show ?thesis
    using assms(2) by (simp add: clear_bitset_def store_list_def disk_ready_def bits_frame_def)
next
  assume p: "p = BitsAt (XIP_SRAM_BASE am + of_nat off) \<and> off + unat count div 8 \<le> 16384"
  then obtain m' where "mem_write (XIP_SRAM_BASE am + of_nat off) (replicate (unat count div 8) 0) (mem s) = Some m'"
    "xip_mapped am m'" "\<forall>x. m' x \<noteq> mem s x \<longrightarrow> xip_byte am x"
    using clear_xip [OF assms(1), of "mem s" off "unat count div 8"] assms(2) by (auto simp: disk_ready_def)
  then show ?thesis
    using p assms(2) by (simp add: clear_bitset_def disk_ready_def bits_frame_def)
qed

lemma bits_frame_trans: "bits_frame am s t \<Longrightarrow> bits_frame am t u \<Longrightarrow> bits_frame am s u"
  unfolding bits_frame_def by metis

lemma bits_frame_uf2: "bits_frame am s t \<Longrightarrow> bits_frame am s (t\<lparr>uf2 := i\<rparr>)" "bits_frame am s s"
  by (simp_all add: bits_frame_def)

lemma new_uf2_transfer_total:
  assumes "addressmap_ok am" and "disk_ready am s" and "ram \<or> flash"
  shows "\<exists>fits t. new_uf2_transfer am b ram flash s = Some (fits, t) \<and> bits_frame am s t \<and>
      (if fits then num_blocks (uf2 t) = uf2_num_blocks b \<and> uf2_ram (uf2 t) = ram else num_blocks (uf2 t) = 0) \<and>
      (fits \<longleftrightarrow> unat (uf2_num_blocks b) \<le> (if ram then 1280 else 123360))"
proof -
  let ?p = "if ram then RamBlocks else BitsAt (XIP_SRAM_BASE am)"
  let ?max = "of_nat (if ram then MAX_RAM_UF2_BLOCKS else FLASH_MAX_VALID_BLOCKS am) :: u32"
  note sizes = bitmap_sizes [OF assms(1)]
  obtain s1 where s1: "clear_bitset ?p ?max s = Some s1" "disk_ready am s1" "bits_frame am s s1" "uf2 s1 = uf2 s"
    using clear_bitset_total [OF assms(1,2), of ?p ?max 0] by (cases ram) (auto simp: sizes MAX_RAM_UF2_BLOCKS_def)
  let ?c = "BitsAt (FLASH_CLEARED_PAGES_BASE am)"
  have "\<exists>s2. (if flash then clear_bitset ?c 7710 s1 else Some s1) = Some s2 \<and> bits_frame am s1 s2"
    using clear_bitset_total [OF assms(1) s1(2), of ?c 7710 15420] bits_frame_uf2(2)
    by (auto simp: FLASH_CLEARED_PAGES_BASE_def FLASH_VALID_BLOCKS_BASE_def sizes)
  then obtain s2 where s2: "(if flash then clear_bitset ?c 7710 s1 else Some s1) = Some s2" "bits_frame am s s2"
    using bits_frame_trans [OF s1(3)] by blast
  have max: "unat ?max = (if ram then 1280 else 123360)" by (simp add: sizes MAX_RAM_UF2_BLOCKS_def)
  show ?thesis
    using s1(1) s2 max
    by (cases ram; cases flash)
      (auto simp: new_uf2_transfer_def Let_def FLASH_VALID_BLOCKS_BASE_def sizes bits_frame_uf2 word_le_nat_alt
        word_less_nat_alt zero_uf2_info_def not_less)
qed


text \<open>What makes a block one of the current or of a new transfer.\<close>

definition uf2_header_ok :: "uf2_consts \<Rightarrow> uf2_block \<Rightarrow> bool" where
  "uf2_header_ok u b \<longleftrightarrow>
     magic_start0 b = UF2_MAGIC_START0 u \<and> magic_start1 b = UF2_MAGIC_START1 u \<and>
     magic_end b = UF2_MAGIC_END u \<and>
     uf2_flags b AND UF2_FLAG_FAMILY_ID_PRESENT u \<noteq> 0 \<and> file_size b = RP2040_FAMILY_ID u \<and>
     uf2_flags b AND UF2_FLAG_NOT_MAIN_FLASH u = 0 \<and> payload_size b = 256"

definition page_in_ram :: "addressmap \<Rightarrow> uf2_block \<Rightarrow> bool" where
  "page_in_ram am b \<longleftrightarrow> is_address_ram am (target_addr b) \<and> is_address_ram am (target_addr b + 255)"

definition page_in_flash :: "addressmap \<Rightarrow> uf2_block \<Rightarrow> bool" where
  "page_in_flash am b \<longleftrightarrow> is_address_flash am (target_addr b) \<and> is_address_flash am (target_addr b + 255)"

text \<open>The cache RAM is in both ranges.\<close>

definition uf2_accepts :: "addressmap \<Rightarrow> uf2_consts \<Rightarrow> uf2_block \<Rightarrow> 'a disk_state_scheme \<Rightarrow> bool" where
  "uf2_accepts am u b s \<longleftrightarrow>
     uf2_header_ok u b \<and> (page_in_ram am b \<or> page_in_flash am b) \<and>
     (page_in_flash am b \<longrightarrow> target_addr b AND 255 = 0) \<and> \<not> q_disable (virtual_disk_queue s) \<and>
     uf2_block_no b < uf2_num_blocks b \<and>
     (if num_blocks (uf2 s) = uf2_num_blocks b then uf2_ram (uf2 s) = page_in_ram am b
      else unat (uf2_num_blocks b) \<le> (if page_in_ram am b then 1280 else 123360))"

lemma update_current_uf2_info_result:
  assumes "addressmap_ok am" and "disk_ready am s" and "uf2_header_ok u b"
  shows "\<exists>ok t. update_current_uf2_info am u b token s = Some (ok, t) \<and> bits_frame am s t \<and>
      (ok \<longleftrightarrow> uf2_accepts am u b s)"
proof -
  let ?ram = "is_address_ram am (target_addr b) \<and> is_address_ram am (target_addr b + 255)"
  let ?flash = "is_address_flash am (target_addr b) \<and> is_address_flash am (target_addr b + 255)"
  note mask = FLASH_PAGE_MASK_def FLASH_PAGE_SIZE_def
  note acc = uf2_accepts_def page_in_ram_def page_in_flash_def
  show ?thesis
  proof (cases "uf2_num_blocks b \<noteq> 0 \<and> (?ram \<or> ?flash) \<and> (?flash \<longrightarrow> target_addr b AND 255 = 0) \<and> \<not> q_disable (virtual_disk_queue s)")
    case False
    then show ?thesis
      by (auto simp: update_current_uf2_info_def acc mask Let_def bits_frame_uf2)
  next
    case True
    then obtain fits t where t: "new_uf2_transfer am b ?ram ?flash s = Some (fits, t)" "bits_frame am s t"
        "if fits then num_blocks (uf2 t) = uf2_num_blocks b \<and> uf2_ram (uf2 t) = ?ram else num_blocks (uf2 t) = 0"
        "fits \<longleftrightarrow> unat (uf2_num_blocks b) \<le> (if ?ram then 1280 else 123360)"
      using new_uf2_transfer_total [OF assms(1,2), of ?ram ?flash b] by blast
    show ?thesis
    proof (cases "num_blocks (uf2 s) = uf2_num_blocks b")
      case same: True
      then show ?thesis
        using True assms(3)
        by (auto simp: update_current_uf2_info_def acc mask Let_def bits_frame_uf2)
    next
      case new: False
      then show ?thesis
        using True t assms(3)
        by (cases fits) (auto simp: update_current_uf2_info_def acc mask Let_def bits_frame_uf2)
    qed
  qed
qed

subsection \<open>Properties\<close>


text \<open>The disk of a chip with empty memories, and a block for the first page of its flash.\<close>

definition cold_watchdog :: watchdog where
  "cold_watchdog = \<lparr>wd_scratch = (\<lambda>_. 0), wd_load = 0, wd_tick = 0, wd_enabled = False\<rparr>"

definition empty_queue :: async_task_queue where
  "empty_queue = \<lparr>q_task = reset_task, q_full = False, q_disable = False\<rparr>"

definition cold_disk :: disk_state where
  "cold_disk =
     \<lparr> rebooting = False, watchdog_hw = cold_watchdog, usb_activity_gpio_pin_mask = 0x2000000,
       virtual_disk_queue = empty_queue, picoboot_queue = empty_queue, flash_funcs = None,
       last_mutation_source = 0, ejected = False, mem = (\<lambda>_. Some 0), sector_buf = replicate 512 0,
       picoboot_buf = replicate 256 0, flash_calls = [],
       uf2 = zero_uf2_info, uf2_valid_ram_blocks = replicate 160 0,
       boot_device = \<lparr>serial_number32 = 0, serial_number_valid = False\<rparr> \<rparr>"

definition flash_page_block :: bytes where
  "flash_page_block =
     le32 0x0A324655 @ le32 0x9E5D5157 @ le32 0x2000 @ le32 0x10000000 @ le32 256 @ le32 0 @ le32 2 @
     le32 0xe48bff56 @ replicate 476 0 @ le32 0x0AB16F30"

lemma cold_disk_ready: "disk_ready rp2040 cold_disk"
  by (simp add: disk_ready_def xip_mapped_def cold_disk_def)


end
