(* ===== verification/Usb_Types.thy ===== *)
theory Usb_Types
  imports Uf2_Write
begin

text \<open>
  The data of the USB device library (\<open>usb_device_tiny/usb_device.h\<close>, \<open>usb_device_private.h\<close>,
  \<open>usb_common.h\<close>) and of the controller it drives.

  The objects of the program are named: the six endpoints, the eight transfers, the two interfaces and
  the functions whose addresses are stored.  The state maps the names to the values of the objects, so that a
  pointer is a name and two pointers to one object see the same value.  A register of the controller is a
  record of its documented fields.
\<close>

subsection \<open>Names of objects and functions\<close>

datatype epid = Control_in | Control_out | Msc_in | Msc_out | Picoboot_in | Picoboot_out

datatype trid =
  Control_in_transfer | Control_out_transfer | Msc_cmd_transfer | Msc_cmd_response_transfer
| Msc_sector_transfer | Picoboot_cmd_transfer | Picoboot_stream_transfer | Ack_transfer

datatype ifid = Msd_interface | Picoboot_interface

text \<open>The transfer types: \<open>on_packet\<close> and the initial number of packets.\<close>

datatype transfer_type = Current_packet_only | Msc_cmd_type | Usb_stream_type | Picoboot_cmd_type

datatype completed_func =
  Tf_send_control_in_ack | Tf_send_control_out_ack | Tf_set_address | Tf_wait_command
| Tf_data_phase_complete | Tf_ack | Tf_picoboot_wait_command

datatype stall_func = Msc_in_on_stall_change

datatype configure_func = Usb_boot_on_configure

datatype setup_func = Msc_setup_request_handler | Picoboot_setup_request_handler

datatype stream_funcs = Msc_sector_funcs | Picoboot_stream_funcs

primrec initial_packet_count :: "transfer_type \<Rightarrow> u32" where
  "initial_packet_count Current_packet_only = 1"
| "initial_packet_count Msc_cmd_type = 1"
| "initial_packet_count Usb_stream_type = 0"
| "initial_packet_count Picoboot_cmd_type = 1"

subsection \<open>The halt state\<close>

datatype usb_halt_state = HS_NONE | HS_NON_HALT_STALL | HS_HALTED | HS_HALTED_ON_CONDITION

text \<open>The values of the enumeration are compared.\<close>

primrec hs_value :: "usb_halt_state \<Rightarrow> nat" where
  "hs_value HS_NONE = 0"
| "hs_value HS_NON_HALT_STALL = 1"
| "hs_value HS_HALTED = 2"
| "hs_value HS_HALTED_ON_CONDITION = 3"

lemma hs_value_inject: "hs_value a = hs_value b \<Longrightarrow> a = b"
  by (cases a; cases b) simp_all

instantiation usb_halt_state :: linorder
begin

definition less_eq_usb_halt_state :: "usb_halt_state \<Rightarrow> usb_halt_state \<Rightarrow> bool" where
  "less_eq_usb_halt_state a b \<longleftrightarrow> hs_value a \<le> hs_value b"

definition less_usb_halt_state :: "usb_halt_state \<Rightarrow> usb_halt_state \<Rightarrow> bool" where
  "less_usb_halt_state a b \<longleftrightarrow> hs_value a < hs_value b"

instance
  by standard (auto simp: less_eq_usb_halt_state_def less_usb_halt_state_def hs_value_inject)

end

lemmas halt_order = less_eq_usb_halt_state_def less_usb_halt_state_def

lemma HS_NONE_least [simp]: "HS_NONE \<le> h" "\<not> h < HS_NONE"
  by (simp_all add: halt_order)

subsection \<open>Transfers, endpoints and interfaces\<close>

record usb_transfer =
  tr_type :: "transfer_type option"
  tr_on_complete :: "completed_func option"
  packets_to_submit :: u32
  packets_to_handle :: u32
  outstanding_packet :: bool
  packet_queued :: bool
  started :: bool
  completed :: bool

text \<open>The address of a buffer is its offset in the memory of the controller.\<close>

record usb_buffer =
  buf_data :: nat
  buf_data_len :: u8
  buf_data_max :: u8
  buf_valid :: bool

text \<open>A pointer to a descriptor is the list of the bytes from there on.\<close>

record usb_endpoint =
  ep_descriptor :: "bytes option"
  default_transfer :: "trid option"
  current_transfer :: "trid option"
  chain_transfer :: "trid option"
  on_stall_change :: "stall_func option"
  dpram_buffer_offset :: u16
  buffer_size :: u16
  current_hw_buffer :: usb_buffer
  ep_num :: u8
  next_pid :: u8
  buffer_bit_index :: u8
  owned_buffer_count :: u8
  current_give_buffer :: u8
  current_take_buffer :: u8
  halt_state :: usb_halt_state
  first_buffer_after_reset :: bool
  double_buffered :: bool
  ep_in :: bool

record usb_interface =
  if_descriptor :: "bytes option"
  setup_request_handler :: "setup_func option"

record usb_device =
  dev_descriptor :: bytes
  config_descriptor :: bytes
  config_interfaces :: "ifid list"
  on_configure :: "configure_func option"
  get_descriptor_string :: "u32 \<Rightarrow> bytes"
  current_address :: u8
  current_config_num :: u8
  pending_address :: u8
  next_buffer_offset :: u16

record usb_setup_packet =
  bmRequestType :: u8
  bRequest :: u8
  wValue :: u16
  wIndex :: u16
  wLength :: u16

subsection \<open>The controller\<close>

text \<open>
  One half of a buffer control register.  \<open>bc_avail\<close>: the controller owns the buffer; \<open>bc_full\<close>: it
  holds data; \<open>bc_data1\<close>: the data toggle of the packet.
\<close>

record buf_ctrl =
  bc_avail :: bool
  bc_full :: bool
  bc_data1 :: bool
  bc_sel :: bool
  bc_stall :: bool
  bc_len :: "10 word"

definition zero_buf_ctrl :: buf_ctrl where
  "zero_buf_ctrl =
     \<lparr>bc_avail = False, bc_full = False, bc_data1 = False, bc_sel = False, bc_stall = False, bc_len = 0\<rparr>"

text \<open>An enabled endpoint control register: double buffering and the offset of the buffer.\<close>

record ep_ctrl =
  ec_double :: bool
  ec_offset :: u16

record usb_hw =
  dev_addr_ctrl :: u32
  stall_arm_in :: bool
  stall_arm_out :: bool
  hw_abort :: u32
  hw_abort_done :: u32
  buf_status :: u32
  buf_cpu_should_handle :: u32
  sie_setup_rec :: bool
  sie_bus_reset :: bool
  sie_data_seq_error :: bool
  ints_setup_req :: bool
  ints_buff_status :: bool
  ints_bus_reset :: bool
  ints_error :: bool
  controller_en :: bool
  pullup_en :: bool
  inte :: bool

definition zero_usb_hw :: usb_hw where
  "zero_usb_hw =
     \<lparr> dev_addr_ctrl = 0, stall_arm_in = False, stall_arm_out = False, hw_abort = 0, hw_abort_done = 0,
       buf_status = 0, buf_cpu_should_handle = 0, sie_setup_rec = False, sie_bus_reset = False,
       sie_data_seq_error = False, ints_setup_req = False, ints_buff_status = False,
       ints_bus_reset = False, ints_error = False, controller_en = False, pullup_en = False,
       inte = False \<rparr>"

subsection \<open>The state\<close>

text \<open>
  \<open>buf_ctrls\<close> is indexed by number and direction; its components are buffer 0 and buffer 1.  \<open>dpram\<close>
  is the buffer memory of the controller.
\<close>

record usb_state = disk_state +
  endpoints :: "epid \<Rightarrow> usb_endpoint"
  transfers :: "trid \<Rightarrow> usb_transfer"
  interfaces :: "ifid \<Rightarrow> usb_interface"
  endpoint_array :: "epid option list"
  device :: usb_device
  hw :: usb_hw
  buf_ctrls :: "u8 \<times> bool \<Rightarrow> buf_ctrl \<times> buf_ctrl"
  ep_ctrls :: "u8 \<times> bool \<Rightarrow> ep_ctrl option"
  dpram :: bytes
  setup_packet :: usb_setup_packet

text \<open>
  A call through a function pointer.  The library takes as an argument the function that performs such
  calls; \<open>Usb_Dispatch\<close> supplies the functions of the program.  The result is that of the function, where it
  has one.
\<close>

datatype callback =
  On_packet transfer_type epid
| On_complete completed_func epid trid
| On_stall_change stall_func epid
| On_configure configure_func bool
| On_setup setup_func usb_setup_packet
| On_packet_complete stream_funcs
| On_chunk stream_funcs u32

type_synonym 's caller = "callback \<Rightarrow> 's \<Rightarrow> (bool \<times> 's) option"

definition call_void :: "'s caller \<Rightarrow> callback \<Rightarrow> 's \<Rightarrow> 's option" where
  "call_void cb c s = map_option snd (cb c s)"

definition upd_ep :: "epid \<Rightarrow> (usb_endpoint \<Rightarrow> usb_endpoint) \<Rightarrow> 'a usb_state_scheme \<Rightarrow> 'a usb_state_scheme" where
  "upd_ep e f s = s\<lparr>endpoints := (endpoints s)(e := f (endpoints s e))\<rparr>"

definition upd_tr :: "trid \<Rightarrow> (usb_transfer \<Rightarrow> usb_transfer) \<Rightarrow> 'a usb_state_scheme \<Rightarrow> 'a usb_state_scheme" where
  "upd_tr t f s = s\<lparr>transfers := (transfers s)(t := f (transfers s t))\<rparr>"

definition dpram_store :: "nat \<Rightarrow> bytes \<Rightarrow> 'a usb_state_scheme \<Rightarrow> 'a usb_state_scheme option" where
  "dpram_store off bs s = map_option (\<lambda>d. s\<lparr>dpram := d\<rparr>) (store_list off bs (dpram s))"

definition dpram_load :: "nat \<Rightarrow> nat \<Rightarrow> 'a usb_state_scheme \<Rightarrow> bytes option" where
  "dpram_load off n s = (if off + n \<le> length (dpram s) then Some (take n (drop off (dpram s))) else None)"

end
