(* ===== verification/Usb_Device.thy ===== *)
theory Usb_Device
  imports Usb_Types
begin

text \<open>
  \<open>usb_device_tiny/usb_device.c\<close>, function by function.  The argument \<open>cb\<close> performs the calls through
  function pointers.  A result \<^term>\<open>None\<close> is the use of a null pointer, an access outside of the
  controller's memory, or a call that does not return.
\<close>

subsection \<open>Endpoints and their buffers\<close>

definition usb_endpoint_number :: "usb_endpoint \<Rightarrow> u8" where
  "usb_endpoint_number ep = (case ep_descriptor ep of Some d \<Rightarrow> d ! 2 AND 0xf | None \<Rightarrow> 0)"

definition usb_is_endpoint_stalled :: "usb_endpoint \<Rightarrow> bool" where
  "usb_is_endpoint_stalled ep \<longleftrightarrow> halt_state ep \<noteq> HS_NONE"

definition ep_buffer_count :: "usb_endpoint \<Rightarrow> u8" where
  "ep_buffer_count ep = (if double_buffered ep then 2 else 1)"

definition usb_endpoint_stride :: u32 where "usb_endpoint_stride = 64"

definition buf_ctrl_wide :: "usb_endpoint \<Rightarrow> 'a usb_state_scheme \<Rightarrow> buf_ctrl \<times> buf_ctrl" where
  "buf_ctrl_wide ep s = buf_ctrls s (ep_num ep, ep_in ep)"

definition set_buf_ctrl_wide ::
    "usb_endpoint \<Rightarrow> buf_ctrl \<times> buf_ctrl \<Rightarrow> 'a usb_state_scheme \<Rightarrow> 'a usb_state_scheme" where
  "set_buf_ctrl_wide ep v s = s\<lparr>buf_ctrls := (buf_ctrls s)((ep_num ep, ep_in ep) := v)\<rparr>"

definition buf_ctrl_narrow :: "usb_endpoint \<Rightarrow> u8 \<Rightarrow> 'a usb_state_scheme \<Rightarrow> buf_ctrl" where
  "buf_ctrl_narrow ep which s = (if which = 0 then fst (buf_ctrl_wide ep s) else snd (buf_ctrl_wide ep s))"

definition set_buf_ctrl_narrow ::
    "usb_endpoint \<Rightarrow> u8 \<Rightarrow> buf_ctrl \<Rightarrow> 'a usb_state_scheme \<Rightarrow> 'a usb_state_scheme" where
  "set_buf_ctrl_narrow ep which v s =
     (let w = buf_ctrl_wide ep s in
      set_buf_ctrl_wide ep (if which = 0 then (v, snd w) else (fst w, v)) s)"

text \<open>The wait for the controller to finish the abort only reads a register.\<close>

definition usb_reset_buffers :: "epid \<Rightarrow> 'a usb_state_scheme \<Rightarrow> 'a usb_state_scheme" where
  "usb_reset_buffers e s =
     (let ep = endpoints s e;
          mask = push_bit (unat (buffer_bit_index ep)) 1;
          w = buf_ctrl_wide ep s;
          s = (if bc_avail (fst w) \<or> bc_avail (snd w) then
                 let s = (if \<not> double_buffered ep \<or> owned_buffer_count ep = 1
                          then upd_ep e (next_pid_update (\<lambda>p. p XOR 1)) s else s)
                 in s\<lparr>hw := (hw s)\<lparr>hw_abort := hw_abort (hw s) OR mask\<rparr>\<rparr>
               else s);
          s = set_buf_ctrl_wide ep (zero_buf_ctrl, zero_buf_ctrl) s;
          s = s\<lparr>hw := (hw s)\<lparr>hw_abort := hw_abort (hw s) AND NOT mask,
                             hw_abort_done := hw_abort_done (hw s) AND NOT mask\<rparr>\<rparr>
      in upd_ep e (\<lambda>ep. ep\<lparr>owned_buffer_count := ep_buffer_count ep, current_take_buffer := 0,
                            current_give_buffer := 0, first_buffer_after_reset := True\<rparr>) s)"

definition usb_stall_endpoint ::
    "'a usb_state_scheme caller \<Rightarrow> epid \<Rightarrow> usb_halt_state \<Rightarrow> 'a usb_state_scheme \<Rightarrow> 'a usb_state_scheme option" where
  "usb_stall_endpoint cb e hs s =
     (let ep = endpoints s e in
      if halt_state ep = HS_NONE then
        let s = (if ep_num ep = 0
                 then s\<lparr>hw := (if ep_in ep then (hw s)\<lparr>stall_arm_in := True\<rparr>
                               else (hw s)\<lparr>stall_arm_out := True\<rparr>)\<rparr>
                 else s);
            w = buf_ctrl_wide ep s;
            s = set_buf_ctrl_wide ep ((fst w)\<lparr>bc_stall := True\<rparr>, snd w) s;
            s = upd_ep e (halt_state_update (\<lambda>_. hs)) s
        in case on_stall_change ep of Some f \<Rightarrow> call_void cb (On_stall_change f e) s | None \<Rightarrow> Some s
      else Some (if halt_state ep < hs then upd_ep e (halt_state_update (\<lambda>_. hs)) s else s))"

definition usb_halt_endpoint ::
    "'a usb_state_scheme caller \<Rightarrow> epid \<Rightarrow> 'a usb_state_scheme \<Rightarrow> 'a usb_state_scheme option" where
  "usb_halt_endpoint cb e = usb_stall_endpoint cb e HS_HALTED"

definition usb_halt_endpoint_on_condition ::
    "'a usb_state_scheme caller \<Rightarrow> epid \<Rightarrow> 'a usb_state_scheme \<Rightarrow> 'a usb_state_scheme option" where
  "usb_halt_endpoint_on_condition cb e = usb_stall_endpoint cb e HS_HALTED_ON_CONDITION"

definition usb_clear_halt_condition :: "epid \<Rightarrow> 'a usb_state_scheme \<Rightarrow> 'a usb_state_scheme" where
  "usb_clear_halt_condition e s =
     (if halt_state (endpoints s e) = HS_HALTED_ON_CONDITION
      then upd_ep e (halt_state_update (\<lambda>_. HS_HALTED)) s else s)"

text \<open>
  The buffer that the program may fill or read; it is \<open>current_hw_buffer\<close> of the result.  The lengths are
  stored in bytes.
\<close>

definition usb_current_packet_buffer :: "epid \<Rightarrow> 'a usb_state_scheme \<Rightarrow> 'a usb_state_scheme" where
  "usb_current_packet_buffer e s =
     (let ep = endpoints s e in
      if buf_valid (current_hw_buffer ep) then s
      else
        let which = (if ep_in ep then current_give_buffer ep else current_take_buffer ep);
            buf = \<lparr> buf_data = unat (dpram_buffer_offset ep) + (if which \<noteq> 0 then unat usb_endpoint_stride else 0),
                    buf_data_len = (if ep_in ep then 0 else ucast (bc_len (buf_ctrl_narrow ep which s))),
                    buf_data_max = ucast (buffer_size ep),
                    buf_valid = True \<rparr>
        in upd_ep e (current_hw_buffer_update (\<lambda>_. buf)) s)"

definition current_buffer :: "epid \<Rightarrow> 'a usb_state_scheme \<Rightarrow> usb_buffer" where
  "current_buffer e s = current_hw_buffer (endpoints s e)"

definition set_buffer_len :: "epid \<Rightarrow> u8 \<Rightarrow> 'a usb_state_scheme \<Rightarrow> 'a usb_state_scheme" where
  "set_buffer_len e n = upd_ep e (current_hw_buffer_update (buf_data_len_update (\<lambda>_. n)))"

definition invalidate_buffer :: "epid \<Rightarrow> 'a usb_state_scheme \<Rightarrow> 'a usb_state_scheme" where
  "invalidate_buffer e = upd_ep e (current_hw_buffer_update (buf_valid_update (\<lambda>_. False)))"

text \<open>The length field of the register has ten bits; buffers are at most 64 bytes.\<close>

definition usb_give_buffer :: "epid \<Rightarrow> u32 \<Rightarrow> 'a usb_state_scheme \<Rightarrow> 'a usb_state_scheme option" where
  "usb_give_buffer e len s = do {
     let s = upd_ep e (halt_state_update (\<lambda>_. HS_NONE)) s;
     let ep = endpoints s e;
     let val = \<lparr> bc_avail = True, bc_full = ep_in ep, bc_data1 = (next_pid ep \<noteq> 0),
                 bc_sel = first_buffer_after_reset ep, bc_stall = False, bc_len = ucast len \<rparr>;
     let s = set_buf_ctrl_narrow ep (current_give_buffer ep) val s;
     let s = upd_ep e (\<lambda>ep. ep\<lparr>first_buffer_after_reset := False, next_pid := next_pid ep XOR 1,
                               current_hw_buffer := (current_hw_buffer ep)\<lparr>buf_valid := False\<rparr>,
                               owned_buffer_count := owned_buffer_count ep - 1\<rparr>) s;
     t \<leftarrow> current_transfer ep;
     let s = upd_tr t (packets_to_submit_update (\<lambda>n. n - 1)) s;
     Some (if double_buffered ep then upd_ep e (current_give_buffer_update (\<lambda>b. b XOR 1)) s else s)
   }"

subsection \<open>Transfers\<close>

definition usb_call_on_packet ::
    "'a usb_state_scheme caller \<Rightarrow> epid \<Rightarrow> 'a usb_state_scheme \<Rightarrow> 'a usb_state_scheme option" where
  "usb_call_on_packet cb e s = do {
     t \<leftarrow> current_transfer (endpoints s e);
     let s = upd_tr t (outstanding_packet_update (\<lambda>_. True)) s;
     type \<leftarrow> tr_type (transfers s t);
     call_void cb (On_packet type e) s
   }"

definition may_give_buffer :: "epid \<Rightarrow> 'a usb_state_scheme \<Rightarrow> bool" where
  "may_give_buffer e s \<longleftrightarrow>
     (case current_transfer (endpoints s e) of None \<Rightarrow> False | Some t \<Rightarrow> packets_to_submit (transfers s t) \<noteq> 0) \<and>
     owned_buffer_count (endpoints s e) \<noteq> 0 \<and> halt_state (endpoints s e) = HS_NONE"

partial_function (option) give_as_many ::
    "'a usb_state_scheme caller \<Rightarrow> epid \<Rightarrow> 'a usb_state_scheme \<Rightarrow> 'a usb_state_scheme option" where [code]:
  "give_as_many cb e s =
     (if may_give_buffer e s then
        if ep_in (endpoints s e) then
          Option.bind (usb_call_on_packet cb e s)
            (\<lambda>s'. if owned_buffer_count (endpoints s' e) = owned_buffer_count (endpoints s e)
                  then Some s' else give_as_many cb e s')
        else
          Option.bind (usb_give_buffer e (ucast (buffer_size (endpoints s e))) s)
            (\<lambda>s'. give_as_many cb e s')
      else Some s)"

definition usb_start_transfer ::
    "'a usb_state_scheme caller \<Rightarrow> epid \<Rightarrow> trid \<Rightarrow> 'a usb_state_scheme \<Rightarrow> 'a usb_state_scheme option" where
  "usb_start_transfer cb e t s =
     (let s = upd_ep e (\<lambda>ep. ep\<lparr>current_transfer := Some t, chain_transfer := None\<rparr>) s;
          s = upd_tr t (started_update (\<lambda>_. True)) s
      in give_as_many cb e s)"

definition check_for_transfer_completion ::
    "'a usb_state_scheme caller \<Rightarrow> epid \<Rightarrow> 'a usb_state_scheme \<Rightarrow> 'a usb_state_scheme option" where
  "check_for_transfer_completion cb e s = do {
     t \<leftarrow> current_transfer (endpoints s e);
     let halted = (halt_state (endpoints s e) \<noteq> HS_NONE);
     let tr = transfers s t;
     if halted \<or> \<not> (packets_to_handle tr \<noteq> 0 \<or> outstanding_packet tr) then
       let s = upd_tr t (completed_update (\<lambda>_. True)) s;
           s = upd_ep e (current_transfer_update (\<lambda>_. None)) s
       in if halted
          then Some (upd_tr t (\<lambda>tr. tr\<lparr>packets_to_submit := 0, packets_to_handle := 0\<rparr>) s)
          else (case tr_on_complete tr of
                  Some f \<Rightarrow> call_void cb (On_complete f e t) s
                | None \<Rightarrow>
                    (case chain_transfer (endpoints s e) of
                       Some c \<Rightarrow> usb_start_transfer cb e c s
                     | None \<Rightarrow> Some s))
     else Some s
   }"

definition handle_endpoint :: "u8 \<Rightarrow> bool \<Rightarrow> 'a usb_state_scheme \<Rightarrow> epid option" where
  "handle_endpoint num is_in s =
     (if num \<noteq> 0 then if unat num < length (endpoint_array s) then endpoint_array s ! unat num else None
      else Some (if is_in then Control_in else Control_out))"

definition usb_handle_transfer ::
    "'a usb_state_scheme caller \<Rightarrow> u8 \<Rightarrow> bool \<Rightarrow> u8 \<Rightarrow> 'a usb_state_scheme \<Rightarrow> 'a usb_state_scheme option" where
  "usb_handle_transfer cb num is_in which s = do {
     e \<leftarrow> handle_endpoint num is_in s;
     let s = upd_ep e (owned_buffer_count_update (\<lambda>n. n + 1)) s;
     case current_transfer (endpoints s e) of
       None \<Rightarrow> usb_halt_endpoint cb e s
     | Some t \<Rightarrow>
         if outstanding_packet (transfers s t)
         then Some (upd_tr t (packet_queued_update (\<lambda>_. True)) s)
         else do {
           let s = upd_ep e (current_take_buffer_update (\<lambda>_. which)) s;
           s \<leftarrow> (if \<not> ep_in (endpoints s e) \<or> packets_to_submit (transfers s t) \<noteq> 0
                 then usb_call_on_packet cb e s else Some s);
           if completed (transfers s t) then Some s
           else check_for_transfer_completion cb e (upd_tr t (packets_to_handle_update (\<lambda>n. n - 1)) s)
         }
   }"

definition usb_packet_done ::
    "'a usb_state_scheme caller \<Rightarrow> epid \<Rightarrow> 'a usb_state_scheme \<Rightarrow> 'a usb_state_scheme option" where
  "usb_packet_done cb e s = do {
     t \<leftarrow> current_transfer (endpoints s e);
     let s = upd_tr t (outstanding_packet_update (\<lambda>_. False)) s;
     s \<leftarrow> check_for_transfer_completion cb e s;
     if completed (transfers s t) then Some s
     else do {
       s \<leftarrow> (if ep_in (endpoints s e) then usb_give_buffer e (ucast (buf_data_len (current_buffer e s))) s
             else Some s);
       let s = invalidate_buffer e s;
       if packet_queued (transfers s t) then
         let s = upd_tr t (packet_queued_update (\<lambda>_. False)) s;
             s = upd_ep e (owned_buffer_count_update (\<lambda>n. n - 1)) s;
             ep = endpoints s e
         in usb_handle_transfer cb (ep_num ep) (ep_in ep) (current_take_buffer ep XOR 1) s
       else give_as_many cb e s
     }
   }"

text \<open>The packet handler of \<open>usb_current_packet_only_transfer_type\<close>.\<close>

definition usb_transfer_current_packet_only ::
    "'a usb_state_scheme caller \<Rightarrow> epid \<Rightarrow> 'a usb_state_scheme \<Rightarrow> 'a usb_state_scheme option" where
  "usb_transfer_current_packet_only cb e s = usb_packet_done cb e s"

definition usb_set_default_transfer :: "epid \<Rightarrow> trid \<Rightarrow> 'a usb_state_scheme \<Rightarrow> 'a usb_state_scheme" where
  "usb_set_default_transfer e t = upd_ep e (default_transfer_update (\<lambda>_. Some t))"

definition usb_chain_transfer :: "epid \<Rightarrow> trid \<Rightarrow> 'a usb_state_scheme \<Rightarrow> 'a usb_state_scheme" where
  "usb_chain_transfer e t = upd_ep e (chain_transfer_update (\<lambda>_. Some t))"

definition usb_grow_transfer :: "trid \<Rightarrow> u32 \<Rightarrow> 'a usb_state_scheme \<Rightarrow> 'a usb_state_scheme" where
  "usb_grow_transfer t n =
     upd_tr t (\<lambda>tr. tr\<lparr>packets_to_submit := packets_to_submit tr + n, packets_to_handle := packets_to_handle tr + n\<rparr>)"

definition usb_reset_transfer ::
    "trid \<Rightarrow> transfer_type \<Rightarrow> completed_func option \<Rightarrow> 'a usb_state_scheme \<Rightarrow> 'a usb_state_scheme" where
  "usb_reset_transfer t type on_complete =
     upd_tr t (\<lambda>_. \<lparr> tr_type = Some type, tr_on_complete = on_complete,
                     packets_to_submit = initial_packet_count type, packets_to_handle = initial_packet_count type,
                     outstanding_packet = False, packet_queued = False, started = False, completed = False \<rparr>)"

definition usb_reset_and_start_transfer ::
    "'a usb_state_scheme caller \<Rightarrow> epid \<Rightarrow> trid \<Rightarrow> transfer_type \<Rightarrow> completed_func option \<Rightarrow>
     'a usb_state_scheme \<Rightarrow> 'a usb_state_scheme option" where
  "usb_reset_and_start_transfer cb e t type on_complete s =
     usb_start_transfer cb e t (usb_reset_transfer t type on_complete s)"

definition start_default_transfer ::
    "'a usb_state_scheme caller \<Rightarrow> epid \<Rightarrow> 'a usb_state_scheme \<Rightarrow> 'a usb_state_scheme option" where
  "start_default_transfer cb e s = do {
     t \<leftarrow> default_transfer (endpoints s e);
     type \<leftarrow> tr_type (transfers s t);
     usb_reset_and_start_transfer cb e t type None s
   }"

definition usb_start_default_transfer_if_not_already_running_or_halted ::
    "'a usb_state_scheme caller \<Rightarrow> epid \<Rightarrow> 'a usb_state_scheme \<Rightarrow> 'a usb_state_scheme option" where
  "usb_start_default_transfer_if_not_already_running_or_halted cb e s =
     (let ep = endpoints s e in
      if halt_state ep = HS_NONE \<and> current_transfer ep \<noteq> default_transfer ep
      then start_default_transfer cb e s else Some s)"

definition usb_reset_endpoint ::
    "'a usb_state_scheme caller \<Rightarrow> epid \<Rightarrow> bool \<Rightarrow> 'a usb_state_scheme \<Rightarrow> 'a usb_state_scheme option" where
  "usb_reset_endpoint cb e hard s = do {
     let s = upd_ep e (current_transfer_update (\<lambda>_. None)) s;
     let s = usb_reset_buffers e s;
     let s = (if hard then upd_ep e (next_pid_update (\<lambda>_. 0)) s else s);
     let s = invalidate_buffer e s;
     s \<leftarrow> (if halt_state (endpoints s e) \<noteq> HS_NONE then
             let s = upd_ep e (halt_state_update (\<lambda>_. HS_NONE)) s in
             case on_stall_change (endpoints s e) of
               Some f \<Rightarrow> call_void cb (On_stall_change f e) s | None \<Rightarrow> Some s
           else Some s);
     let ep = endpoints s e;
     if current_config_num (device s) \<noteq> 0 \<and> default_transfer ep \<noteq> None \<and> current_transfer ep = None
     then start_default_transfer cb e s else Some s
   }"

definition usb_soft_reset_endpoint ::
    "'a usb_state_scheme caller \<Rightarrow> epid \<Rightarrow> 'a usb_state_scheme \<Rightarrow> 'a usb_state_scheme option" where
  "usb_soft_reset_endpoint cb e = usb_reset_endpoint cb e False"

definition usb_hard_reset_endpoint ::
    "'a usb_state_scheme caller \<Rightarrow> epid \<Rightarrow> 'a usb_state_scheme \<Rightarrow> 'a usb_state_scheme option" where
  "usb_hard_reset_endpoint cb e = usb_reset_endpoint cb e True"

end
