(* ===== verification/Usb_Control.thy ===== *)
theory Usb_Control
  imports Usb_Device
begin

text \<open>
  \<open>usb_device_tiny/usb_device.c\<close>, continued: control transfers, setup packets, the interrupt handler and
  the initialisation.
\<close>

subsection \<open>The constants of \<open>usb_common.h\<close>\<close>

definition USB_REQ_TYPE_TYPE_MASK :: u8 where "USB_REQ_TYPE_TYPE_MASK = 0x60"
definition USB_REQ_TYPE_TYPE_CLASS :: u8 where "USB_REQ_TYPE_TYPE_CLASS = 0x20"
definition USB_REQ_TYPE_TYPE_VENDOR :: u8 where "USB_REQ_TYPE_TYPE_VENDOR = 0x40"
definition USB_REQ_TYPE_RECIPIENT_MASK :: u8 where "USB_REQ_TYPE_RECIPIENT_MASK = 0x1f"
definition USB_REQ_TYPE_RECIPIENT_DEVICE :: u8 where "USB_REQ_TYPE_RECIPIENT_DEVICE = 0x00"
definition USB_REQ_TYPE_RECIPIENT_INTERFACE :: u8 where "USB_REQ_TYPE_RECIPIENT_INTERFACE = 0x01"
definition USB_REQ_TYPE_RECIPIENT_ENDPOINT :: u8 where "USB_REQ_TYPE_RECIPIENT_ENDPOINT = 0x02"
definition USB_DIR_IN :: u8 where "USB_DIR_IN = 0x80"
definition USB_DT_DEVICE :: u16 where "USB_DT_DEVICE = 0x01"
definition USB_DT_CONFIG :: u16 where "USB_DT_CONFIG = 0x02"
definition USB_DT_STRING :: u16 where "USB_DT_STRING = 0x03"
definition USB_REQUEST_GET_STATUS :: u8 where "USB_REQUEST_GET_STATUS = 0x0"
definition USB_REQUEST_CLEAR_FEATURE :: u8 where "USB_REQUEST_CLEAR_FEATURE = 0x01"
definition USB_REQUEST_SET_FEATURE :: u8 where "USB_REQUEST_SET_FEATURE = 0x03"
definition USB_REQUEST_SET_ADDRESS :: u8 where "USB_REQUEST_SET_ADDRESS = 0x05"
definition USB_REQUEST_GET_DESCRIPTOR :: u8 where "USB_REQUEST_GET_DESCRIPTOR = 0x06"
definition USB_REQUEST_GET_CONFIGURATION :: u8 where "USB_REQUEST_GET_CONFIGURATION = 0x08"
definition USB_REQUEST_SET_CONFIGURATION :: u8 where "USB_REQUEST_SET_CONFIGURATION = 0x09"
definition USB_FEAT_ENDPOINT_HALT :: u16 where "USB_FEAT_ENDPOINT_HALT = 0x00"
definition USB_DESCRIPTOR_TYPE_ENDPOINT :: u8 where "USB_DESCRIPTOR_TYPE_ENDPOINT = 0x05"
definition USB_FIXED_INTERFACE_COUNT :: nat where "USB_FIXED_INTERFACE_COUNT = 2"
definition USB_MAX_ENDPOINTS :: nat where "USB_MAX_ENDPOINTS = 5"

lemmas usb_constants =
  USB_REQ_TYPE_TYPE_MASK_def USB_REQ_TYPE_TYPE_CLASS_def USB_REQ_TYPE_TYPE_VENDOR_def
  USB_REQ_TYPE_RECIPIENT_MASK_def USB_REQ_TYPE_RECIPIENT_DEVICE_def USB_REQ_TYPE_RECIPIENT_INTERFACE_def
  USB_REQ_TYPE_RECIPIENT_ENDPOINT_def USB_DIR_IN_def USB_DT_DEVICE_def USB_DT_CONFIG_def USB_DT_STRING_def
  USB_REQUEST_GET_STATUS_def USB_REQUEST_CLEAR_FEATURE_def USB_REQUEST_SET_FEATURE_def
  USB_REQUEST_SET_ADDRESS_def USB_REQUEST_GET_DESCRIPTOR_def USB_REQUEST_GET_CONFIGURATION_def
  USB_REQUEST_SET_CONFIGURATION_def USB_FEAT_ENDPOINT_HALT_def USB_DESCRIPTOR_TYPE_ENDPOINT_def
  USB_FIXED_INTERFACE_COUNT_def USB_MAX_ENDPOINTS_def

subsection \<open>Control transfers\<close>

definition usb_stall_control_pipe ::
    "'a usb_state_scheme caller \<Rightarrow> 'a usb_state_scheme \<Rightarrow> 'a usb_state_scheme option" where
  "usb_stall_control_pipe cb s = do {
     let s = usb_reset_buffers Control_in s;
     let s = usb_reset_buffers Control_out s;
     s \<leftarrow> usb_stall_endpoint cb Control_in HS_NON_HALT_STALL s;
     usb_stall_endpoint cb Control_out HS_NON_HALT_STALL s
   }"

definition usb_start_single_buffer_control_in_transfer ::
    "'a usb_state_scheme caller \<Rightarrow> 'a usb_state_scheme \<Rightarrow> 'a usb_state_scheme option" where
  "usb_start_single_buffer_control_in_transfer cb =
     usb_reset_and_start_transfer cb Control_in Control_in_transfer Current_packet_only
       (Some Tf_send_control_in_ack)"

definition usb_start_control_out_transfer ::
    "'a usb_state_scheme caller \<Rightarrow> transfer_type \<Rightarrow> 'a usb_state_scheme \<Rightarrow> 'a usb_state_scheme option" where
  "usb_start_control_out_transfer cb type =
     usb_reset_and_start_transfer cb Control_out Control_out_transfer type (Some Tf_send_control_out_ack)"

definition usb_start_empty_transfer ::
    "'a usb_state_scheme caller \<Rightarrow> epid \<Rightarrow> trid \<Rightarrow> completed_func option \<Rightarrow> 'a usb_state_scheme \<Rightarrow>
     'a usb_state_scheme option" where
  "usb_start_empty_transfer cb e t on_complete s =
     (let s = (if ep_in (endpoints s e) then set_buffer_len e 0 (usb_current_packet_buffer e s) else s)
      in usb_reset_and_start_transfer cb e t Current_packet_only on_complete s)"

definition usb_start_empty_control_in_transfer ::
    "'a usb_state_scheme caller \<Rightarrow> completed_func option \<Rightarrow> 'a usb_state_scheme \<Rightarrow> 'a usb_state_scheme option" where
  "usb_start_empty_control_in_transfer cb on_complete =
     usb_start_empty_transfer cb Control_in Control_in_transfer on_complete"

definition usb_start_tiny_control_in_transfer ::
    "'a usb_state_scheme caller \<Rightarrow> u32 \<Rightarrow> u8 \<Rightarrow> 'a usb_state_scheme \<Rightarrow> 'a usb_state_scheme option" where
  "usb_start_tiny_control_in_transfer cb data len s = do {
     let s = usb_current_packet_buffer Control_in s;
     s \<leftarrow> dpram_store (buf_data (current_buffer Control_in s)) (le32 data) s;
     usb_start_single_buffer_control_in_transfer cb (set_buffer_len Control_in len s)
   }"

definition tf_send_control_in_ack ::
    "'a usb_state_scheme caller \<Rightarrow> 'a usb_state_scheme \<Rightarrow> 'a usb_state_scheme option" where
  "tf_send_control_in_ack cb = usb_start_empty_transfer cb Control_out Control_out_transfer None"

definition tf_send_control_out_ack ::
    "'a usb_state_scheme caller \<Rightarrow> 'a usb_state_scheme \<Rightarrow> 'a usb_state_scheme option" where
  "tf_send_control_out_ack cb = usb_start_empty_transfer cb Control_in Control_in_transfer None"

subsection \<open>Address, configuration and bus reset\<close>

definition usb_handle_set_address :: "u8 \<Rightarrow> 'a usb_state_scheme \<Rightarrow> 'a usb_state_scheme" where
  "usb_handle_set_address addr s =
     s\<lparr>device := (device s)\<lparr>current_address := addr\<rparr>, hw := (hw s)\<lparr>dev_addr_ctrl := ucast addr\<rparr>\<rparr>"

definition tf_set_address :: "'a usb_state_scheme \<Rightarrow> 'a usb_state_scheme" where
  "tf_set_address s = usb_handle_set_address (pending_address (device s)) s"

text \<open>\<open>_usb_for_each_endpoint\<close> without the control endpoints: those of the array that are there.\<close>

definition for_each_endpoint ::
    "(epid \<Rightarrow> 'a usb_state_scheme \<Rightarrow> 'a usb_state_scheme option) \<Rightarrow> 'a usb_state_scheme \<Rightarrow> 'a usb_state_scheme option" where
  "for_each_endpoint f s = foldM f (List.map_filter id (drop 1 (endpoint_array s))) s"

definition usb_handle_set_config ::
    "'a usb_state_scheme caller \<Rightarrow> u8 \<Rightarrow> 'a usb_state_scheme \<Rightarrow> 'a usb_state_scheme option" where
  "usb_handle_set_config cb config_num s = do {
     let s = s\<lparr>device := (device s)\<lparr>current_config_num := config_num\<rparr>\<rparr>;
     s \<leftarrow> for_each_endpoint (usb_hard_reset_endpoint cb) s;
     f \<leftarrow> on_configure (device s);
     call_void cb (On_configure f (config_num \<noteq> 0)) s
   }"

definition usb_handle_bus_reset ::
    "'a usb_state_scheme caller \<Rightarrow> 'a usb_state_scheme \<Rightarrow> 'a usb_state_scheme option" where
  "usb_handle_bus_reset cb s = do {
     s \<leftarrow> usb_handle_set_config cb 0 s;
     let s = usb_handle_set_address 0 s;
     Some (s\<lparr>hw := (hw s)\<lparr>buf_status := 0, sie_setup_rec := False, sie_bus_reset := False,
                            sie_data_seq_error := False\<rparr>\<rparr>)
   }"

subsection \<open>Descriptors\<close>

text \<open>The bytes that \<open>_usb_prepare_string_descriptor\<close> stores; the string ends at its first zero.\<close>

definition string_descriptor :: "bytes \<Rightarrow> bytes" where
  "string_descriptor str =
     (let cs = takeWhile (\<lambda>c. c \<noteq> 0) str in
      [of_nat (2 + 2 * length cs), 3] @ concat (map (\<lambda>c. [c, 0]) cs))"

definition lang_descriptor :: bytes where
  "lang_descriptor = [4, 0x03, 0x09, 0x04]"

text \<open>The bytes stored in the buffer, and the length; no result for an unknown descriptor.\<close>

definition descriptor_bytes :: "usb_device \<Rightarrow> usb_setup_packet \<Rightarrow> (bytes \<times> nat) option" where
  "descriptor_bytes dev setup =
     (let kind = drop_bit 8 (wValue setup); index = ucast (wValue setup) :: u8 in
      if kind = USB_DT_DEVICE then Some (take 18 (dev_descriptor dev), 18)
      else if kind = USB_DT_CONFIG then
        (if index = 0 then
           let len = unat (of_le16 (drop 2 (config_descriptor dev)))
           in Some (take len (config_descriptor dev), len)
         else None)
      else if kind = USB_DT_STRING then
        (if index = 0 then Some (lang_descriptor, 4)
         else let d = string_descriptor (get_descriptor_string dev (ucast index)) in Some (d, length d))
      else None)"

text \<open>\<open>_usb_handle_get_descriptor\<close>; \<open>buf\<close> is the offset of the buffer.  The length is \<open>-1\<close> without a
  descriptor.\<close>

definition usb_handle_get_descriptor ::
    "nat \<Rightarrow> usb_setup_packet \<Rightarrow> 'a usb_state_scheme \<Rightarrow> (int \<times> 'a usb_state_scheme) option" where
  "usb_handle_get_descriptor buf setup s =
     (case descriptor_bytes (device s) setup of
        None \<Rightarrow> Some (-1, s)
      | Some (d, len) \<Rightarrow> map_option (Pair (int len)) (dpram_store buf d s))"

definition usb_find_configuration :: "u8 \<Rightarrow> 'a usb_state_scheme \<Rightarrow> bool" where
  "usb_find_configuration n s \<longleftrightarrow> config_descriptor (device s) ! 5 = n"

subsection \<open>Setup packets\<close>

definition device_in_request ::
    "usb_setup_packet \<Rightarrow> nat \<Rightarrow> 'a usb_state_scheme \<Rightarrow> (int \<times> 'a usb_state_scheme) option" where
  "device_in_request setup buf s =
     (if bRequest setup = USB_REQUEST_GET_STATUS then map_option (Pair 2) (dpram_store buf [0, 0] s)
      else if bRequest setup = USB_REQUEST_GET_DESCRIPTOR then usb_handle_get_descriptor buf setup s
      else if bRequest setup = USB_REQUEST_GET_CONFIGURATION
      then map_option (Pair 1) (dpram_store buf [current_config_num (device s)] s)
      else Some (-1, s))"

definition default_handle_device_setup_request ::
    "'a usb_state_scheme caller \<Rightarrow> usb_setup_packet \<Rightarrow> 'a usb_state_scheme \<Rightarrow> 'a usb_state_scheme option" where
  "default_handle_device_setup_request cb setup s =
     (if bmRequestType setup AND USB_REQ_TYPE_TYPE_MASK = 0 then
        if bmRequestType setup AND USB_DIR_IN \<noteq> 0 then do {
          let s = usb_current_packet_buffer Control_in s;
          (len, s) \<leftarrow> device_in_request setup (buf_data (current_buffer Control_in s)) s;
          if len \<ge> 0 then
            let s = set_buffer_len Control_in (of_int (min len (uint (wLength setup)))) s
            in usb_start_single_buffer_control_in_transfer cb s
          else usb_stall_control_pipe cb s
        }
        else if bRequest setup = USB_REQUEST_SET_ADDRESS \<and>
                (let addr = ucast (wValue setup) :: u8 in addr \<noteq> 0 \<and> addr \<le> 127)
        then usb_start_empty_control_in_transfer cb (Some Tf_set_address)
               (s\<lparr>device := (device s)\<lparr>pending_address := ucast (wValue setup)\<rparr>\<rparr>)
        else if bRequest setup = USB_REQUEST_SET_CONFIGURATION \<and>
                (let config_num = ucast (wValue setup) in config_num = 0 \<or> usb_find_configuration config_num s)
        then do {
          s \<leftarrow> usb_handle_set_config cb (ucast (wValue setup)) s;
          usb_start_empty_control_in_transfer cb None s
        }
        else usb_stall_control_pipe cb s
      else usb_stall_control_pipe cb s)"

definition default_handle_interface_setup_request ::
    "'a usb_state_scheme caller \<Rightarrow> usb_setup_packet \<Rightarrow> 'a usb_state_scheme \<Rightarrow> 'a usb_state_scheme option" where
  "default_handle_interface_setup_request cb setup s =
     (if bmRequestType setup AND USB_REQ_TYPE_TYPE_MASK = 0 \<and> drop_bit 8 (wIndex setup) = 0 \<and>
         bmRequestType setup AND USB_DIR_IN \<noteq> 0 \<and> bRequest setup = USB_REQUEST_GET_STATUS
      then usb_start_tiny_control_in_transfer cb 0 2 s
      else usb_stall_control_pipe cb s)"

definition default_handle_endpoint_setup_request ::
    "'a usb_state_scheme caller \<Rightarrow> usb_setup_packet \<Rightarrow> epid \<Rightarrow> 'a usb_state_scheme \<Rightarrow> 'a usb_state_scheme option" where
  "default_handle_endpoint_setup_request cb setup e s =
     (if bmRequestType setup AND USB_REQ_TYPE_TYPE_MASK = 0 then
        if bmRequestType setup AND USB_DIR_IN \<noteq> 0 then
          if bRequest setup = USB_REQUEST_GET_STATUS \<and> wValue setup = 0 \<and> wLength setup = 2
          then usb_start_tiny_control_in_transfer cb
                 (if halt_state (endpoints s e) > HS_NON_HALT_STALL then 1 else 0) 2 s
          else usb_stall_control_pipe cb s
        else if bRequest setup = USB_REQUEST_CLEAR_FEATURE \<and> wValue setup = USB_FEAT_ENDPOINT_HALT
        then do {
          s \<leftarrow> (if halt_state (endpoints s e) < HS_HALTED_ON_CONDITION then usb_hard_reset_endpoint cb e s
                else Some (upd_ep e (next_pid_update (\<lambda>_. 0)) s));
          usb_start_empty_control_in_transfer cb None s
        }
        else if bRequest setup = USB_REQUEST_SET_FEATURE \<and> wValue setup = USB_FEAT_ENDPOINT_HALT
        then do {
          s \<leftarrow> usb_stall_endpoint cb e HS_HALTED s;
          usb_start_empty_control_in_transfer cb None s
        }
        else usb_stall_control_pipe cb s
      else usb_stall_control_pipe cb s)"

text \<open>The outer option is a fault: an index behind the array, a null pointer.\<close>

definition usb_find_interface :: "nat \<Rightarrow> 'a usb_state_scheme \<Rightarrow> ifid option option" where
  "usb_find_interface num s =
     (if current_config_num (device s) \<noteq> 0 \<and> num < USB_FIXED_INTERFACE_COUNT then
        if num < length (config_interfaces (device s)) then Some (Some (config_interfaces (device s) ! num)) else None
      else Some None)"

fun find_in_endpoints :: "u16 \<Rightarrow> epid option list \<Rightarrow> 'a usb_state_scheme \<Rightarrow> epid option option" where
  "find_in_endpoints num [] s = Some None"
| "find_in_endpoints num (p # ps) s = do {
     e \<leftarrow> p;
     d \<leftarrow> ep_descriptor (endpoints s e);
     if ucast (d ! 2) = num then Some (Some e) else find_in_endpoints num ps s
   }"

definition usb_find_endpoint :: "u16 \<Rightarrow> 'a usb_state_scheme \<Rightarrow> epid option option" where
  "usb_find_endpoint num s =
     (if num = 0 then Some (Some Control_out)
      else if num = ucast USB_DIR_IN then Some (Some Control_in)
      else if current_config_num (device s) \<noteq> 0
      then find_in_endpoints num (drop 1 (endpoint_array s)) s
      else Some None)"

definition usb_handle_setup_packet ::
    "'a usb_state_scheme caller \<Rightarrow> usb_setup_packet \<Rightarrow> 'a usb_state_scheme \<Rightarrow> 'a usb_state_scheme option" where
  "usb_handle_setup_packet cb setup s = do {
     s \<leftarrow> usb_soft_reset_endpoint cb Control_in s;
     s \<leftarrow> usb_soft_reset_endpoint cb Control_out s;
     let s = upd_ep Control_in (next_pid_update (\<lambda>_. 1)) s;
     let s = upd_ep Control_out (next_pid_update (\<lambda>_. 1)) s;
     let recipient = bmRequestType setup AND USB_REQ_TYPE_RECIPIENT_MASK;
     if recipient = USB_REQ_TYPE_RECIPIENT_DEVICE then default_handle_device_setup_request cb setup s
     else if recipient = USB_REQ_TYPE_RECIPIENT_INTERFACE then do {
       found \<leftarrow> usb_find_interface (unat (wIndex setup AND 0xff)) s;
       case found of
         None \<Rightarrow> usb_stall_control_pipe cb s
       | Some i \<Rightarrow>
           (case setup_request_handler (interfaces s i) of
              None \<Rightarrow> default_handle_interface_setup_request cb setup s
            | Some f \<Rightarrow> do {
                (handled, s) \<leftarrow> cb (On_setup f setup) s;
                if handled then Some s else default_handle_interface_setup_request cb setup s
              })
     }
     else if recipient = USB_REQ_TYPE_RECIPIENT_ENDPOINT then do {
       found \<leftarrow> usb_find_endpoint (wIndex setup) s;
       case found of
         None \<Rightarrow> usb_stall_control_pipe cb s
       | Some e \<Rightarrow> default_handle_endpoint_setup_request cb setup e s
     }
     else usb_stall_control_pipe cb s
   }"

subsection \<open>The interrupt handler\<close>

definition hw_clear_buf_status :: "u32 \<Rightarrow> 'a usb_state_scheme \<Rightarrow> 'a usb_state_scheme" where
  "hw_clear_buf_status m s = s\<lparr>hw := (hw s)\<lparr>buf_status := buf_status (hw s) AND NOT m\<rparr>\<rparr>"

definition handle_buffer_bit ::
    "'a usb_state_scheme caller \<Rightarrow> nat \<Rightarrow> 'a usb_state_scheme \<Rightarrow> 'a usb_state_scheme option" where
  "handle_buffer_bit cb i s =
     (let which = (if bit (buf_cpu_should_handle (hw s)) i then 1 else 0);
          s = hw_clear_buf_status (push_bit i 1) s
      in usb_handle_transfer cb (of_nat (i div 2)) (even i) which s)"

text \<open>The bits that were set at the beginning, from the lowest; a bit that is clear is skipped.\<close>

definition usb_handle_buffer ::
    "'a usb_state_scheme caller \<Rightarrow> 'a usb_state_scheme \<Rightarrow> 'a usb_state_scheme option" where
  "usb_handle_buffer cb s = do {
     let buffers = buf_status (hw s);
     s \<leftarrow> foldM (\<lambda>i s. if bit buffers i then handle_buffer_bit cb i s else Some s) [0..<USB_MAX_ENDPOINTS * 2] s;
     let remaining = drop_bit (USB_MAX_ENDPOINTS * 2) buffers;
     Some (if remaining \<noteq> 0
           then hw_clear_buf_status (push_bit (USB_MAX_ENDPOINTS * 2) remaining) s else s)
   }"

definition isr_usbctrl ::
    "'a usb_state_scheme caller \<Rightarrow> 'a usb_state_scheme \<Rightarrow> 'a usb_state_scheme option" where
  "isr_usbctrl cb s = do {
     let status = hw s;
     s \<leftarrow> (if ints_setup_req status then
             map_option (\<lambda>s. s\<lparr>hw := (hw s)\<lparr>sie_setup_rec := False\<rparr>\<rparr>)
               (usb_handle_setup_packet cb (setup_packet s) s)
           else Some s);
     s \<leftarrow> (if ints_buff_status status then usb_handle_buffer cb s else Some s);
     s \<leftarrow> (if ints_bus_reset status then
             map_option (\<lambda>s. s\<lparr>hw := (hw s)\<lparr>sie_bus_reset := False\<rparr>\<rparr>) (usb_handle_bus_reset cb s)
           else Some s);
     if ints_error status then
       if sie_data_seq_error (hw s)
       then Some (s\<lparr>hw := (hw s)\<lparr>sie_data_seq_error := False\<rparr>\<rparr>)
       else usb_handle_bus_reset cb s
     else Some s
   }"

subsection \<open>Initialisation\<close>

definition usb_endpoint_init_internal ::
    "epid \<Rightarrow> u8 \<Rightarrow> bool \<Rightarrow> u16 \<Rightarrow> bool \<Rightarrow> 'a usb_state_scheme \<Rightarrow> 'a usb_state_scheme" where
  "usb_endpoint_init_internal e num is_in max_buffer_size double =
     upd_ep e (\<lambda>ep. ep\<lparr>ep_num := num, ep_in := is_in, buffer_size := max_buffer_size,
                       double_buffered := double,
                       buffer_bit_index := num * 2 + (if is_in then 0 else 1)\<rparr>)"

definition usb_endpoint_hw_init :: "epid \<Rightarrow> 'a usb_state_scheme \<Rightarrow> 'a usb_state_scheme" where
  "usb_endpoint_hw_init e s =
     (let num = usb_endpoint_number (endpoints s e);
          s = s\<lparr>buf_ctrls := (buf_ctrls s)((num, True) := (zero_buf_ctrl, zero_buf_ctrl),
                                           (num, False) := (zero_buf_ctrl, zero_buf_ctrl))\<rparr>;
          offset = next_buffer_offset (device s);
          s = upd_ep e (dpram_buffer_offset_update (\<lambda>_. offset)) s;
          stride = (if double_buffered (endpoints s e) then 2 * usb_endpoint_stride else usb_endpoint_stride);
          s = s\<lparr>device := (device s)\<lparr>next_buffer_offset := offset + ucast stride\<rparr>\<rparr>;
          reg = Some \<lparr>ec_double = double_buffered (endpoints s e), ec_offset = offset\<rparr>
      in if num \<noteq> 0
         then s\<lparr>ep_ctrls := (ep_ctrls s)((num, True) := (if ep_in (endpoints s e) then reg else None),
                                         (num, False) := (if ep_in (endpoints s e) then None else reg))\<rparr>
         else s)"

partial_function (option) usb_next_descriptor :: "bytes \<Rightarrow> u8 \<Rightarrow> bytes option" where [code]:
  "usb_next_descriptor d type =
     (let d' = drop (unat (d ! 0)) d in
      if d = [] \<or> length d' < 2 then None
      else if d' ! 1 = type then Some d' else usb_next_descriptor d' type)"

text \<open>The endpoints of an interface; \<open>p\<close> is the descriptor that was found last.\<close>

fun init_endpoints ::
    "bool \<Rightarrow> bytes \<Rightarrow> epid list \<Rightarrow> 'a usb_state_scheme \<Rightarrow> 'a usb_state_scheme option" where
  "init_endpoints double p [] s = Some s"
| "init_endpoints double p (e # es) s = do {
     p \<leftarrow> usb_next_descriptor p USB_DESCRIPTOR_TYPE_ENDPOINT;
     let num = p ! 2 AND 0xf;
     let s = usb_endpoint_init_internal e num (p ! 2 AND USB_DIR_IN \<noteq> 0) (of_le16 (drop 4 p)) double s;
     let s = upd_ep e (ep_descriptor_update (\<lambda>_. Some p)) s;
     if unat num < length (endpoint_array s)
     then init_endpoints double p es (s\<lparr>endpoint_array := (endpoint_array s)[unat num := Some e]\<rparr>)
     else None
   }"

definition usb_interface_init ::
    "ifid \<Rightarrow> bytes \<Rightarrow> epid list \<Rightarrow> bool \<Rightarrow> 'a usb_state_scheme \<Rightarrow> 'a usb_state_scheme option" where
  "usb_interface_init i desc eps double s =
     (let s = s\<lparr>interfaces := (interfaces s)(i := (interfaces s i)\<lparr>if_descriptor := Some desc\<rparr>)\<rparr>
      in init_endpoints double desc eps s)"

definition set_next_buffer_offset :: "u16 \<Rightarrow> 'a usb_state_scheme \<Rightarrow> 'a usb_state_scheme" where
  "set_next_buffer_offset off s = s\<lparr>device := (device s)\<lparr>next_buffer_offset := off\<rparr>\<rparr>"

definition usb_device_init ::
    "bytes \<Rightarrow> bytes \<Rightarrow> ifid list \<Rightarrow> (u32 \<Rightarrow> bytes) \<Rightarrow> 'a usb_state_scheme \<Rightarrow> 'a usb_state_scheme option" where
  "usb_device_init desc config_desc ifs get_string s =
     (let s = s\<lparr>device := (device s)\<lparr>dev_descriptor := desc, config_descriptor := config_desc,
                                      config_interfaces := ifs, get_descriptor_string := get_string\<rparr>\<rparr>;
          s = usb_endpoint_init_internal Control_in 0 True 64 False s;
          s = usb_endpoint_init_internal Control_out 0 False 64 False s;
          s = usb_endpoint_hw_init Control_in (set_next_buffer_offset 0x100 s);
          s = usb_endpoint_hw_init Control_out (set_next_buffer_offset 0x100 s)
      in for_each_endpoint (\<lambda>e s. Some (usb_endpoint_hw_init e s)) (set_next_buffer_offset 0x180 s))"

definition usb_device_start ::
    "'a usb_state_scheme caller \<Rightarrow> 'a usb_state_scheme \<Rightarrow> 'a usb_state_scheme option" where
  "usb_device_start cb s = do {
     let s = s\<lparr>hw := zero_usb_hw\<lparr>controller_en := True\<rparr>\<rparr>;
     s \<leftarrow> usb_handle_bus_reset cb s;
     Some (s\<lparr>hw := (hw s)\<lparr>pullup_en := True, inte := True\<rparr>\<rparr>)
   }"

end
