(* ===== verification/Usb_Stream.thy ===== *)
theory Usb_Stream
  imports Usb_Control
begin

text \<open>
  \<open>usb_device_tiny/usb_stream_helper.c\<close>: transfers that move a stream of bytes in chunks through a
  buffer of the program, one packet of 64 bytes at a time.

  The fields of a \<open>struct usb_stream_transfer\<close> but its core (\<open>transfers\<close>), for the transfers of the
  sectors and of PICOBOOT.
\<close>

record usb_stream =
  st_offset :: u32
  transfer_length :: u32
  chunk_size :: u32
  chunk_buffer :: data_ptr
  st_ep :: "epid option"
  st_funcs :: "stream_funcs option"

definition zero_stream :: usb_stream where
  "zero_stream =
     \<lparr>st_offset = 0, transfer_length = 0, chunk_size = 0, chunk_buffer = NullPtr, st_ep = None, st_funcs = None\<rparr>"

record stream_state = usb_state +
  streams :: "trid \<Rightarrow> usb_stream"
  gpio_out :: u32

definition upd_st :: "trid \<Rightarrow> (usb_stream \<Rightarrow> usb_stream) \<Rightarrow> 'a stream_state_scheme \<Rightarrow> 'a stream_state_scheme" where
  "upd_st t f s = s\<lparr>streams := (streams s)(t := f (streams s t))\<rparr>"

definition gpio_set_mask :: "u32 \<Rightarrow> 'a stream_state_scheme \<Rightarrow> 'a stream_state_scheme" where
  "gpio_set_mask m s = s\<lparr>gpio_out := gpio_out s OR m\<rparr>"

definition gpio_clr_mask :: "u32 \<Rightarrow> 'a stream_state_scheme \<Rightarrow> 'a stream_state_scheme" where
  "gpio_clr_mask m s = s\<lparr>gpio_out := gpio_out s AND NOT m\<rparr>"

definition usb_stream_chunk_offset :: "usb_stream \<Rightarrow> u32" where
  "usb_stream_chunk_offset st = st_offset st AND (chunk_size st - 1)"

text \<open>The chunk buffer from an offset on.\<close>

definition chunk_load :: "data_ptr \<Rightarrow> nat \<Rightarrow> nat \<Rightarrow> 'a async_state_scheme \<Rightarrow> bytes option" where
  "chunk_load p off n s = map_option (drop off) (load_data p (off + n) s)"

definition chunk_store :: "data_ptr \<Rightarrow> nat \<Rightarrow> bytes \<Rightarrow> 'a async_state_scheme \<Rightarrow> 'a async_state_scheme option" where
  "chunk_store p off bs s = do {
     old \<leftarrow> load_data p off s;
     store_data p (old @ bs) s
   }"

definition stream_in_length :: "usb_stream \<Rightarrow> u32" where
  "stream_in_length st =
     (if st_offset st + 64 > transfer_length st then transfer_length st - st_offset st else 64)"

definition usb_stream_packet_handler_complete ::
    "'a stream_state_scheme caller \<Rightarrow> trid \<Rightarrow> 'a stream_state_scheme \<Rightarrow> 'a stream_state_scheme option" where
  "usb_stream_packet_handler_complete cb t s = do {
     e \<leftarrow> st_ep (streams s t);
     let s = usb_current_packet_buffer e s;
     s \<leftarrow> (if ep_in (endpoints s e) then do {
             let st = streams s t;
             let data_len = stream_in_length st;
             let s = set_buffer_len e (ucast data_len) s;
             bs \<leftarrow> chunk_load (chunk_buffer st) (unat (usb_stream_chunk_offset st)) (unat data_len) s;
             dpram_store (buf_data (current_buffer e s)) bs s
           }
           else Some s);
     let s = upd_st t (st_offset_update (\<lambda>n. n + ucast (buf_data_len (current_buffer e s)))) s;
     funcs \<leftarrow> st_funcs (streams s t);
     s \<leftarrow> call_void cb (On_packet_complete funcs) s;
     let s = gpio_clr_mask (usb_activity_gpio_pin_mask s) s;
     usb_packet_done cb e s
   }"

definition usb_stream_chunk_done ::
    "'a stream_state_scheme caller \<Rightarrow> trid \<Rightarrow> 'a stream_state_scheme \<Rightarrow> 'a stream_state_scheme option" where
  "usb_stream_chunk_done cb t s = usb_stream_packet_handler_complete cb t s"

text \<open>The length with which \<open>on_chunk\<close> is called; 0 if it is not.\<close>

definition in_chunk_length :: "usb_stream \<Rightarrow> u32" where
  "in_chunk_length st =
     (if usb_stream_chunk_offset st = 0 then
        if st_offset st + chunk_size st > transfer_length st then transfer_length st - st_offset st
        else chunk_size st
      else 0)"

definition out_chunk_length :: "usb_stream \<Rightarrow> u32" where
  "out_chunk_length st =
     (if st_offset st + 64 \<ge> transfer_length st then
        let n = transfer_length st AND (chunk_size st - 1) in if n \<noteq> 0 then n else chunk_size st
      else if usb_stream_chunk_offset st + 64 \<ge> chunk_size st then chunk_size st
      else 0)"

definition stream_receive :: "trid \<Rightarrow> epid \<Rightarrow> 'a stream_state_scheme \<Rightarrow> 'a stream_state_scheme option" where
  "stream_receive t e s = do {
     let st = streams s t;
     let off = usb_stream_chunk_offset st;
     s \<leftarrow> (if off = 0 then store_data (chunk_buffer st) (replicate (unat (chunk_size st)) 0) s else Some s);
     bs \<leftarrow> dpram_load (buf_data (current_buffer e s)) (unat (buf_data_len (current_buffer e s))) s;
     chunk_store (chunk_buffer st) (unat off) bs s
   }"

definition usb_stream_packet_packet_handler ::
    "'a stream_state_scheme caller \<Rightarrow> epid \<Rightarrow> 'a stream_state_scheme \<Rightarrow> 'a stream_state_scheme option" where
  "usb_stream_packet_packet_handler cb e s = do {
     let s = gpio_set_mask (usb_activity_gpio_pin_mask s) s;
     t \<leftarrow> current_transfer (endpoints s e);
     let st = streams s t;
     (chunk_len, s) \<leftarrow>
       (if ep_in (endpoints s e) then Some (in_chunk_length st, s)
        else map_option (Pair (out_chunk_length st)) (stream_receive t e (usb_current_packet_buffer e s)));
     (async, s) \<leftarrow> (if chunk_len \<noteq> 0 then do {
                      funcs \<leftarrow> st_funcs (streams s t);
                      cb (On_chunk funcs chunk_len) s
                    }
                    else Some (False, s));
     if async then Some s else usb_stream_packet_handler_complete cb t s
   }"

definition usb_stream_setup_transfer ::
    "trid \<Rightarrow> stream_funcs \<Rightarrow> data_ptr \<Rightarrow> u32 \<Rightarrow> u32 \<Rightarrow> completed_func option \<Rightarrow>
     'a stream_state_scheme \<Rightarrow> 'a stream_state_scheme" where
  "usb_stream_setup_transfer t funcs buffer csize len on_complete s =
     (let s = upd_st t (\<lambda>st. st\<lparr>st_funcs := Some funcs, chunk_buffer := buffer, chunk_size := csize,
                               st_offset := 0, transfer_length := len\<rparr>) s;
          s = usb_reset_transfer t Usb_stream_type on_complete s
      in usb_grow_transfer t ((len + 63) div 64) s)"

end
