(* ===== verification/Hexdump.thy ===== *)
theory Hexdump
  imports Platform
begin

text \<open>
  The text rendering of memory in \<open>bootrom/virtual_disk.c\<close>: \<open>hex\<close> writes a number in
  hexadecimal, \<open>xxd\<close> renders 128 bytes of memory as the 512 characters of one sector.

  \<open>xxd_text\<close> is the text as a value.  \<open>xxd_refines\<close> says that the stores of the code, in
  the order of the code, produce exactly that text and stay in the sector; \<open>dump_byte\<close> reads a
  byte back from the text.
\<close>

subsection \<open>The code\<close>

definition hex_char :: "u8 \<Rightarrow> u8" where
  "hex_char nibble = (if nibble < 10 then 0x30 + nibble else 0x61 + nibble - 10)"

definition hex_nibble :: "u32 \<Rightarrow> nat \<Rightarrow> u8" where
  "hex_nibble word hexit = ucast (drop_bit ((7 - hexit) * 4) word AND 0xF)"

text \<open>The first argument is the offset of the pointer \<open>buf\<close> in the sector.\<close>

definition hex :: "nat \<Rightarrow> u32 \<Rightarrow> nat \<Rightarrow> bytes \<Rightarrow> bytes option" where
  "hex off word nibbles buf =
     foldM (\<lambda>hexit. store (off + (hexit - (8 - nibbles))) (hex_char (hex_nibble word hexit)))
           (if nibbles \<le> 8 then [8 - nibbles..<8] else []) buf"

definition printable :: "u8 \<Rightarrow> bool" where
  "printable c \<longleftrightarrow> 0x20 \<le> c \<and> c \<le> 0x7e"

definition xxd_hword :: "memory \<Rightarrow> nat \<Rightarrow> u32 \<Rightarrow> nat \<Rightarrow> bytes \<Rightarrow> bytes option" where
  "xxd_hword m buf_offset mem hword buf = do {
     let buf_offset_h = buf_offset + 5 * hword;
     let mem_h = mem + of_nat (2 * hword);
     b0 \<leftarrow> m mem_h;
     buf \<leftarrow> hex (buf_offset_h + 0x06) (ucast b0) 2 buf;
     b1 \<leftarrow> m (mem_h + 1);
     buf \<leftarrow> hex (buf_offset_h + 0x08) (ucast b1) 2 buf;
     store (buf_offset_h + 0x0a) 0x20 buf
   }"

definition xxd_ascii :: "memory \<Rightarrow> nat \<Rightarrow> u32 \<Rightarrow> nat \<Rightarrow> bytes \<Rightarrow> bytes option" where
  "xxd_ascii m buf_offset mem b buf = do {
     c \<leftarrow> m (mem + of_nat b);
     store (buf_offset + b + 0x2f) (if printable c then c else 0x2e) buf
   }"

definition xxd_line :: "memory \<Rightarrow> u32 \<Rightarrow> nat \<Rightarrow> bytes \<Rightarrow> bytes option" where
  "xxd_line m mem0 line buf = do {
     let buf_offset = 64 * line;
     let mem = mem0 + of_nat (16 * line);
     buf \<leftarrow> hex (buf_offset + 0x00) mem 5 buf;
     buf \<leftarrow> store (buf_offset + 0x05) 0x20 buf;
     buf \<leftarrow> foldM (xxd_hword m buf_offset mem) [0..<8] buf;
     buf \<leftarrow> store (buf_offset + 0x2e) 0x20 buf;
     buf \<leftarrow> foldM (xxd_ascii m buf_offset mem) [0..<16] buf;
     store (buf_offset + 0x3f) 0x0a buf
   }"

definition xxd :: "memory \<Rightarrow> u32 \<Rightarrow> bytes \<Rightarrow> bytes option" where
  "xxd m mem buf = foldM (xxd_line m mem) [0..<8] buf"

subsection \<open>The text\<close>

definition hex_text :: "u32 \<Rightarrow> nat \<Rightarrow> bytes" where
  "hex_text word nibbles = map (\<lambda>hexit. hex_char (hex_nibble word hexit)) [8 - nibbles..<8]"

definition ascii_char :: "u8 \<Rightarrow> u8" where
  "ascii_char c = (if printable c then c else 0x2e)"

definition hword_text :: "bytes \<Rightarrow> nat \<Rightarrow> bytes" where
  "hword_text row h =
     hex_text (ucast (row ! (2 * h))) 2 @ hex_text (ucast (row ! (2 * h + 1))) 2 @ [0x20]"

definition line_text :: "u32 \<Rightarrow> bytes \<Rightarrow> bytes" where
  "line_text addr row =
     hex_text addr 5 @ 0x20 # concat (map (hword_text row) [0..<8]) @ 0x20 # map ascii_char row @ [0x0a]"

definition mem_bytes :: "memory \<Rightarrow> u32 \<Rightarrow> nat \<Rightarrow> bytes" where
  "mem_bytes m a n = map (\<lambda>k. the (m (a + of_nat k))) [0..<n]"

definition xxd_text :: "memory \<Rightarrow> u32 \<Rightarrow> bytes" where
  "xxd_text m mem =
     concat (map (\<lambda>line. line_text (mem + of_nat (16 * line)) (mem_bytes m (mem + of_nat (16 * line)) 16))
            [0..<8])"

text \<open>Reading the text back: byte \<open>k\<close> of the 128 bytes of a sector.\<close>

definition unhex :: "u8 \<Rightarrow> nat" where
  "unhex c = (if c \<le> 0x39 then unat c - 0x30 else unat c - 0x61 + 10)"

definition dump_pos :: "nat \<Rightarrow> nat" where
  "dump_pos k = 64 * (k div 16) + 6 + 5 * (k mod 16 div 2) + 2 * (k mod 2)"

definition dump_byte :: "bytes \<Rightarrow> nat \<Rightarrow> u8" where
  "dump_byte txt k = of_nat (16 * unhex (txt ! dump_pos k) + unhex (txt ! (dump_pos k + 1)))"

subsection \<open>The stores of the code produce the text\<close>

lemma length_hex_text [simp]: "length (hex_text word n) = 8 - (8 - n)"
  by (simp add: hex_text_def)

lemma hex_store_list:
  assumes "0 < n" and "n \<le> 8"
  shows "hex off word n buf = store_list off (hex_text word n) buf"
proof -
  define d where "d = 8 - n"
  with assms(2) have d: "8 - n = d" "n + d = 8" by simp_all
  let ?g = "\<lambda>i. hex_char (hex_nibble word (i + d))"
  have upt: "[d..<8] = map (\<lambda>i. i + d) [0..<n]"
    using map_add_upt [of d n] d(2) by simp
  have "hex off word n buf = foldM (\<lambda>i. store_list (off + 1 * i) [?g i]) [0..<n] buf"
    using assms(2) unfolding hex_def d(1) upt by (simp add: store_as_list foldM_map)
  also have "\<dots> = store_list off (concat (map (\<lambda>i. [?g i]) [0..<n])) buf"
    by (rule foldM_store_list) (use assms(1) in simp_all)
  also have "concat (map (\<lambda>i. [?g i]) [0..<n]) = hex_text word n"
    unfolding hex_text_def d(1) upt by (simp add: comp_def)
  finally show ?thesis .
qed

lemma length_hword_text [simp]: "length (hword_text row h) = 5"
  by (simp add: hword_text_def)

lemma length_hwords [simp]: "length (concat (map (hword_text row) [0..<n])) = 5 * n"
  by (rule length_concat_map) simp

lemma length_line_text [simp]: "length row = 16 \<Longrightarrow> length (line_text addr row) = 64"
  by (simp add: line_text_def)

lemma length_mem_bytes [simp]: "length (mem_bytes m a n) = n"
  by (simp add: mem_bytes_def)

lemma nth_mem_bytes: "k < n \<Longrightarrow> m (a + of_nat k) \<noteq> None \<Longrightarrow> m (a + of_nat k) = Some (mem_bytes m a n ! k)"
  by (auto simp: mem_bytes_def)

lemma xxd_hword_store_list:
  assumes "m (mem + of_nat (2 * h)) = Some (row ! (2 * h))"
    and "m (mem + of_nat (2 * h + 1)) = Some (row ! (2 * h + 1))"
  shows "xxd_hword m off mem h buf = store_list (off + 6 + 5 * h) (hword_text row h) buf"
proof -
  have m1: "m (mem + of_nat (2 * h) + 1) = Some (row ! (2 * h + 1))"
    using assms(2) by (simp add: add.commute add.left_commute)
  show ?thesis
    unfolding xxd_hword_def Let_def assms(1) m1 hword_text_def
    by (simp add: hex_store_list seq_stores add.assoc add.commute [of 6])
qed


lemma xxd_ascii_store_list:
  "m (mem + of_nat k) = Some c \<Longrightarrow>
   xxd_ascii m off mem k buf = store_list (off + 0x2f + k) [ascii_char c] buf"
  by (simp add: xxd_ascii_def store_as_list ascii_char_def ac_simps)

lemma xxd_line_store_list:
  assumes "\<And>k. k < 16 \<Longrightarrow> m (mem0 + of_nat (16 * line) + of_nat k) \<noteq> None"
  shows "xxd_line m mem0 line buf =
         store_list (64 * line)
           (line_text (mem0 + of_nat (16 * line)) (mem_bytes m (mem0 + of_nat (16 * line)) 16)) buf"
proof -
  define a where "a = mem0 + of_nat (16 * line)"
  define row where "row = mem_bytes m a 16"
  have len: "length row = 16" by (simp add: row_def)
  have row: "m (a + of_nat k) = Some (row ! k)" if "k < 16" for k
    using nth_mem_bytes [of k 16 m a] assms [of k] that by (simp add: a_def row_def)
  have hwords: "foldM (xxd_hword m (64 * line) a) [0..<8] b =
      store_list (64 * line + 6) (concat (map (hword_text row) [0..<8])) b" for b
  proof -
    have "foldM (xxd_hword m (64 * line) a) [0..<8] b =
        foldM (\<lambda>h. store_list ((64 * line + 6) + 5 * h) (hword_text row h)) [0..<8] b"
      by (intro foldM_cong xxd_hword_store_list row) auto
    then show ?thesis
      using foldM_store_list [of 8 "hword_text row" 5 "64 * line + 6" b] by simp
  qed
  have ascii: "foldM (xxd_ascii m (64 * line) a) [0..<16] b =
      store_list (64 * line + 0x2f) (map ascii_char row) b" for b
  proof -
    have "foldM (xxd_ascii m (64 * line) a) [0..<16] b =
        foldM (\<lambda>k. store_list ((64 * line + 0x2f) + 1 * k) [ascii_char (row ! k)]) [0..<16] b"
      by (intro foldM_cong) (use row xxd_ascii_store_list in auto)
    moreover have "concat (map (\<lambda>k. [ascii_char (row ! k)]) [0..<16]) = map ascii_char row"
      by (rule concat_singletons) (simp add: len)
    ultimately show ?thesis
      using foldM_store_list [of 16 "\<lambda>k. [ascii_char (row ! k)]" 1 "64 * line + 0x2f" b] by simp
  qed
  define hw as where "hw = concat (map (hword_text row) [0..<8])" and "as = map ascii_char row"
  have lens: "length hw = 40" "length as = 16"
    unfolding hw_def as_def by (simp_all only: length_hwords length_map len)
  show ?thesis
    unfolding xxd_line_def Let_def a_def [symmetric] row_def [symmetric] hwords ascii line_text_def
      hw_def [symmetric] as_def [symmetric]
    by (simp add: hex_store_list seq_stores lens)
qed

lemma xxd_refines:
  assumes "\<And>k. k < 128 \<Longrightarrow> m (mem + of_nat k) \<noteq> None" and "length buf = 512"
  shows "xxd m mem buf = Some (xxd_text m mem)"
proof -
  let ?g = "\<lambda>line. line_text (mem + of_nat (16 * line)) (mem_bytes m (mem + of_nat (16 * line)) 16)"
  have mapped: "m (mem + of_nat (16 * line) + of_nat k) \<noteq> None" if "line < 8" "k < 16" for line k
    using assms(1) [of "16 * line + k"] that by (simp add: add.assoc)
  have "xxd m mem buf = foldM (\<lambda>line. store_list (0 + 64 * line) (?g line)) [0..<8] buf"
    unfolding xxd_def by (intro foldM_cong) (use mapped xxd_line_store_list in auto)
  also have "\<dots> = store_list 0 (concat (map ?g [0..<8])) buf"
    by (rule foldM_store_list) simp_all
  also have "\<dots> = Some (xxd_text m mem)"
    unfolding xxd_text_def
    by (rule store_list_full) (use assms(2) in \<open>simp add: length_concat_map [where w = 64]\<close>)
  finally show ?thesis .
qed

lemma length_xxd_text [simp]: "length (xxd_text m mem) = 512"
  unfolding xxd_text_def by (simp add: length_concat_map [where w = 64])


lemma xxd_text_cong:
  assumes "\<And>k. k < 128 \<Longrightarrow> m (a + of_nat k) = m' (a + of_nat k)"
  shows "xxd_text m a = xxd_text m' a"
proof -
  have "mem_bytes m (a + of_nat (16 * line)) 16 = mem_bytes m' (a + of_nat (16 * line)) 16" if "line < 8" for line
    unfolding mem_bytes_def
  proof (rule map_cong)
    fix k assume "k \<in> set [0..<16]"
    then have "16 * line + k < 128" using that by simp
    then show "the (m (a + of_nat (16 * line) + of_nat k)) = the (m' (a + of_nat (16 * line) + of_nat k))"
      using assms [of "16 * line + k"] by (simp add: add.assoc)
  qed simp
  then show ?thesis
    unfolding xxd_text_def by (intro arg_cong [where f = concat] map_cong) simp_all
qed

subsection \<open>Reading the text back\<close>

lemma hex_nibble_take_bit:
  "hex_nibble word hexit = ucast (take_bit 4 (drop_bit ((7 - hexit) * 4) word))"
proof -
  have "0xF = (mask 4 :: u32)" by (simp add: mask_eq_exp_minus_1)
  then show ?thesis by (simp only: hex_nibble_def take_bit_eq_mask)
qed

lemma hex_nibble_less: "hex_nibble word hexit < 16"
proof -
  have "unat (hex_nibble word hexit) = unat (drop_bit ((7 - hexit) * 4) word) mod 16"
    unfolding hex_nibble_take_bit
    by (simp add: unsigned_ucast_eq unsigned_take_bit_eq take_bit_eq_mod mod_mod_cancel unat_mod_distrib)
  then show ?thesis by (simp add: word_less_nat_alt)
qed

lemma nibble_cases:
  assumes "(x::u8) < 16"
  obtains "x = 0" | "x = 1" | "x = 2" | "x = 3" | "x = 4" | "x = 5" | "x = 6" | "x = 7"
    | "x = 8" | "x = 9" | "x = 10" | "x = 11" | "x = 12" | "x = 13" | "x = 14" | "x = 15"
proof -
  define k where "k = unat x"
  have "k < 16" and x: "x = of_nat k"
    using assms by (simp_all add: word_less_nat_alt k_def)
  then have "k = 0 \<or> k = 1 \<or> k = 2 \<or> k = 3 \<or> k = 4 \<or> k = 5 \<or> k = 6 \<or> k = 7 \<or> k = 8
      \<or> k = 9 \<or> k = 10 \<or> k = 11 \<or> k = 12 \<or> k = 13 \<or> k = 14 \<or> k = 15" by presburger
  then show ?thesis using that unfolding x by auto
qed

lemma unhex_hex_char: "n < 16 \<Longrightarrow> unhex (hex_char n) = unat n"
  by (erule nibble_cases) (simp_all add: unhex_def hex_char_def)

lemma hex_char_printable: "n < 16 \<Longrightarrow> printable (hex_char n)"
  by (erule nibble_cases) (simp_all add: printable_def hex_char_def)

lemma byte_of_nibbles:
  "16 * unat (hex_nibble (ucast b) 6) + unat (hex_nibble (ucast b) 7) = unat (b :: u8)"
proof -
  have "hex_nibble (ucast b) 6 = drop_bit 4 b"
  proof (rule bit_word_eqI)
    fix n assume "n < LENGTH(8)"
    moreover have "bit b (4 + n) \<Longrightarrow> n < 4" using bit_imp_le_length [of b "4 + n"] by simp
    ultimately show "bit (hex_nibble (ucast b) 6) n = bit (drop_bit 4 b) n"
      by (auto simp: hex_nibble_take_bit bit_simps)
  qed
  moreover have "hex_nibble (ucast b) 7 = take_bit 4 b"
    by (rule bit_word_eqI) (auto simp: hex_nibble_take_bit bit_simps)
  ultimately show ?thesis
    by (simp add: unat_drop_bit_eq unsigned_take_bit_eq drop_bit_eq_div take_bit_eq_mod
        unat_div_distrib unat_mod_distrib)
qed


lemma hex_text_byte:
  "unhex (hex_text (ucast b) 2 ! 0) * 16 + unhex (hex_text (ucast b) 2 ! 1) = unat (b :: u8)"
  using byte_of_nibbles [of b] by (simp add: hex_text_def upt_rec unhex_hex_char hex_nibble_less)

lemma hword_text_nth:
  assumes "b < 2" and "c < 2"
  shows "hword_text row h ! (2 * b + c) = hex_text (ucast (row ! (2 * h + b))) 2 ! c"
proof -
  have "b = 0 \<or> b = 1" and "c = 0 \<or> c = 1" using assms by auto
  then show ?thesis by (auto simp: hword_text_def nth_append)
qed

lemma line_text_nth:
  assumes "length row = 16" and "h < 8" and "b < 2" and "c < 2"
  shows "line_text addr row ! (6 + 5 * h + 2 * b + c) = hex_text (ucast (row ! (2 * h + b))) 2 ! c"
proof -
  have "5 * h + (2 * b + c) < 40" using assms by linarith
  then have "line_text addr row ! (6 + 5 * h + 2 * b + c)
      = concat (map (hword_text row) [0..<8]) ! (5 * h + (2 * b + c))"
    by (simp add: line_text_def nth_append nth_Cons' add.assoc del: upt_Suc)
  also have "\<dots> = hword_text row h ! (2 * b + c)"
    by (rule nth_concat_map) (use assms in auto)
  finally show ?thesis by (simp add: hword_text_nth assms)
qed

lemma xxd_text_nth:
  assumes "line < 8" and "j < 64"
  shows "xxd_text m mem ! (64 * line + j) =
         line_text (mem + of_nat (16 * line)) (mem_bytes m (mem + of_nat (16 * line)) 16) ! j"
  unfolding xxd_text_def by (rule nth_concat_map) (use assms in auto)

lemma dump_byte_xxd_text:
  assumes "k < 128"
  shows "dump_byte (xxd_text m mem) k = the (m (mem + of_nat k))"
proof -
  define line h b where "line = k div 16" and "h = k mod 16 div 2" and "b = k mod 2"
  have "k mod 16 = 2 * h + k mod 16 mod 2" unfolding h_def by simp
  then have k: "k = 16 * line + (2 * h + b)"
    using mult_div_mod_eq [of 16 k] by (simp add: line_def b_def mod_mod_cancel)
  have b: "b < 2" by (simp add: b_def)
  have line: "line < 8" using assms by (simp add: line_def less_mult_imp_div_less)
  have h: "h < 8" by (simp add: h_def less_mult_imp_div_less)
  let ?row = "mem_bytes m (mem + of_nat (16 * line)) 16"
  have pos: "dump_pos k = 64 * line + (6 + 5 * h + 2 * b)"
    unfolding dump_pos_def line_def h_def b_def by (simp only: add.assoc)
  have nth: "xxd_text m mem ! (dump_pos k + c) = hex_text (ucast (?row ! (2 * h + b))) 2 ! c"
    if "c < 2" for c
  proof -
    have "xxd_text m mem ! (dump_pos k + c) = xxd_text m mem ! (64 * line + (6 + 5 * h + 2 * b + c))"
      unfolding pos by (simp only: add.assoc)
    also have "\<dots> = line_text (mem + of_nat (16 * line)) ?row ! (6 + 5 * h + 2 * b + c)"
      by (rule xxd_text_nth) (use line h b that in linarith)+
    also have "\<dots> = hex_text (ucast (?row ! (2 * h + b))) 2 ! c"
      by (rule line_text_nth) (use h b that in simp_all)
    finally show ?thesis .
  qed
  have "?row ! (2 * h + b) = the (m (mem + of_nat k))"
    using h b by (simp add: mem_bytes_def k add.assoc)
  then show ?thesis
    unfolding dump_byte_def using nth [of 0] nth [of 1] hex_text_byte [of "?row ! (2 * h + b)"]
    by (simp add: mult.commute)
qed

end
