(* ===== verification/Generator.thy ===== *)
theory Generator
  imports Prelude
begin

text \<open>
  The build-time generator \<open>generator/main.c\<close>: the text compressor \<open>compress\<close>, its
  decompressor \<open>decompress\<close> with which it checks itself, and the search for the places of the
  version string.  The decompressor of the device, \<open>poor_mans_text_decompress\<close> of
  \<open>bootrom/bootrom_misc.S\<close>, reads the same format; it is modelled beside it.

  The format: a byte below 0x80 is a literal; a byte \<open>b\<close> from 0x80 on, followed by \<open>d\<close>, copies
  \<open>0x100 - b\<close> bytes from \<open>d\<close> bytes back.
\<close>

subsection \<open>Compression\<close>

text \<open>
  The two inner loops: lengths from long to short, start positions from far to near, up to the
  first match.
\<close>

definition find_match :: "bytes \<Rightarrow> nat \<Rightarrow> (nat \<times> nat) option" where
  "find_match src to =
     List.find (\<lambda>(match_len, from). take match_len (drop to src) = take match_len (drop from src))
       (List.product (rev [3..<Suc (min 127 (length src - to))]) [to - 255..<to])"

function compress_from :: "bytes \<Rightarrow> nat \<Rightarrow> bytes" where
  "compress_from src to =
     (if to < length src then
        (case find_match src to of
           Some (match_len, from) \<Rightarrow>
             [of_nat (0x100 - match_len), of_nat (to - from)] @
             (if to + match_len \<noteq> length src then [src ! (to + match_len)] else []) @
             compress_from src (to + match_len + 1)
         | None \<Rightarrow> src ! to # compress_from src (to + 1))
      else [])"
  by pat_completeness auto
termination
  by (relation "measure (\<lambda>(src, to). length src - to)") (auto split: if_splits)

declare compress_from.simps [simp del]

subsection \<open>Decompression\<close>

text \<open>\<open>while (len--) buf[n++] = buf[off++];\<close>\<close>

fun copy_back :: "nat \<Rightarrow> nat \<Rightarrow> nat \<Rightarrow> bytes \<Rightarrow> bytes option" where
  "copy_back 0 off n buf = Some buf"
| "copy_back (Suc len) off n buf =
     (if off < length buf
      then Option.bind (store n (buf ! off) buf) (copy_back len (Suc off) (Suc n)) else None)"

fun decompress_loop :: "bytes \<Rightarrow> nat \<Rightarrow> bytes \<Rightarrow> (nat \<times> bytes) option" where
  "decompress_loop [] n buf = Some (n, buf)"
| "decompress_loop (b # data) n buf =
     (if n < length buf then
        if b < 0x80 then Option.bind (store n b buf) (decompress_loop data (n + 1))
        else (case data of
                [] \<Rightarrow> None
              | d # data' \<Rightarrow>
                  if unat d \<le> n
                  then Option.bind (copy_back (0x100 - unat b) (n - unat d) n buf)
                         (decompress_loop data' (n + (0x100 - unat b)))
                  else None)
      else Some (n, buf))"

definition decompress :: "bytes \<Rightarrow> bytes \<Rightarrow> (nat \<times> bytes) option" where
  "decompress data buf =
     map_option (\<lambda>(n, buf). (if n = length buf then 0 else n, buf)) (decompress_loop data 0 buf)"

text \<open>
  \<open>compress\<close>: a byte with the top bit set is refused, and so is a text that the decompressor does
  not give back.  The result is the content of the generated array.
\<close>

datatype compress_error = TopBitSet | DecompressCheckFailed

definition check_buf :: bytes where
  "check_buf = replicate 4096 0"

definition compress :: "bytes \<Rightarrow> compress_error + bytes" where
  "compress src =
     (if \<exists>c \<in> set src. 0x80 \<le> c then Inl TopBitSet
      else let buf = compress_from src 0 in
        (case decompress buf check_buf of
           None \<Rightarrow> Inl DecompressCheckFailed
         | Some (check_n, out) \<Rightarrow>
             if check_n \<noteq> length src \<or> take (length src) out \<noteq> src
             then Inl DecompressCheckFailed else Inr buf))"

text \<open>The decompressor of the device: \<open>do \<dots> while\<close> loops over registers.\<close>

fun pmtd_loop :: "bytes \<Rightarrow> nat \<Rightarrow> bytes \<Rightarrow> bytes option" where
  "pmtd_loop [] n dest = Some dest"
| "pmtd_loop (b # src) n dest =
     (if b < 0x80 then Option.bind (store n b dest) (pmtd_loop src (n + 1))
      else (case src of
              [] \<Rightarrow> None
            | d # src' \<Rightarrow>
                if unat d \<le> n
                then Option.bind (copy_back (0x100 - unat b) (n - unat d) n dest)
                       (pmtd_loop src' (n + (0x100 - unat b)))
                else None))"

definition poor_mans_text_decompress :: "bytes \<Rightarrow> bytes \<Rightarrow> bytes option" where
  "poor_mans_text_decompress src dest = (if src = [] then None else pmtd_loop src 0 dest)"

subsection \<open>The version string\<close>

definition version_text :: bytes where
  "version_text = [0x61, 0x61, 0x62, 0x62, 0x63, 0x63, 0x64, 0x64, 0x65, 0x65, 0x66, 0x66]"

definition version_offsets :: "bytes \<Rightarrow> nat list" where
  "version_offsets buf =
     filter (\<lambda>i. take 12 (drop i buf) = version_text) [0..<length buf - 12]"

text \<open>The inquiry response of \<open>usb_device_tiny/scsi_ir.h\<close>, field by field.\<close>

record scsi_inquiry_response =
  ir_pdt :: u8
  ir_rmb :: u8
  ir_spc_version :: u8
  ir_rdf :: u8
  ir_additional_length :: u8
  ir_inquiry5 :: u8
  ir_inquiry6 :: u8
  ir_inquiry7 :: u8
  ir_vendor :: bytes
  ir_product :: bytes
  ir_version :: bytes

definition scsi_inquiry_bytes :: "scsi_inquiry_response \<Rightarrow> bytes" where
  "scsi_inquiry_bytes r =
     [ir_pdt r, ir_rmb r, ir_spc_version r, ir_rdf r, ir_additional_length r,
      ir_inquiry5 r, ir_inquiry6 r, ir_inquiry7 r] @ ir_vendor r @ ir_product r @ ir_version r"

definition scsi_ir :: scsi_inquiry_response where
  "scsi_ir =
     \<lparr> ir_pdt = 0, ir_rmb = 0x80, ir_spc_version = 2, ir_rdf = 2, ir_additional_length = 36 - 4,
       ir_inquiry5 = 0, ir_inquiry6 = 0, ir_inquiry7 = 0, ir_vendor = ascii_bytes ''RPI     '',
       ir_product = ascii_bytes ''RP2             '', ir_version = ascii_bytes ''3   '' \<rparr>"

subsection \<open>The generated header\<close>

text \<open>
  What the program defines for the code of the device.  A step that fails leaves its definitions
  out, so the device's code does not compile: \<^term>\<open>None\<close>.
\<close>

record generated =
  welcome_html_z :: bytes
  welcome_html_len :: nat
  welcome_html_version_offset_1 :: nat
  welcome_html_version_offset_2 :: nat
  info_uf2_txt :: bytes
  scsi_ir_z :: bytes

definition read_fully :: "bytes \<Rightarrow> bytes option" where
  "read_fully file = (if length file > 4096 \<or> file = [] then None else Some file)"

definition generator_main :: "bytes \<Rightarrow> bytes \<Rightarrow> generated option" where
  "generator_main welcome_file info_file = do {
     html \<leftarrow> read_fully welcome_file;
     z \<leftarrow> (case compress html of Inl _ \<Rightarrow> None | Inr z \<Rightarrow> Some z);
     (o1, o2) \<leftarrow> (if length html < 12 then None
                 else case version_offsets html of o1 # o2 # _ \<Rightarrow> Some (o1, o2) | _ \<Rightarrow> None);
     info \<leftarrow> read_fully info_file;
     irz \<leftarrow> (case compress (scsi_inquiry_bytes (scsi_ir\<lparr>ir_rmb := 0\<rparr>)) of
               Inl _ \<Rightarrow> None | Inr z \<Rightarrow> Some z);
     Some \<lparr> welcome_html_z = z, welcome_html_len = length html,
            welcome_html_version_offset_1 = o1, welcome_html_version_offset_2 = o2,
            info_uf2_txt = info, scsi_ir_z = irz \<rparr>
   }"

subsection \<open>The compressor finds true matches\<close>

lemma find_match_Some:
  assumes "find_match src to = Some (match_len, from)"
  shows "3 \<le> match_len" "match_len \<le> 127" "to + match_len \<le> length src"
    "from < to" "to - from \<le> 255"
    "take match_len (drop to src) = take match_len (drop from src)"
proof -
  have "(match_len, from) \<in> {3..<Suc (min 127 (length src - to))} \<times> {to - 255..<to}"
    and "take match_len (drop to src) = take match_len (drop from src)"
    using find_SomeD [OF assms [unfolded find_match_def]]
    by (simp_all only: set_product set_rev set_upt split_conv simp_thms)
  then show "3 \<le> match_len" "match_len \<le> 127" "to + match_len \<le> length src"
    "from < to" "to - from \<le> 255"
    "take match_len (drop to src) = take match_len (drop from src)"
    by auto
qed

lemma length_compress_from: "length (compress_from src to) \<le> length src - to"
proof (induction src to rule: compress_from.induct)
  case (1 src to)
  show ?case
  proof (cases "to < length src \<and> find_match src to \<noteq> None")
    case True
    then obtain l "from" where m: "find_match src to = Some (l, from)" and to: "to < length src"
      by auto
    have "length (compress_from src (to + l + 1)) \<le> length src - (to + l + 1)"
      using "1.IH"(2) [OF to m refl] .
    then show ?thesis
      using find_match_Some(1,3) [OF m] to m by (subst compress_from.simps) auto
  next
    case False
    then show ?thesis using "1.IH"(1) by (subst compress_from.simps) (auto split: option.split)
  qed
qed

lemma match_nth:
  assumes "take l (drop a xs) = take l (drop b xs)" and "k < l" and "b < a" and "a + l \<le> length xs"
  shows "xs ! (a + k) = xs ! (b + k)"
proof -
  have "take l (drop a xs) ! k = take l (drop b xs) ! k" using assms(1) by simp
  then show ?thesis using assms(2-4) by simp
qed


subsection \<open>Decompressing a compressed text\<close>

text \<open>
  Where the first \<open>n\<close> bytes of the buffer are those of the text, copying a match extends them by
  the length of the match and leaves the rest of the buffer alone.
\<close>

lemma copy_back_match:
  assumes "take n buf = take n src" and "off < n" and "n + l \<le> length src"
    and "length src \<le> length buf" and "\<And>k. k < l \<Longrightarrow> src ! (n + k) = src ! (off + k)"
  shows "copy_back l off n buf = Some (take (n + l) src @ drop (n + l) buf)"
  using assms
proof (induction l arbitrary: off n buf)
  case 0
  then show ?case by (metis add_0_right append_take_drop_id copy_back.simps(1))
next
  case (Suc l)
  have "buf ! off = take n buf ! off" using Suc.prems(2) by simp
  also have "\<dots> = src ! off" unfolding Suc.prems(1) using Suc.prems(2) by simp
  also have "\<dots> = src ! n" using Suc.prems(5) [of 0] by simp
  finally have eq: "buf ! off = src ! n" .
  have "take (Suc n) (buf[n := buf ! off]) = take (Suc n) src"
    using Suc.prems(1,3,4) eq by (simp add: take_Suc_conv_app_nth)
  then have "copy_back l (Suc off) (Suc n) (buf[n := buf ! off]) =
      Some (take (Suc n + l) src @ drop (Suc n + l) (buf[n := buf ! off]))"
    by (rule Suc.IH) (use Suc.prems(2-4) Suc.prems(5) [of "Suc k" for k] in auto)
  then show ?case using Suc.prems(2-4) by (simp add: store_Some)
qed

lemma length_copy_back: "copy_back l off n buf = Some buf' \<Longrightarrow> length buf' = length buf"
  by (induction l arbitrary: off n buf) (auto simp: bind_eq_Some_conv dest!: length_store split: if_splits)

lemma take_store:
  assumes "take n buf = take n src" and "n < length src" and "length src \<le> length buf"
  shows "take (n + 1) (buf[n := src ! n]) = take (n + 1) src"
  using assms by (simp add: take_Suc_conv_app_nth)

lemma match_token:
  assumes "3 \<le> l" and "l \<le> 127"
  shows "unat (of_nat (0x100 - l) :: u8) = 0x100 - l"
  using assms by (simp add: unat_of_nat del: of_nat_diff)

lemma match_token_not_literal:
  "3 \<le> l \<Longrightarrow> l \<le> 127 \<Longrightarrow> \<not> (of_nat (0x100 - l) :: u8) < 0x80"
  by (simp add: word_less_nat_alt match_token del: of_nat_diff)

text \<open>
  One step of the decompressor on the output of the compressor, for both decompressors at once: they
  differ in the guard of the loop only.
\<close>

definition ascii_text :: "bytes \<Rightarrow> bool" where
  "ascii_text src \<longleftrightarrow> (\<forall>c \<in> set src. c < 0x80)"

lemma decompress_loop_compress_from:
  assumes "ascii_text src" and "length src \<le> length buf" and "to \<le> length src"
    and "take to buf = take to src"
  shows "decompress_loop (compress_from src to) to buf =
         Some (length src, src @ drop (length src) buf)"
  using assms
proof (induction src to arbitrary: buf rule: compress_from.induct)
  case (1 src to)
  show ?case
  proof (cases "to < length src")
    case False
    then have "buf = src @ drop (length src) buf"
      using "1.prems"(3,4) append_take_drop_id [of to buf] by simp
    then show ?thesis using "1.prems"(3) False by (simp add: compress_from.simps)
  next
    case to: True
    show ?thesis
    proof (cases "find_match src to")
      case None
      have "src ! to < 0x80" using "1.prems"(1) to by (simp add: ascii_text_def)
      then show ?thesis
        using "1.IH"(1) [OF to None, of "buf[to := src ! to]"] "1.prems" to None
        by (subst compress_from.simps) (simp add: store_Some take_store [simplified])
    next
      case (Some m)
      obtain l "from" where m: "m = (l, from)" by (cases m)
      note match = find_match_Some [OF Some [unfolded m]]
      let ?to = "to + l"
      define buf1 where "buf1 = take ?to src @ drop ?to buf"
      have copy: "copy_back l from to buf = Some buf1"
        unfolding buf1_def by (rule copy_back_match [OF "1.prems"(4) match(4,3)])
          (use match_nth [OF match(6) _ match(4,3)] "1.prems"(2) in auto)
      have buf1: "length buf1 = length buf" "take ?to buf1 = take ?to src"
        "drop (length src) buf1 = drop (length src) buf"
        using match(3) "1.prems"(2) by (simp_all add: buf1_def)
      have tok: "unat (of_nat (to - from) :: u8) = to - from"
        using match(5) by (simp add: unat_of_nat)
      define c where "c = (if ?to \<noteq> length src then [src ! ?to] else [])"
      have "decompress_loop (c @ compress_from src (?to + 1)) ?to buf1 =
          Some (length src, src @ drop (length src) buf)"
      proof (cases "?to = length src")
        case True
        then show ?thesis by (simp add: c_def compress_from.simps buf1_def)
      next
        case False
        then have lt: "?to < length src" using match(3) by simp
        then have "src ! ?to < 0x80" using "1.prems"(1) by (simp add: ascii_text_def)
        then show ?thesis
          using "1.IH"(2) [OF to Some [unfolded m] refl, of "buf1[?to := src ! ?to]"] "1.prems"(1,2)
            lt buf1 take_store [OF buf1(2) lt]
          by (simp add: c_def store_Some)
      qed
      moreover have "compress_from src to =
          of_nat (0x100 - l) # of_nat (to - from) # c @ compress_from src (?to + 1)"
        using to Some m by (subst compress_from.simps) (simp add: c_def)
      moreover have "to < length buf" using to "1.prems"(2) by simp
      ultimately show ?thesis
        using match(4) copy match_token [OF match(1,2)] match_token_not_literal [OF match(1,2)]
          tok match(2)
        by (simp del: of_nat_diff)
    qed
  qed
qed

text \<open>
  The guard of the generator's loop makes a difference only where the buffer is full, so the
  decompressor of the device gives the same result on what fits.
\<close>

lemma pmtd_loop_decompress_loop:
  assumes "decompress_loop data n buf = Some (n', buf')" and "n' < length buf"
  shows "pmtd_loop data n buf = Some buf'"
  using assms
proof (induction data n buf rule: decompress_loop.induct)
  case (1 n buf)
  then show ?case by simp
next
  case (2 b data n buf)
  have n: "n < length buf" using "2.prems" by (auto split: if_splits)
  show ?case
  proof (cases "b < 0x80")
    case True
    then obtain a where "store n b buf = Some a" "decompress_loop data (n + 1) a = Some (n', buf')"
      using "2.prems"(1) n by (auto simp: bind_eq_Some_conv)
    then show ?thesis using "2.IH"(1) [OF n True] "2.prems"(2) True
      by (auto dest: length_store)
  next
    case False
    then obtain d data' a where d: "data = d # data'" "unat d \<le> n"
      and a: "copy_back (0x100 - unat b) (n - unat d) n buf = Some a"
      "decompress_loop data' (n + (0x100 - unat b)) a = Some (n', buf')"
      using "2.prems"(1) n by (auto simp: bind_eq_Some_conv split: list.splits if_splits)
    then show ?thesis
      using "2.IH"(2) [OF n False d a(1)] "2.prems"(2) False length_copy_back [OF a(1)] by simp
  qed
qed

lemma decompress_check:
  assumes "ascii_text src" and "length src \<le> 4096"
  shows "decompress_loop (compress_from src 0) 0 check_buf = Some (length src, src @ drop (length src) check_buf)"
    and "\<not> (\<exists>c \<in> set src. 0x80 \<le> c)"
  using decompress_loop_compress_from [OF assms(1), of check_buf 0] assms
  by (auto simp: check_buf_def ascii_text_def not_le)

lemma compress_eq:
  assumes "ascii_text src" and "length src < 4096"
  shows "compress src = Inr (compress_from src 0)"
  using decompress_check [OF assms(1)] assms(2) by (simp add: compress_def decompress_def check_buf_def)

text \<open>A full check buffer counts as an overrun: \<open>decompress\<close> gives 0 for it.\<close>

lemma compress_full:
  assumes "ascii_text src" and "length src = 4096"
  shows "compress src = Inl DecompressCheckFailed"
  using decompress_check [OF assms(1)] assms(2) by (simp add: compress_def decompress_def check_buf_def)

lemma compress_InrD: "compress src = Inr z \<Longrightarrow> ascii_text src \<and> z = compress_from src 0"
  by (auto simp: compress_def ascii_text_def Let_def not_le split: if_splits option.splits prod.splits)

lemma compress_from_not_Nil: "src \<noteq> [] \<Longrightarrow> compress_from src 0 \<noteq> []"
  by (subst compress_from.simps) (auto split: option.split)

lemma ascii_version_text: "ascii_text version_text" "length version_text = 12"
  by (simp_all add: ascii_text_def version_text_def)

lemma version_offsetsD: "i \<in> set (version_offsets w) \<Longrightarrow> i + 12 < length w"
  by (auto simp: version_offsets_def)

lemma generator_mainD:
  assumes "generator_main html info = Some gen"
  shows "compress html = Inr (welcome_html_z gen)" "welcome_html_len gen = length html"
    "12 \<le> length html" "welcome_html_version_offset_1 gen + 12 < length html"
    "welcome_html_version_offset_2 gen + 12 < length html" "info_uf2_txt gen = info"
    "compress (scsi_inquiry_bytes (scsi_ir\<lparr>ir_rmb := 0\<rparr>)) = Inr (scsi_ir_z gen)"
    "length info \<le> 4096"
  using assms version_offsetsD [of _ html]
  by (auto simp: generator_main_def read_fully_def bind_eq_Some_conv
      split: if_splits sum.splits list.splits)

lemma pmtd_compress:
  assumes "compress src = Inr z" and "src \<noteq> []" and "length src < length dest"
  shows "poor_mans_text_decompress z dest = Some (src @ drop (length src) dest)"
proof -
  have ascii: "ascii_text src" and z: "z = compress_from src 0"
    using compress_InrD [OF assms(1)] by simp_all
  have "decompress_loop z 0 dest = Some (length src, src @ drop (length src) dest)"
    unfolding z by (rule decompress_loop_compress_from) (use ascii assms(3) in simp_all)
  then have "pmtd_loop z 0 dest = Some (src @ drop (length src) dest)"
    by (rule pmtd_loop_decompress_loop) (rule assms(3))
  then show ?thesis using compress_from_not_Nil [OF assms(2)] z
    by (simp add: poor_mans_text_decompress_def)
qed

subsection \<open>Properties\<close>

text \<open>C12: What the generator does with each text it can read (at most 4096 bytes).  A text with a byte
  whose top bit is set is refused for that byte.  A 7-bit text of less than 4096 bytes is compressed without an
  error, to at most its own size: the self-check never fails on it.  A 7-bit text of exactly 4096 bytes is
  read and compressed, but the self-check then always fails, because a full check buffer counts as an error.\<close>

theorem compress_total:
  assumes "length src \<le> 4096"
  shows "if \<not> ascii_text src then compress src = Inl TopBitSet
         else if length src < 4096 then \<exists>z. compress src = Inr z \<and> length z \<le> length src
         else compress src = Inl DecompressCheckFailed"
  using assms compress_eq [of src] compress_full [of src] length_compress_from [of src 0]
  by (auto simp: compress_def ascii_text_def not_le not_less)

theorem compress_total_witness:
  "(\<exists>z. compress version_text = Inr z \<and> length z \<le> 12) \<and>
   compress (replicate 4096 0x61) = Inl DecompressCheckFailed \<and> compress [0x61, 0x80] = Inl TopBitSet"
  using compress_total [of version_text] compress_total [of "replicate 4096 0x61"] compress_total [of "[0x61, 0x80]"]
    ascii_version_text
  by (simp add: ascii_text_def)

text \<open>C11: What the generator stores for a text, the decompressor of the device expands to exactly that
  text, in any buffer with room for it, without a store outside of the buffer and without touching the
  rest of it.\<close>

theorem device_decompresses:
  assumes "compress src = Inr z" and "src \<noteq> []" and "length src < length dest"
  shows "poor_mans_text_decompress z dest = Some (src @ drop (length src) dest)"
  using assms by (rule pmtd_compress)

theorem device_decompresses_witness:
  "poor_mans_text_decompress (compress_from version_text 0) (replicate 16 7) =
   Some (version_text @ [7, 7, 7, 7])"
  using device_decompresses [OF compress_eq [OF ascii_version_text(1)], of "replicate 16 7"]
  by (simp add: ascii_version_text version_text_def numeral_eq_Suc)

end
