(* ===== verification/Virtual_Disk.thy ===== *)
theory Virtual_Disk
  imports Hexdump Generator Serial_Number
begin

text \<open>
  The read side of \<open>bootrom/virtual_disk.c\<close>: the image of a FAT16 disk that does not exist, computed
  sector by sector.  \<open>vd_read_block\<close> is the handler; the definitions before it are the pieces of its
  body, in the order of the code.  Its result is \<^term>\<open>None\<close> where the code would store outside of
  the sector buffer or load from an unmapped address.
\<close>

subsection \<open>The geometry\<close>

definition SECTOR_SIZE :: nat where "SECTOR_SIZE = 512"
definition CLUSTER_UP_SHIFT :: nat where "CLUSTER_UP_SHIFT = 0"
definition CLUSTER_UP_MUL :: nat where "CLUSTER_UP_MUL = 2 ^ CLUSTER_UP_SHIFT"
definition VOLUME_SIZE :: nat where "VOLUME_SIZE = CLUSTER_UP_MUL * 128 * 1024 * 1024"
definition SECTOR_COUNT :: nat where "SECTOR_COUNT = VOLUME_SIZE div SECTOR_SIZE"
definition CLUSTER_SIZE :: nat where "CLUSTER_SIZE = 4096 * CLUSTER_UP_MUL"
definition CLUSTER_SHIFT :: nat where "CLUSTER_SHIFT = 3 + CLUSTER_UP_SHIFT"
definition CLUSTER_COUNT :: nat where "CLUSTER_COUNT = VOLUME_SIZE div CLUSTER_SIZE"
definition FIRST_CLUSTER :: nat where "FIRST_CLUSTER = 2"
definition CLUS_INDEX :: nat where "CLUS_INDEX = 2"
definition CLUS_INFO :: nat where "CLUS_INFO = 3"
definition CLUS_CRASH_START :: nat where "CLUS_CRASH_START = 4"
definition XXD_CHARS_PER_BYTE :: nat where "XXD_CHARS_PER_BYTE = 4"
definition BYTES_DUMPED_PER_SECTOR :: nat where
  "BYTES_DUMPED_PER_SECTOR = SECTOR_SIZE div XXD_CHARS_PER_BYTE"
definition BYTES_DUMPED_PER_CLUSTER :: nat where
  "BYTES_DUMPED_PER_CLUSTER = CLUSTER_SIZE div XXD_CHARS_PER_BYTE"
definition CLUS_CRASH_LAST :: "addressmap \<Rightarrow> nat" where
  "CLUS_CRASH_LAST am = CLUS_CRASH_START + MEM_SIZE am div BYTES_DUMPED_PER_CLUSTER"
definition CRASH_LEN :: "addressmap \<Rightarrow> nat" where
  "CRASH_LEN am = XXD_CHARS_PER_BYTE * MEM_SIZE am"
definition VOLUME_SECTOR_COUNT :: nat where "VOLUME_SECTOR_COUNT = SECTOR_COUNT - 1"
definition FAT_COUNT :: nat where "FAT_COUNT = 2"
definition MAX_ROOT_DIRECTORY_ENTRIES :: nat where "MAX_ROOT_DIRECTORY_ENTRIES = 512"
definition ROOT_DIRECTORY_SECTORS :: nat where
  "ROOT_DIRECTORY_SECTORS = MAX_ROOT_DIRECTORY_ENTRIES * 32 div SECTOR_SIZE"
definition SECTORS_PER_FAT :: nat where
  "SECTORS_PER_FAT = 2 * (CLUSTER_COUNT + SECTOR_SIZE - 1) div SECTOR_SIZE"
definition MEDIA_TYPE :: u8 where "MEDIA_TYPE = 0xf8"

lemmas disk_size_defs = SECTOR_SIZE_def CLUSTER_UP_SHIFT_def CLUSTER_UP_MUL_def VOLUME_SIZE_def
  SECTOR_COUNT_def CLUSTER_SIZE_def CLUSTER_SHIFT_def CLUSTER_COUNT_def FIRST_CLUSTER_def
  CLUS_INDEX_def CLUS_INFO_def CLUS_CRASH_START_def XXD_CHARS_PER_BYTE_def
  BYTES_DUMPED_PER_SECTOR_def BYTES_DUMPED_PER_CLUSTER_def VOLUME_SECTOR_COUNT_def FAT_COUNT_def
  MAX_ROOT_DIRECTORY_ENTRIES_def ROOT_DIRECTORY_SECTORS_def SECTORS_PER_FAT_def

lemma disk_sizes:
  "SECTOR_SIZE = 512" "CLUSTER_SIZE = 4096" "CLUSTER_SHIFT = 3" "SECTOR_COUNT = 262144"
  "CLUSTER_COUNT = 32768" "FIRST_CLUSTER = 2" "CLUS_INDEX = 2" "CLUS_INFO = 3" "CLUS_CRASH_START = 4"
  "XXD_CHARS_PER_BYTE = 4"
  "BYTES_DUMPED_PER_SECTOR = 128" "BYTES_DUMPED_PER_CLUSTER = 1024" "VOLUME_SECTOR_COUNT = 262143"
  "FAT_COUNT = 2" "MAX_ROOT_DIRECTORY_ENTRIES = 512" "ROOT_DIRECTORY_SECTORS = 32"
  "SECTORS_PER_FAT = 129"
  by (simp_all add: disk_size_defs)

subsection \<open>The boot sector and the partition table\<close>

definition lsb_hword :: "nat \<Rightarrow> bytes" where
  "lsb_hword x = [of_nat x AND 0xff, of_nat (x div 2 ^ 8) AND 0xff]"

definition lsb_word :: "nat \<Rightarrow> bytes" where
  "lsb_word x = [of_nat x AND 0xff, of_nat (x div 2 ^ 8) AND 0xff,
                 of_nat (x div 2 ^ 16) AND 0xff, of_nat (x div 2 ^ 24) AND 0xff]"

definition boot_sector :: bytes where
  "boot_sector =
     [0xeb, 0x3c, 0x90] @
     ascii_bytes ''MSWIN4.1'' @
     lsb_hword 512 @
     [of_nat (CLUSTER_SIZE div SECTOR_SIZE)] @
     lsb_hword 1 @
     [of_nat FAT_COUNT] @
     lsb_hword MAX_ROOT_DIRECTORY_ENTRIES @
     (if VOLUME_SECTOR_COUNT < 65536 then lsb_hword VOLUME_SECTOR_COUNT else lsb_hword 0) @
     [MEDIA_TYPE] @
     lsb_hword SECTORS_PER_FAT @
     lsb_hword 1 @
     lsb_hword 1 @
     lsb_word (SECTOR_COUNT - VOLUME_SECTOR_COUNT) @
     (if VOLUME_SECTOR_COUNT \<ge> 65536 then lsb_word VOLUME_SECTOR_COUNT else lsb_word 0) @
     [0, 0, 0x29] @
     [0, 0, 0, 0] @
     ascii_bytes ''RPI-RP2    '' @
     ascii_bytes ''FAT16   '' @
     [0xeb, 0xfe]"

definition BOOT_OFFSET_SERIAL_NUMBER :: nat where "BOOT_OFFSET_SERIAL_NUMBER = 0x27"
definition BOOT_OFFSET_LABEL :: nat where "BOOT_OFFSET_LABEL = 0x2b"
definition MBR_OFFSET_SERIAL_NUMBER :: nat where "MBR_OFFSET_SERIAL_NUMBER = 0x1b8"
definition PT_FAT16_LBA :: u8 where "PT_FAT16_LBA = 0xe"
definition ATTR_READONLY :: u8 where "ATTR_READONLY = 0x01"
definition ATTR_VOLUME_LABEL :: u8 where "ATTR_VOLUME_LABEL = 0x08"
definition ATTR_ARCHIVE :: u8 where "ATTR_ARCHIVE = 0x20"

definition ptable_data4 :: bytes where
  "ptable_data4 =
     [PT_FAT16_LBA, 0, 0, 0] @ lsb_word 1 @
     [of_nat (SECTOR_COUNT - 1) AND 0xff, of_nat ((SECTOR_COUNT - 1) div 2 ^ 8) AND 0xff,
      of_nat ((SECTOR_COUNT - 1) div 2 ^ 16) AND 0xff]"

definition vd_read_mbr :: "u32 \<Rightarrow> bytes \<Rightarrow> bytes option" where
  "vd_read_mbr sn buf = do {
     let ptable = SECTOR_SIZE - 2 - 64;
     buf \<leftarrow> store_list (ptable + 4) ptable_data4 buf;
     buf \<leftarrow> store (ptable + 64) 0x55 buf;
     buf \<leftarrow> store (ptable + 65) 0xaa buf;
     store_list MBR_OFFSET_SERIAL_NUMBER (le32 sn) buf
   }"

definition vd_read_boot_sector :: "u32 \<Rightarrow> bytes \<Rightarrow> bytes option" where
  "vd_read_boot_sector sn buf = do {
     buf \<leftarrow> store_list 0 boot_sector buf;
     store_list BOOT_OFFSET_SERIAL_NUMBER (le32 sn) buf
   }"

subsection \<open>The file allocation table\<close>

text \<open>\<open>p[index++] = v\<close>\<close>

definition fat_put :: "u16 \<Rightarrow> nat \<times> bytes \<Rightarrow> (nat \<times> bytes) option" where
  "fat_put v = (\<lambda>(index, buf). map_option (Pair (index + 1)) (store_list (2 * index) (le16 v) buf))"

text \<open>Both copies of the table are the same: \<open>while (lba >= SECTORS_PER_FAT) lba -= SECTORS_PER_FAT\<close>\<close>

function fat_mirror :: "nat \<Rightarrow> nat" where
  "fat_mirror lba = (if SECTORS_PER_FAT \<le> lba then fat_mirror (lba - SECTORS_PER_FAT) else lba)"
  by pat_completeness auto
termination
  by (relation "measure id") (auto simp: disk_sizes)

declare fat_mirror.simps [simp del]

lemma fat_mirror_mod: "fat_mirror lba = lba mod SECTORS_PER_FAT"
  by (induction lba rule: fat_mirror.induct) (subst fat_mirror.simps, simp add: le_mod_geq disk_sizes)

text \<open>The argument is the sector number in either copy of the table.\<close>

definition vd_read_fat :: "addressmap \<Rightarrow> nat \<Rightarrow> bytes \<Rightarrow> bytes option" where
  "vd_read_fat am lba0 buf = do {
     let lba = fat_mirror lba0;
     s \<leftarrow> foldM fat_put
            (if lba = 0 then [0xff00 OR ucast MEDIA_TYPE, 0xffff, 0xffff, 0xffff] else []) (0, buf);
     let min_index = lba * (SECTOR_SIZE div 2);
     let max_index = min_index + SECTOR_SIZE div 2 - 1;
     (index, buf) \<leftarrow>
       foldM (\<lambda>clus_crash. fat_put (of_nat (clus_crash + 1)))
         [max min_index CLUS_CRASH_START..<Suc (min max_index (CLUS_CRASH_LAST am))] s;
     if (of_nat index - 1 :: u32) = of_nat (CLUS_CRASH_LAST am)
     then store_list (2 * (index - 1)) (le16 0xffff) buf else Some buf
   }"

subsection \<open>The root directory\<close>

record dir_entry =
  de_name :: bytes
  de_attr :: u8
  de_reserved :: u8
  de_creation_time_frac :: u8
  de_creation_time :: u16
  de_creation_date :: u16
  de_last_access_date :: u16
  de_cluster_hi :: u16
  de_last_modified_time :: u16
  de_last_modified_date :: u16
  de_cluster_lo :: u16
  de_size :: u32

definition dir_entry_bytes :: "dir_entry \<Rightarrow> bytes" where
  "dir_entry_bytes e =
     de_name e @ [de_attr e, de_reserved e, de_creation_time_frac e] @
     le16 (de_creation_time e) @ le16 (de_creation_date e) @ le16 (de_last_access_date e) @
     le16 (de_cluster_hi e) @ le16 (de_last_modified_time e) @ le16 (de_last_modified_date e) @
     le16 (de_cluster_lo e) @ le32 (de_size e)"

text \<open>An entry in the cleared sector.\<close>

definition zero_dir_entry :: dir_entry where
  "zero_dir_entry =
     \<lparr> de_name = replicate 11 0, de_attr = 0, de_reserved = 0, de_creation_time_frac = 0,
       de_creation_time = 0, de_creation_date = 0, de_last_access_date = 0, de_cluster_hi = 0,
       de_last_modified_time = 0, de_last_modified_date = 0, de_cluster_lo = 0, de_size = 0 \<rparr>"

definition RASPBERRY_PI_TIME_FRAC :: u8 where "RASPBERRY_PI_TIME_FRAC = 100"
definition RASPBERRY_PI_TIME :: u16 where
  "RASPBERRY_PI_TIME = push_bit 11 16 OR push_bit 5 20 OR drop_bit 1 51"
definition RASPBERRY_PI_DATE :: u16 where
  "RASPBERRY_PI_DATE = push_bit 9 28 OR push_bit 5 9 OR 5"

definition init_dir_entry :: "bytes \<Rightarrow> nat \<Rightarrow> nat \<Rightarrow> dir_entry \<Rightarrow> dir_entry" where
  "init_dir_entry fn cluster len entry =
     entry\<lparr> de_creation_time_frac := RASPBERRY_PI_TIME_FRAC,
            de_creation_time := RASPBERRY_PI_TIME,
            de_creation_date := RASPBERRY_PI_DATE,
            de_last_modified_time := RASPBERRY_PI_TIME,
            de_last_modified_date := RASPBERRY_PI_DATE,
            de_name := take 11 fn,
            de_attr := ATTR_READONLY OR ATTR_ARCHIVE,
            de_cluster_lo := of_nat cluster,
            de_size := of_nat len \<rparr>"

definition root_entries :: "addressmap \<Rightarrow> generated \<Rightarrow> dir_entry list" where
  "root_entries am gen =
     [ zero_dir_entry\<lparr> de_name := take 11 (drop BOOT_OFFSET_LABEL boot_sector),
                       de_attr := ATTR_VOLUME_LABEL OR ATTR_ARCHIVE \<rparr>,
       init_dir_entry (ascii_bytes ''INDEX   HTM'') CLUS_INDEX (welcome_html_len gen) zero_dir_entry,
       init_dir_entry (ascii_bytes ''INFO_UF2TXT'') CLUS_INFO (length (info_uf2_txt gen)) zero_dir_entry,
       init_dir_entry (ascii_bytes ''CRASHDMPXXD'') CLUS_CRASH_START (CRASH_LEN am) zero_dir_entry ]"

definition vd_read_root :: "addressmap \<Rightarrow> generated \<Rightarrow> nat \<Rightarrow> bytes \<Rightarrow> bytes option" where
  "vd_read_root am gen lba buf =
     (if lba = 0 then store_list 0 (concat (map dir_entry_bytes (root_entries am gen))) buf
      else Some buf)"

subsection \<open>The files\<close>

definition vd_read_data ::
    "addressmap \<Rightarrow> generated \<Rightarrow> bytes \<Rightarrow> memory \<Rightarrow> nat \<Rightarrow> bytes \<Rightarrow> bytes option" where
  "vd_read_data am gen serial_number_string m lba buf = do {
     let cluster = lba div 2 ^ CLUSTER_SHIFT + FIRST_CLUSTER;
     let cluster_offset = lba mod 2 ^ CLUSTER_SHIFT;
     buf \<leftarrow>
       (if cluster_offset = 0 then
          if cluster = CLUS_INDEX then do {
            buf \<leftarrow> poor_mans_text_decompress (welcome_html_z gen) buf;
            buf \<leftarrow> store_list (welcome_html_version_offset_1 gen) (take 12 serial_number_string) buf;
            store_list (welcome_html_version_offset_2 gen) (take 12 serial_number_string) buf
          }
          else if cluster = CLUS_INFO then store_list 0 (info_uf2_txt gen) buf
          else Some buf
        else Some buf);
     if CLUS_CRASH_START \<le> cluster \<and> cluster \<le> CLUS_CRASH_LAST am
     then xxd m (SRAM_BASE am + of_nat ((cluster - CLUS_CRASH_START) * BYTES_DUMPED_PER_CLUSTER)
                              + of_nat (cluster_offset * BYTES_DUMPED_PER_SECTOR)) buf
     else Some buf
   }"

text \<open>
  The handler.  It returns whether the operation is asynchronous (it never is), the filled buffer and
  the state of the volume serial number; \<open>now\<close> is the time, should this be the first use of it.
\<close>

definition vd_read_block ::
    "addressmap \<Rightarrow> generated \<Rightarrow> bytes \<Rightarrow> memory \<Rightarrow> u32 \<Rightarrow> u32 \<Rightarrow> bytes \<Rightarrow> boot_device_state \<Rightarrow>
     (bool \<times> bytes \<times> boot_device_state) option" where
  "vd_read_block am gen serial_number_string m now lba0 buf bds = do {
     buf \<leftarrow> store_list 0 (replicate SECTOR_SIZE 0) buf;
     let lba = unat lba0;
     if lba = 0 then do {
       let (sn, bds) = msc_get_serial_number32 now bds;
       buf \<leftarrow> vd_read_mbr sn buf;
       Some (False, buf, bds)
     }
     else if lba - 1 = 0 then do {
       let (sn, bds) = msc_get_serial_number32 now bds;
       buf \<leftarrow> vd_read_boot_sector sn buf;
       Some (False, buf, bds)
     }
     else do {
       let lba = lba - 2;
       buf \<leftarrow>
         (if lba < SECTORS_PER_FAT * FAT_COUNT then vd_read_fat am lba buf
          else let lba = lba - SECTORS_PER_FAT * FAT_COUNT in
            if lba < ROOT_DIRECTORY_SECTORS then vd_read_root am gen lba buf
            else vd_read_data am gen serial_number_string m (lba - ROOT_DIRECTORY_SECTORS) buf);
       Some (False, buf, bds)
     }
   }"


subsection \<open>Tables of half words\<close>

definition u16s :: "u16 list \<Rightarrow> bytes" where
  "u16s vs = concat (map le16 vs)"

lemma length_u16s [simp]: "length (u16s vs) = 2 * length vs"
  by (induction vs) (simp_all add: u16s_def)

lemma u16s_append: "u16s (vs @ ws) = u16s vs @ u16s ws"
  by (simp add: u16s_def)

lemma take_u16s: "take (2 * i) (u16s vs) = u16s (take i vs)"
proof (induction vs arbitrary: i)
  case (Cons v vs)
  then show ?case by (cases i) (simp_all add: u16s_def)
qed (simp add: u16s_def)

lemma drop_u16s: "drop (2 * i) (u16s vs) = u16s (drop i vs)"
proof (induction vs arbitrary: i)
  case (Cons v vs)
  then show ?case by (cases i) (simp_all add: u16s_def)
qed (simp add: u16s_def)

lemma u16s_zero: "u16s (replicate n 0) = replicate (2 * n) 0"
  by (induction n) (simp_all add: u16s_def le16_def)

lemma store_u16s:
  assumes "i + length vs \<le> length ws"
  shows "store_list (2 * i) (u16s vs) (u16s ws) =
         Some (u16s (take i ws @ vs @ drop (i + length vs) ws))"
proof -
  have "2 * i + length (u16s vs) = 2 * (i + length vs)" by simp
  then show ?thesis
    using assms unfolding store_list_def u16s_append
    by (simp only: take_u16s drop_u16s) simp
qed

lemma foldM_fat_put:
  assumes "i + length vs \<le> length ws"
  shows "foldM fat_put vs (i, u16s ws) =
         Some (i + length vs, u16s (take i ws @ vs @ drop (i + length vs) ws))"
  using assms
proof (induction vs arbitrary: i ws)
  case Nil
  then show ?case by simp
next
  case (Cons v vs)
  have "store_list (2 * i) (le16 v) (u16s ws) = Some (u16s (take i ws @ [v] @ drop (i + 1) ws))"
    using store_u16s [of i "[v]" ws] Cons.prems by (simp add: u16s_def)
  then have "foldM fat_put (v # vs) (i, u16s ws) =
      foldM fat_put vs (i + 1, u16s (take i ws @ [v] @ drop (i + 1) ws))"
    by (simp add: fat_put_def)
  also have "\<dots> = Some (i + length (v # vs), u16s (take i ws @ (v # vs) @ drop (i + length (v # vs)) ws))"
    using Cons.IH [of "i + 1" "take i ws @ [v] @ drop (i + 1) ws"] Cons.prems by (simp add: min_def add.commute [of i])
  finally show ?case .
qed

lemma of_le16_u16s: "i < length vs \<Longrightarrow> of_le16 (drop (2 * i) (u16s vs)) = vs ! i"
  by (simp add: drop_u16s) (simp add: Cons_nth_drop_Suc [symmetric] u16s_def)

subsection \<open>The table as a value\<close>

definition fat_entry :: "addressmap \<Rightarrow> nat \<Rightarrow> u16" where
  "fat_entry am c =
     (if c = 0 then 0xfff8 else if c < CLUS_CRASH_START then 0xffff
      else if c = CLUS_CRASH_LAST am \<and> c < 256 then 0xffff
      else if c \<le> CLUS_CRASH_LAST am then of_nat (c + 1) else 0)"

definition fat_text :: "addressmap \<Rightarrow> nat \<Rightarrow> bytes" where
  "fat_text am lba = u16s (map (fat_entry am) [256 * lba..<256 * lba + 256])"

lemma CLUS_CRASH_LAST_bounds: "4 \<le> CLUS_CRASH_LAST am" "CLUS_CRASH_LAST am < 2 ^ 23"
proof -
  have "MEM_SIZE am < 2 ^ 32"
    unfolding MEM_SIZE_def using unsigned_less [of "SRAM_END am - SRAM_BASE am"] by simp
  then have "MEM_SIZE am div 1024 < 2 ^ 22" by (simp add: less_mult_imp_div_less)
  then show "4 \<le> CLUS_CRASH_LAST am" "CLUS_CRASH_LAST am < 2 ^ 23"
    by (simp_all add: CLUS_CRASH_LAST_def disk_sizes)
qed

text \<open>When the last entry is patched: the index is relative to the sector.\<close>

lemma fat_patch_cond:
  assumes "n \<le> 256"
  shows "(of_nat n - 1 :: u32) = of_nat (CLUS_CRASH_LAST am) \<longleftrightarrow> n = CLUS_CRASH_LAST am + 1"
proof -
  let ?L = "CLUS_CRASH_LAST am"
  have "(of_nat n - 1 :: u32) = of_nat ?L \<longleftrightarrow> (of_nat n :: u32) = of_nat (?L + 1)"
    by (auto simp: algebra_simps)
  also have "\<dots> \<longleftrightarrow> n = ?L + 1"
    using assms CLUS_CRASH_LAST_bounds [of am]
    by (simp only: word_of_nat_eq_iff) (simp add: take_bit_eq_mod)
  finally show ?thesis .
qed


text \<open>The clusters of the dump that a sector of the table holds.\<close>

definition fat_crash_range :: "addressmap \<Rightarrow> nat \<Rightarrow> nat list" where
  "fat_crash_range am lba =
     [max (256 * lba) CLUS_CRASH_START..<Suc (min (256 * lba + 255) (CLUS_CRASH_LAST am))]"

definition fat_head :: "nat \<Rightarrow> u16 list" where
  "fat_head lba = (if lba = 0 then [0xfff8, 0xffff, 0xffff, 0xffff] else [])"

lemma fat_values:
  fixes am lba
  defines "vs \<equiv> fat_head lba @ map (\<lambda>c. of_nat (c + 1)) (fat_crash_range am lba)"
  shows "length vs = min 256 (CLUS_CRASH_LAST am + 1 - 256 * lba)"
    and "j < length vs \<Longrightarrow> vs ! j = (if 256 * lba + j = 0 then 0xfff8
           else if 256 * lba + j < 4 then 0xffff else of_nat (256 * lba + j + 1))"
proof -
  have L: "4 \<le> CLUS_CRASH_LAST am" by (rule CLUS_CRASH_LAST_bounds)
  show len: "length vs = min 256 (CLUS_CRASH_LAST am + 1 - 256 * lba)"
    using L by (cases "lba = 0")
      (auto simp: vs_def fat_head_def fat_crash_range_def disk_sizes min_def max_def)
  show "j < length vs \<Longrightarrow> vs ! j = (if 256 * lba + j = 0 then 0xfff8
           else if 256 * lba + j < 4 then 0xffff else of_nat (256 * lba + j + 1))"
  proof (cases "lba = 0")
    case True
    assume "j < length vs"
    moreover have "j = 0 \<or> j = 1 \<or> j = 2 \<or> j = 3 \<or> 4 \<le> j" by linarith
    ultimately show ?thesis
      using L True unfolding len
      by (auto simp: vs_def fat_head_def fat_crash_range_def disk_sizes nth_append nth_Cons'
          simp del: upt_Suc)
  next
    case False
    assume "j < length vs"
    then have "256 * lba + j < Suc (min (256 * lba + 255) (CLUS_CRASH_LAST am))"
      unfolding len by auto
    then have "[256 * lba..<Suc (min (256 * lba + 255) (CLUS_CRASH_LAST am))] ! j = 256 * lba + j"
      by (rule nth_upt)
    with \<open>j < length vs\<close> show ?thesis
      using False by (simp add: vs_def fat_head_def fat_crash_range_def disk_sizes max_def add.assoc
          del: upt_Suc)
  qed
qed

lemma vd_read_fat_text:
  assumes "lba0 < SECTORS_PER_FAT * FAT_COUNT"
  shows "vd_read_fat am lba0 (replicate 512 0) = Some (fat_text am (lba0 mod SECTORS_PER_FAT))"
proof -
  define lba where "lba = lba0 mod SECTORS_PER_FAT"
  define vs where "vs = fat_head lba @ map (\<lambda>c. of_nat (c + 1)) (fat_crash_range am lba)"
  let ?n = "length vs" and ?L = "CLUS_CRASH_LAST am"
  define ws where "ws = vs @ replicate (256 - ?n) 0"
  note len = fat_values(1) [where am = am and lba = lba, folded vs_def]
    and nth = fat_values(2) [where am = am and lba = lba, folded vs_def]
  have n: "?n \<le> 256" unfolding len by simp
  have len_ws: "length ws = 256" using n by (simp add: ws_def)
  have zero: "(replicate 512 0 :: bytes) = u16s (replicate 256 0)" by (simp add: u16s_zero)
  have head: "(if lba = 0 then [0xff00 OR ucast MEDIA_TYPE, 0xffff, 0xffff, 0xffff] else []) = fat_head lba"
    by (simp add: fat_head_def MEDIA_TYPE_def)
  have "foldM fat_put vs (0, u16s (replicate 256 0)) = Some (?n, u16s ws)"
    using foldM_fat_put [of 0 vs "replicate 256 0"] n by (simp add: ws_def)
  moreover have "foldM (\<lambda>c. fat_put (of_nat (c + 1))) xs = foldM fat_put (map (\<lambda>c. of_nat (c + 1)) xs)"
    for xs by (rule ext) (simp only: foldM_map)
  ultimately have fill: "Option.bind (foldM fat_put (fat_head lba) (0, u16s (replicate 256 0)))
      (foldM (\<lambda>c. fat_put (of_nat (c + 1))) (fat_crash_range am lba)) = Some (?n, u16s ws)"
    by (simp only: vs_def foldM_append)
  have patched: "(if (of_nat ?n - 1 :: u32) = of_nat ?L
      then store_list (2 * (?n - 1)) (le16 0xffff) (u16s ws) else Some (u16s ws)) = Some (fat_text am lba)"
  proof (cases "?n = ?L + 1")
    case True
    then have "lba = 0" and "?L < 256" unfolding len by (cases lba; simp)+
    have "ws[?L := 0xffff] = map (fat_entry am) [256 * lba..<256 * lba + 256]"
      by (rule nth_equalityI)
        (use nth len len_ws \<open>lba = 0\<close> \<open>?L < 256\<close> CLUS_CRASH_LAST_bounds [of am] True in
          \<open>auto simp: ws_def nth_append nth_list_update fat_entry_def disk_sizes simp del: upt_Suc\<close>)
    then show ?thesis
      using store_u16s [of ?L "[0xffff]" ws] len_ws \<open>?L < 256\<close> True
      by (simp add: fat_patch_cond [OF n] fat_text_def upd_conv_take_nth_drop u16s_def)
  next
    case False
    then have "\<not> ?L < 256 \<or> lba \<noteq> 0" unfolding len by (cases lba) auto
    then have "ws = map (fat_entry am) [256 * lba..<256 * lba + 256]"
      by (intro nth_equalityI)
        (use nth len len_ws in
          \<open>auto simp: ws_def nth_append fat_entry_def disk_sizes simp del: upt_Suc\<close>)
    then show ?thesis using False by (simp add: fat_patch_cond [OF n] fat_text_def)
  qed
  have "vd_read_fat am lba0 (replicate 512 0) =
      Option.bind (Option.bind (foldM fat_put (fat_head lba) (0, u16s (replicate 256 0)))
        (foldM (\<lambda>c. fat_put (of_nat (c + 1))) (fat_crash_range am lba)))
        (\<lambda>(index, buf). if (of_nat index - 1 :: u32) = of_nat ?L
           then store_list (2 * (index - 1)) (le16 0xffff) buf else Some buf)"
    unfolding vd_read_fat_def Let_def fat_mirror_mod lba_def [symmetric] head zero bind_assoc
      fat_crash_range_def by (simp add: disk_sizes ac_simps del: upt_Suc)
  then show ?thesis unfolding fill lba_def [symmetric] using patched by simp
qed

end
