(* ===== verification/Usb_Msc.thy ===== *)
theory Usb_Msc
  imports Usb_Stream Virtual_Disk
begin

text \<open>
  \<open>usb_device_tiny/usb_msc.c\<close> and \<open>scsi.h\<close>: the mass storage class, bulk only.  A command comes in a
  packet of 31 bytes on the OUT endpoint; after an optional data phase a status of 13 bytes goes out on the
  IN endpoint.  Where the lengths of the command and of the host disagree, an endpoint is stalled before the
  status.
\<close>

subsection \<open>Data\<close>

definition CBW_SIG :: u32 where "CBW_SIG = 0x43425355"
definition CSW_SIG :: u32 where "CSW_SIG = 0x53425355"

record scsi_cbw =
  cbw_sig :: u32
  cbw_tag :: u32
  data_transfer_length :: u32
  cbw_flags :: u8
  cbw_lun :: u8
  cb_length :: u8
  cbw_cb :: bytes

definition parse_cbw :: "bytes \<Rightarrow> scsi_cbw" where
  "parse_cbw b =
     \<lparr> cbw_sig = of_le32 b, cbw_tag = of_le32 (drop 4 b), data_transfer_length = of_le32 (drop 8 b),
       cbw_flags = b ! 12, cbw_lun = b ! 13, cb_length = b ! 14, cbw_cb = take 16 (drop 15 b) \<rparr>"

record scsi_csw =
  csw_sig :: u32
  csw_tag :: u32
  residue :: u32
  csw_status :: u8

definition csw_bytes :: "scsi_csw \<Rightarrow> bytes" where
  "csw_bytes c = le32 (csw_sig c) @ le32 (csw_tag c) @ le32 (residue c) @ [csw_status c]"

definition CSW_STATUS_COMMAND_PASSED :: u8 where "CSW_STATUS_COMMAND_PASSED = 0"
definition CSW_STATUS_COMMAND_FAILED :: u8 where "CSW_STATUS_COMMAND_FAILED = 1"
definition CSW_STATUS_PHASE_ERROR :: u8 where "CSW_STATUS_PHASE_ERROR = 2"

lemmas csw_statuses = CSW_STATUS_COMMAND_PASSED_def CSW_STATUS_COMMAND_FAILED_def CSW_STATUS_PHASE_ERROR_def

definition INQUIRY :: u8 where "INQUIRY = 0x12"
definition MODE_SENSE_6 :: u8 where "MODE_SENSE_6 = 0x1a"
definition PREVENT_ALLOW_MEDIUM_REMOVAL :: u8 where "PREVENT_ALLOW_MEDIUM_REMOVAL = 0x1e"
definition READ_10 :: u8 where "READ_10 = 0x28"
definition READ_FORMAT_CAPACITIES :: u8 where "READ_FORMAT_CAPACITIES = 0x23"
definition READ_CAPACITY_10 :: u8 where "READ_CAPACITY_10 = 0x25"
definition REQUEST_SENSE :: u8 where "REQUEST_SENSE = 0x03"
definition START_STOP_UNIT :: u8 where "START_STOP_UNIT = 0x1b"
definition SYNCHRONIZE_CACHE :: u8 where "SYNCHRONIZE_CACHE = 0x35"
definition TEST_UNIT_READY :: u8 where "TEST_UNIT_READY = 0x00"
definition VERIFY :: u8 where "VERIFY = 0x2f"
definition WRITE_10 :: u8 where "WRITE_10 = 0x2a"

lemmas scsi_cmds = INQUIRY_def MODE_SENSE_6_def PREVENT_ALLOW_MEDIUM_REMOVAL_def READ_10_def
  READ_FORMAT_CAPACITIES_def READ_CAPACITY_10_def REQUEST_SENSE_def START_STOP_UNIT_def
  SYNCHRONIZE_CACHE_def TEST_UNIT_READY_def VERIFY_def WRITE_10_def

definition SK_OK :: u8 where "SK_OK = 0x00"
definition SK_NOT_READY :: u8 where "SK_NOT_READY = 0x02"
definition SK_ILLEGAL_REQUEST :: u8 where "SK_ILLEGAL_REQUEST = 0x05"
definition SK_DATA_PROTECT :: u8 where "SK_DATA_PROTECT = 0x07"
definition ASC_INVALID_COMMAND_OPERATION_CODE :: u8 where "ASC_INVALID_COMMAND_OPERATION_CODE = 0x20"
definition ASC_ACCESS_DENIED :: u8 where "ASC_ACCESS_DENIED = 0x20"
definition ASC_MEDIUM_NOT_PRESENT :: u8 where "ASC_MEDIUM_NOT_PRESENT = 0x3a"
definition ASCQ_NA :: u8 where "ASCQ_NA = 0x00"

lemmas scsi_sense = SK_OK_def SK_NOT_READY_def SK_ILLEGAL_REQUEST_def SK_DATA_PROTECT_def
  ASC_INVALID_COMMAND_OPERATION_CODE_def ASC_ACCESS_DENIED_def ASC_MEDIUM_NOT_PRESENT_def ASCQ_NA_def

text \<open>The fields that are never written are zero.\<close>

record scsi_request_sense_response =
  sense_code :: u8
  sense_key :: u8
  additional_sense_len :: u8
  sense_asc :: u8
  sense_ascq :: u8

definition request_sense_bytes :: "scsi_request_sense_response \<Rightarrow> bytes" where
  "request_sense_bytes r =
     [sense_code r, 0, sense_key r, 0, 0, 0, 0, additional_sense_len r, 0, 0, 0, 0,
      sense_asc r, sense_ascq r, 0, 0, 0, 0]"

datatype scsi_direction = SCSI_DIR_NONE | SCSI_DIR_IN | SCSI_DIR_OUT

text \<open>The field \<open>ejected\<close> is in the state already.\<close>

record msc_state =
  csw :: scsi_csw
  request_sense :: scsi_request_sense_response
  data_phase_length :: u32
  stall_direction_before_csw :: scsi_direction
  send_csw_on_unstall :: bool

definition zero_msc_state :: msc_state where
  "zero_msc_state =
     \<lparr> csw = \<lparr>csw_sig = 0, csw_tag = 0, residue = 0, csw_status = 0\<rparr>,
       request_sense = \<lparr>sense_code = 0, sense_key = 0, additional_sense_len = 0, sense_asc = 0, sense_ascq = 0\<rparr>,
       data_phase_length = 0, stall_direction_before_csw = SCSI_DIR_NONE, send_csw_on_unstall = False \<rparr>"

record usb_msc_state = stream_state +
  msc :: msc_state
  msc_async_token :: u32
  msc_lba :: u32
  msc_one_time :: bool
  serial_number_string :: bytes
  timerawl :: u32

text \<open>
  What the program is linked with: the address map, the generated data, the constants of the UF2 and PICOBOOT
  headers, the address of the reboot wrapper.
\<close>

record program =
  prog_am :: addressmap
  prog_gen :: generated
  prog_uf2 :: uf2_consts
  prog_pb :: picoboot_consts
  prog_wrapper :: u32

definition upd_msc :: "(msc_state \<Rightarrow> msc_state) \<Rightarrow> 'a usb_msc_state_scheme \<Rightarrow> 'a usb_msc_state_scheme" where
  "upd_msc f s = s\<lparr>msc := f (msc s)\<rparr>"

subsection \<open>The status phase\<close>

text \<open>\<open>usb_get_single_packet_response_buffer\<close> of \<open>bootrom/usb_boot_device.c\<close>\<close>

definition usb_get_single_packet_response_buffer ::
    "epid \<Rightarrow> nat \<Rightarrow> 'a usb_state_scheme \<Rightarrow> 'a usb_state_scheme option" where
  "usb_get_single_packet_response_buffer e len s = do {
     let s = usb_current_packet_buffer e s;
     s \<leftarrow> dpram_store (buf_data (current_buffer e s)) (replicate len 0) s;
     Some (set_buffer_len e (of_nat len) s)
   }"

definition respond :: "epid \<Rightarrow> bytes \<Rightarrow> 'a usb_state_scheme \<Rightarrow> 'a usb_state_scheme option" where
  "respond e bs s = do {
     s \<leftarrow> usb_get_single_packet_response_buffer e (length bs) s;
     dpram_store (buf_data (current_buffer e s)) bs s
   }"

definition msc_reset_and_start_cmd_response_transfer ::
    "'a usb_msc_state_scheme caller \<Rightarrow> completed_func \<Rightarrow> 'a usb_msc_state_scheme \<Rightarrow> 'a usb_msc_state_scheme option" where
  "msc_reset_and_start_cmd_response_transfer cb f =
     usb_reset_and_start_transfer cb Msc_in Msc_cmd_response_transfer Current_packet_only (Some f)"

definition msc_send_csw ::
    "'a usb_msc_state_scheme caller \<Rightarrow> 'a usb_msc_state_scheme \<Rightarrow> 'a usb_msc_state_scheme option" where
  "msc_send_csw cb s = do {
     let s = upd_msc (send_csw_on_unstall_update (\<lambda>_. False)) s;
     s \<leftarrow> respond Msc_in (csw_bytes (csw (msc s))) s;
     msc_reset_and_start_cmd_response_transfer cb Tf_wait_command s
   }"

text \<open>The OUT endpoint is found behind the IN endpoint in their array.\<close>

definition tf_wait_command ::
    "'a usb_msc_state_scheme caller \<Rightarrow> epid \<Rightarrow> 'a usb_msc_state_scheme \<Rightarrow> 'a usb_msc_state_scheme option" where
  "tf_wait_command cb e s =
     (if e = Msc_in then usb_start_default_transfer_if_not_already_running_or_halted cb Msc_out s else None)"

definition set_sense :: "u8 \<Rightarrow> u8 \<Rightarrow> u8 \<Rightarrow> 'a usb_msc_state_scheme \<Rightarrow> 'a usb_msc_state_scheme" where
  "set_sense sk asc ascq =
     upd_msc (request_sense_update (\<lambda>r. r\<lparr>sense_key := sk, sense_asc := asc, sense_ascq := ascq\<rparr>))"

definition set_csw_status :: "u8 \<Rightarrow> 'a usb_msc_state_scheme \<Rightarrow> 'a usb_msc_state_scheme" where
  "set_csw_status st = upd_msc (csw_update (csw_status_update (\<lambda>_. st)))"

definition set_stall_direction :: "scsi_direction \<Rightarrow> 'a usb_msc_state_scheme \<Rightarrow> 'a usb_msc_state_scheme" where
  "set_stall_direction d = upd_msc (stall_direction_before_csw_update (\<lambda>_. d))"

definition reduce_residue :: "u32 \<Rightarrow> 'a usb_msc_state_scheme \<Rightarrow> 'a usb_msc_state_scheme" where
  "reduce_residue n = upd_msc (csw_update (residue_update (\<lambda>r. r - n)))"

definition msc_set_csw_failed :: "u8 \<Rightarrow> u8 \<Rightarrow> u8 \<Rightarrow> 'a usb_msc_state_scheme \<Rightarrow> 'a usb_msc_state_scheme" where
  "msc_set_csw_failed sk asc ascq s = set_sense sk asc ascq (set_csw_status CSW_STATUS_COMMAND_FAILED s)"

definition msc_data_phase_complete ::
    "'a usb_msc_state_scheme caller \<Rightarrow> 'a usb_msc_state_scheme \<Rightarrow> 'a usb_msc_state_scheme option" where
  "msc_data_phase_complete cb s =
     (if stall_direction_before_csw (msc s) = SCSI_DIR_IN then
        let s = set_stall_direction SCSI_DIR_NONE s;
            s = upd_msc (send_csw_on_unstall_update (\<lambda>_. True)) s
        in usb_halt_endpoint cb Msc_in s
      else do {
        s \<leftarrow> (if stall_direction_before_csw (msc s) = SCSI_DIR_OUT
              then usb_halt_endpoint cb Msc_out (set_stall_direction SCSI_DIR_NONE s) else Some s);
        msc_send_csw cb s
      })"

subsection \<open>The data phase\<close>

definition scsi_dir :: "scsi_cbw \<Rightarrow> scsi_direction" where
  "scsi_dir cbw = (if cbw_flags cbw AND USB_DIR_IN \<noteq> 0 then SCSI_DIR_IN else SCSI_DIR_OUT)"

definition msc_init_for_dn ::
    "'a usb_msc_state_scheme caller \<Rightarrow> scsi_cbw \<Rightarrow> 'a usb_msc_state_scheme \<Rightarrow> 'a usb_msc_state_scheme option" where
  "msc_init_for_dn cb cbw s =
     msc_data_phase_complete cb
       (set_stall_direction (if data_transfer_length cbw \<noteq> 0 then scsi_dir cbw else SCSI_DIR_NONE) s)"

text \<open>The decision on the lengths and directions: stall, status, length of the data phase.\<close>

definition di_or_do_decision ::
    "scsi_cbw \<Rightarrow> u32 \<Rightarrow> scsi_direction \<Rightarrow> 'a usb_msc_state_scheme \<Rightarrow> 'a usb_msc_state_scheme" where
  "di_or_do_decision cbw expected dir s =
     (let s = set_stall_direction SCSI_DIR_NONE s;
          s = upd_msc (data_phase_length_update (\<lambda>_. 0)) s
      in if scsi_dir cbw \<noteq> dir
         then set_csw_status CSW_STATUS_PHASE_ERROR (set_stall_direction (scsi_dir cbw) s)
         else
           let s = (if expected \<noteq> data_transfer_length cbw then set_stall_direction dir s else s);
               s = (if expected > data_transfer_length cbw then set_csw_status CSW_STATUS_PHASE_ERROR s else s)
           in upd_msc (data_phase_length_update (\<lambda>_. min expected (data_transfer_length cbw))) s)"

definition msc_init_for_di_or_do ::
    "'a usb_msc_state_scheme caller \<Rightarrow> scsi_cbw \<Rightarrow> u32 \<Rightarrow> scsi_direction \<Rightarrow> 'a usb_msc_state_scheme \<Rightarrow>
     (bool \<times> 'a usb_msc_state_scheme) option" where
  "msc_init_for_di_or_do cb cbw expected dir s =
     (let s = di_or_do_decision cbw expected dir s in
      if data_phase_length (msc s) = 0 then map_option (Pair False) (msc_data_phase_complete cb s)
      else Some (True, s))"

definition scsi_fail_cmd ::
    "'a usb_msc_state_scheme caller \<Rightarrow> scsi_cbw \<Rightarrow> u8 \<Rightarrow> u8 \<Rightarrow> u8 \<Rightarrow> 'a usb_msc_state_scheme \<Rightarrow>
     'a usb_msc_state_scheme option" where
  "scsi_fail_cmd cb cbw sk asc ascq s = msc_init_for_dn cb cbw (msc_set_csw_failed sk asc ascq s)"

definition scsi_standard_response ::
    "'a usb_msc_state_scheme caller \<Rightarrow> scsi_cbw \<Rightarrow> 'a usb_msc_state_scheme \<Rightarrow> 'a usb_msc_state_scheme option" where
  "scsi_standard_response cb cbw s = do {
     let s = usb_current_packet_buffer Msc_in s;
     let n = ucast (buf_data_len (current_buffer Msc_in s));
     (go, s) \<leftarrow> msc_init_for_di_or_do cb cbw (min n (data_transfer_length cbw)) SCSI_DIR_IN s;
     if go then
       let s = set_buffer_len Msc_in (ucast (data_phase_length (msc s))) s;
           s = reduce_residue (ucast (buf_data_len (current_buffer Msc_in s))) s
       in msc_reset_and_start_cmd_response_transfer cb Tf_data_phase_complete s
     else Some s
   }"

subsection \<open>Commands\<close>

text \<open>The compressed response is expanded in the controller's memory.\<close>

definition dpram_decompress :: "bytes \<Rightarrow> nat \<Rightarrow> 'a usb_state_scheme \<Rightarrow> 'a usb_state_scheme option" where
  "dpram_decompress z off s =
     map_option (\<lambda>d. s\<lparr>dpram := take off (dpram s) @ d\<rparr>) (poor_mans_text_decompress z (drop off (dpram s)))"

definition scsi_handle_inquiry_response ::
    "program \<Rightarrow> 'a usb_msc_state_scheme caller \<Rightarrow> scsi_cbw \<Rightarrow> 'a usb_msc_state_scheme \<Rightarrow>
     'a usb_msc_state_scheme option" where
  "scsi_handle_inquiry_response prog cb cbw s = do {
     s \<leftarrow> usb_get_single_packet_response_buffer Msc_in 36 s;
     let buf = buf_data (current_buffer Msc_in s);
     s \<leftarrow> dpram_decompress (scsi_ir_z (prog_gen prog)) buf s;
     s \<leftarrow> dpram_store (buf + 1) [0x80] s;
     scsi_standard_response cb cbw s
   }"

definition scsi_memcpy_response ::
    "'a usb_msc_state_scheme caller \<Rightarrow> scsi_cbw \<Rightarrow> bytes \<Rightarrow> 'a usb_msc_state_scheme \<Rightarrow>
     'a usb_msc_state_scheme option" where
  "scsi_memcpy_response cb cbw bs s = do {
     s \<leftarrow> respond Msc_in bs s;
     scsi_standard_response cb cbw s
   }"

definition be32 :: "u32 \<Rightarrow> bytes" where "be32 x = rev (le32 x)"

definition read_capacity_response :: bytes where
  "read_capacity_response = be32 (of_nat SECTOR_COUNT - 1) @ be32 (of_nat SECTOR_SIZE)"

definition scsi_handle_read_capacity ::
    "'a usb_msc_state_scheme caller \<Rightarrow> scsi_cbw \<Rightarrow> 'a usb_msc_state_scheme \<Rightarrow> 'a usb_msc_state_scheme option" where
  "scsi_handle_read_capacity cb cbw = scsi_memcpy_response cb cbw read_capacity_response"

text \<open>The type is in the first byte of the last word, the block size in its other bytes.\<close>

definition read_format_capacities_response :: bytes where
  "read_format_capacities_response =
     [0, 0, 0, 0] @ be32 (of_nat SECTOR_COUNT - 1) @ le32 (2 OR of_le32 (be32 (of_nat SECTOR_SIZE)))"

definition scsi_handle_read_format_capacities ::
    "'a usb_msc_state_scheme caller \<Rightarrow> scsi_cbw \<Rightarrow> 'a usb_msc_state_scheme \<Rightarrow> 'a usb_msc_state_scheme option" where
  "scsi_handle_read_format_capacities cb cbw = scsi_memcpy_response cb cbw read_format_capacities_response"

definition scsi_handle_request_sense ::
    "'a usb_msc_state_scheme caller \<Rightarrow> scsi_cbw \<Rightarrow> 'a usb_msc_state_scheme \<Rightarrow> 'a usb_msc_state_scheme option" where
  "scsi_handle_request_sense cb cbw s = do {
     s \<leftarrow> respond Msc_in (request_sense_bytes (request_sense (msc s))) s;
     scsi_standard_response cb cbw (set_sense SK_OK 0 0 s)
   }"

definition scsi_handle_mode_sense ::
    "'a usb_msc_state_scheme caller \<Rightarrow> scsi_cbw \<Rightarrow> 'a usb_msc_state_scheme \<Rightarrow> 'a usb_msc_state_scheme option" where
  "scsi_handle_mode_sense cb cbw = scsi_memcpy_response cb cbw (le32 3)"

definition scsi_handle_test_unit_ready ::
    "'a usb_msc_state_scheme caller \<Rightarrow> scsi_cbw \<Rightarrow> 'a usb_msc_state_scheme \<Rightarrow> 'a usb_msc_state_scheme option" where
  "scsi_handle_test_unit_ready cb cbw s =
     (if ejected s then scsi_fail_cmd cb cbw SK_NOT_READY ASC_MEDIUM_NOT_PRESENT ASCQ_NA s
      else msc_init_for_dn cb cbw s)"

definition msc_eject :: "'a usb_msc_state_scheme \<Rightarrow> 'a usb_msc_state_scheme" where
  "msc_eject s = s\<lparr>ejected := True\<rparr>"

definition scsi_handle_start_stop_unit ::
    "'a usb_msc_state_scheme caller \<Rightarrow> scsi_cbw \<Rightarrow> 'a usb_msc_state_scheme \<Rightarrow> 'a usb_msc_state_scheme option" where
  "scsi_handle_start_stop_unit cb cbw s =
     msc_init_for_dn cb cbw (if cbw_cb cbw ! 4 AND 3 = 2 then msc_eject s else s)"

subsection \<open>Reads and writes\<close>

definition msc_on_sector_stream_packet_complete :: "'a usb_msc_state_scheme \<Rightarrow> 'a usb_msc_state_scheme" where
  "msc_on_sector_stream_packet_complete = reduce_residue 64"

text \<open>The result says whether the chunk is completed later.  A write that reboots does not return.\<close>

definition msc_on_sector_stream_chunk ::
    "program \<Rightarrow> 'a usb_msc_state_scheme \<Rightarrow> (bool \<times> 'a usb_msc_state_scheme) option" where
  "msc_on_sector_stream_chunk prog s = do {
     e \<leftarrow> st_ep (streams s Msc_sector_transfer);
     let token = msc_async_token s + 1;
     let lba = msc_lba s;
     let s = s\<lparr>msc_async_token := token, msc_lba := lba + 1\<rparr>;
     if ep_in (endpoints s e) then do {
       (r, buf, bds) \<leftarrow> vd_read_block (prog_am prog) (prog_gen prog) (serial_number_string s) (mem s)
                         (timerawl s) lba (sector_buf s) (boot_device s);
       Some (r, s\<lparr>sector_buf := buf, boot_device := bds\<rparr>)
     }
     else do {
       r \<leftarrow> vd_write_block (prog_am prog) (prog_uf2 prog) (prog_wrapper prog) token lba (sector_buf s) s;
       (case r of Returned async s \<Rightarrow> Some (async, s) | Rebooted _ \<Rightarrow> None)
     }
   }"

definition vd_async_complete ::
    "'a usb_msc_state_scheme caller \<Rightarrow> u32 \<Rightarrow> u32 \<Rightarrow> 'a usb_msc_state_scheme \<Rightarrow> 'a usb_msc_state_scheme option" where
  "vd_async_complete cb token result s =
     (if token = msc_async_token s then do {
        s \<leftarrow> (if result \<noteq> 0 then
                msc_data_phase_complete cb
                  (set_stall_direction SCSI_DIR_OUT (msc_set_csw_failed SK_DATA_PROTECT ASC_ACCESS_DENIED 2 s))
              else Some s);
        usb_stream_chunk_done cb Msc_sector_transfer s
      }
      else Some s)"

definition scsi_read_or_write_blocks ::
    "'a usb_msc_state_scheme caller \<Rightarrow> scsi_cbw \<Rightarrow> u32 \<Rightarrow> u32 \<Rightarrow> scsi_direction \<Rightarrow> 'a usb_msc_state_scheme \<Rightarrow>
     'a usb_msc_state_scheme option" where
  "scsi_read_or_write_blocks cb cbw lba blocks dir s = do {
     let s = upd_st Msc_sector_transfer (st_ep_update (\<lambda>_. Some (if dir = SCSI_DIR_IN then Msc_in else Msc_out))) s;
     let s = s\<lparr>msc_lba := lba\<rparr>;
     (go, s) \<leftarrow> msc_init_for_di_or_do cb cbw (blocks * of_nat SECTOR_SIZE) dir s;
     if go then
       let packets = data_phase_length (msc s) div 64 in
       if packets \<noteq> 0 then
         let s = s\<lparr>msc_async_token := msc_async_token s + 1\<rparr>;
             s = usb_stream_setup_transfer Msc_sector_transfer Msc_sector_funcs (SectorBuf 0)
                   (of_nat SECTOR_SIZE) (packets * 64) (Some Tf_data_phase_complete) s
         in if dir = SCSI_DIR_IN then usb_start_transfer cb Msc_in Msc_sector_transfer s
            else Some (usb_chain_transfer Msc_out Msc_sector_transfer s)
       else msc_data_phase_complete cb s
     else Some s
   }"

definition cb_lba :: "scsi_cbw \<Rightarrow> u32" where
  "cb_lba cbw = of_le32 (rev (take 4 (drop 2 (cbw_cb cbw))))"

definition cb_blocks :: "scsi_cbw \<Rightarrow> u16" where
  "cb_blocks cbw = of_le16 (rev (take 2 (drop 7 (cbw_cb cbw))))"

definition scsi_handle_read_or_write_command ::
    "'a usb_msc_state_scheme caller \<Rightarrow> scsi_cbw \<Rightarrow> scsi_direction \<Rightarrow> 'a usb_msc_state_scheme \<Rightarrow>
     'a usb_msc_state_scheme option" where
  "scsi_handle_read_or_write_command cb cbw dir =
     scsi_read_or_write_blocks cb cbw (cb_lba cbw) (ucast (cb_blocks cbw)) dir"

subsection \<open>The command packet\<close>

definition cbw_valid :: "scsi_cbw \<Rightarrow> bool" where
  "cbw_valid cbw \<longleftrightarrow>
     cbw_sig cbw = CBW_SIG \<and> cbw_lun cbw = 0 \<and> cbw_flags cbw AND 0x7f = 0 \<and>
     cb_length cbw \<noteq> 0 \<and> cb_length cbw \<le> 16"

definition msc_cmd_halt ::
    "'a usb_msc_state_scheme caller \<Rightarrow> 'a usb_msc_state_scheme \<Rightarrow> 'a usb_msc_state_scheme option" where
  "msc_cmd_halt cb s = do {
     s \<leftarrow> usb_halt_endpoint_on_condition cb Msc_in s;
     usb_halt_endpoint_on_condition cb Msc_out s
   }"

definition msc_execute ::
    "program \<Rightarrow> 'a usb_msc_state_scheme caller \<Rightarrow> scsi_cbw \<Rightarrow> 'a usb_msc_state_scheme \<Rightarrow>
     'a usb_msc_state_scheme option" where
  "msc_execute prog cb cbw s =
     (let cmd = cbw_cb cbw ! 0 in
      if cmd = INQUIRY then scsi_handle_inquiry_response prog cb cbw s
      else if cmd = MODE_SENSE_6 then scsi_handle_mode_sense cb cbw s
      else if cmd = PREVENT_ALLOW_MEDIUM_REMOVAL then msc_init_for_dn cb cbw s
      else if cmd = READ_10 then scsi_handle_read_or_write_command cb cbw SCSI_DIR_IN s
      else if cmd = WRITE_10 then scsi_handle_read_or_write_command cb cbw SCSI_DIR_OUT s
      else if cmd = READ_FORMAT_CAPACITIES then scsi_handle_read_format_capacities cb cbw s
      else if cmd = READ_CAPACITY_10 then scsi_handle_read_capacity cb cbw s
      else if cmd = REQUEST_SENSE then scsi_handle_request_sense cb cbw s
      else if cmd = TEST_UNIT_READY then scsi_handle_test_unit_ready cb cbw s
      else if cmd = START_STOP_UNIT then scsi_handle_start_stop_unit cb cbw s
      else if cmd = SYNCHRONIZE_CACHE then msc_init_for_dn cb cbw s
      else if cmd = VERIFY then msc_init_for_dn cb cbw s
      else scsi_fail_cmd cb cbw SK_ILLEGAL_REQUEST ASC_INVALID_COMMAND_OPERATION_CODE ASCQ_NA s)"

definition msc_accept_command :: "scsi_cbw \<Rightarrow> 'a usb_msc_state_scheme \<Rightarrow> 'a usb_msc_state_scheme" where
  "msc_accept_command cbw s =
     (let s = upd_msc (csw_update (\<lambda>c. c\<lparr>csw_sig := CSW_SIG, csw_tag := cbw_tag cbw,
                                          residue := data_transfer_length cbw\<rparr>)) s;
          s = (if cbw_cb cbw ! 0 \<noteq> REQUEST_SENSE then set_sense SK_OK 0 0 s else s)
      in set_csw_status CSW_STATUS_COMMAND_PASSED s)"

definition msc_cmd_packet_internal ::
    "program \<Rightarrow> 'a usb_msc_state_scheme caller \<Rightarrow> epid \<Rightarrow> 'a usb_msc_state_scheme \<Rightarrow>
     'a usb_msc_state_scheme option" where
  "msc_cmd_packet_internal prog cb e s =
     (let s = usb_current_packet_buffer e s in
      if buf_data_len (current_buffer e s) = 31 then do {
        bs \<leftarrow> dpram_load (buf_data (current_buffer e s)) 31 s;
        let cbw = parse_cbw bs;
        if cbw_valid cbw then msc_execute prog cb cbw (msc_accept_command cbw s)
        else msc_cmd_halt cb s
      }
      else msc_cmd_halt cb s)"

definition msc_cmd_packet ::
    "program \<Rightarrow> 'a usb_msc_state_scheme caller \<Rightarrow> epid \<Rightarrow> 'a usb_msc_state_scheme \<Rightarrow>
     'a usb_msc_state_scheme option" where
  "msc_cmd_packet prog cb e s = do {
     s \<leftarrow> msc_cmd_packet_internal prog cb e s;
     usb_packet_done cb e s
   }"

subsection \<open>Stalls, reset and configuration\<close>

definition msc_in_on_stall_change ::
    "'a usb_msc_state_scheme caller \<Rightarrow> epid \<Rightarrow> 'a usb_msc_state_scheme \<Rightarrow> 'a usb_msc_state_scheme option" where
  "msc_in_on_stall_change cb e s =
     (if \<not> usb_is_endpoint_stalled (endpoints s e) \<and> e = Msc_in \<and> send_csw_on_unstall (msc s)
      then msc_send_csw cb s else Some s)"

definition msc_reset ::
    "'a usb_msc_state_scheme caller \<Rightarrow> 'a usb_msc_state_scheme \<Rightarrow> 'a usb_msc_state_scheme option" where
  "msc_reset cb s = do {
     let s = (if msc_one_time s then s
              else
                let s = upd_tr Msc_cmd_transfer (tr_type_update (\<lambda>_. Some Msc_cmd_type)) s;
                    s = usb_set_default_transfer Msc_out Msc_cmd_transfer s;
                    s = upd_ep Msc_in (on_stall_change_update (\<lambda>_. Some Msc_in_on_stall_change)) s
                in s\<lparr>msc_one_time := True\<rparr>);
     let s = s\<lparr>msc := zero_msc_state, ejected := False\<rparr>;
     let s = upd_msc (request_sense_update (\<lambda>r. r\<lparr>sense_code := 0x70, additional_sense_len := 0xa\<rparr>)) s;
     let s = vd_reset s;
     s \<leftarrow> usb_soft_reset_endpoint cb Msc_in s;
     usb_soft_reset_endpoint cb Msc_out s
   }"

definition USB_REQUEST_MSC_GET_MAX_LUN :: u8 where "USB_REQUEST_MSC_GET_MAX_LUN = 0xfe"
definition USB_REQUEST_MSC_RESET :: u8 where "USB_REQUEST_MSC_RESET = 0xff"

definition msc_setup_request_handler ::
    "'a usb_msc_state_scheme caller \<Rightarrow> usb_setup_packet \<Rightarrow> 'a usb_msc_state_scheme \<Rightarrow>
     (bool \<times> 'a usb_msc_state_scheme) option" where
  "msc_setup_request_handler cb setup s =
     (if bmRequestType setup AND USB_REQ_TYPE_TYPE_MASK = USB_REQ_TYPE_TYPE_CLASS then
        if bmRequestType setup AND USB_DIR_IN \<noteq> 0 then
          if bRequest setup = USB_REQUEST_MSC_GET_MAX_LUN \<and> wValue setup = 0 \<and> wLength setup \<noteq> 0 then do {
            let s = usb_current_packet_buffer Control_in s;
            s \<leftarrow> dpram_store (buf_data (current_buffer Control_in s)) [0] s;
            s \<leftarrow> usb_start_single_buffer_control_in_transfer cb (set_buffer_len Control_in 1 s);
            Some (True, s)
          }
          else Some (False, s)
        else if bRequest setup = USB_REQUEST_MSC_RESET \<and> wValue setup = 0 \<and> wLength setup = 0 then do {
          let s = usb_clear_halt_condition Msc_in s;
          let s = usb_clear_halt_condition Msc_out s;
          s \<leftarrow> msc_reset cb s;
          s \<leftarrow> usb_start_empty_control_in_transfer cb None s;
          Some (True, s)
        }
        else Some (False, s)
      else Some (False, s))"

definition msc_on_configure ::
    "'a usb_msc_state_scheme caller \<Rightarrow> bool \<Rightarrow> 'a usb_msc_state_scheme \<Rightarrow> 'a usb_msc_state_scheme option" where
  "msc_on_configure cb configured s = (if configured then msc_reset cb s else Some s)"

end
