(* ===== verification/Boot_Device.thy ===== *)
theory Boot_Device
  imports Usb_Msc
begin

text \<open>
  \<open>bootrom/usb_boot_device.c\<close>: the descriptors of the device, the PICOBOOT interface, which turns command
  packets into tasks for the worker, and the initialisation; also \<open>_usb_boot\<close> of \<open>bootrom_main.c\<close>.
\<close>

subsection \<open>Descriptors\<close>

definition VENDOR_ID :: u16 where "VENDOR_ID = 0x2e8a"
definition PRODUCT_ID :: u16 where "PRODUCT_ID = 0x0003"

definition endpoint_desc :: "u8 \<Rightarrow> bytes" where
  "endpoint_desc addr = [0x07, 0x05, addr, 0x02] @ le16 0x0040 @ [0x00]"

definition interface_desc :: "u8 \<Rightarrow> u8 \<Rightarrow> u8 \<Rightarrow> u8 \<Rightarrow> bytes" where
  "interface_desc number class subclass protocol =
     [0x09, 0x04, number, 0x00, 0x02, class, subclass, protocol, 0x00]"

definition msc_interface_desc :: bytes where
  "msc_interface_desc = interface_desc 0 0x08 0x06 0x50 @ endpoint_desc 0x81 @ endpoint_desc 0x02"

definition picoboot_interface_desc :: "u8 \<Rightarrow> bytes" where
  "picoboot_interface_desc number = interface_desc number 0xff 0 0 @ endpoint_desc 0x03 @ endpoint_desc 0x84"

definition config_desc :: "u16 \<Rightarrow> u8 \<Rightarrow> bytes" where
  "config_desc total_length num_interfaces =
     [0x09, 0x02] @ le16 total_length @ [num_interfaces, 0x01, 0x00, 0x80, 0xfa]"

definition boot_device_config :: bytes where
  "boot_device_config = config_desc 55 2 @ msc_interface_desc @ picoboot_interface_desc 1"

text \<open>\<open>_single_interface_config\<close>, for the interfaces that a mask does not disable.\<close>

definition single_interface_config :: "u32 \<Rightarrow> bytes" where
  "single_interface_config m =
     config_desc 32 1 @ (if m AND 1 \<noteq> 0 then picoboot_interface_desc 0 else msc_interface_desc)"

definition boot_device_descriptor :: bytes where
  "boot_device_descriptor =
     [18, 0x01] @ le16 0x0110 @ [0x00, 0x00, 0x00, 0x40] @ le16 VENDOR_ID @ le16 PRODUCT_ID @ le16 0x0100 @
     [0x01, 0x02, 3, 0x01]"

definition descriptor_strings :: "bytes \<Rightarrow> bytes list" where
  "descriptor_strings serial = [[], ascii_bytes ''Raspberry Pi'', ascii_bytes ''RP2 Boot'', serial]"

definition get_descriptor_string_fn :: "bytes \<Rightarrow> u32 \<Rightarrow> bytes" where
  "get_descriptor_string_fn serial index = descriptor_strings serial ! (if index \<ge> 4 then 0 else unat index)"

subsection \<open>The state of PICOBOOT\<close>

text \<open>\<open>ps_task\<close> is the task of \<open>_picoboot_stream_transfer\<close>.\<close>

record boot_state = usb_msc_state +
  picoboot_cmd_status :: picoboot_cmd_status
  ps_task :: async_task
  real_token :: u32

definition zero_cmd_status :: picoboot_cmd_status where
  "zero_cmd_status = \<lparr>dToken = 0, dStatusCode = 0, bCmdId = 0, bInProgress = False\<rparr>"

definition picoboot_reset ::
    "'a boot_state_scheme caller \<Rightarrow> 'a boot_state_scheme \<Rightarrow> 'a boot_state_scheme option" where
  "picoboot_reset cb s = do {
     s \<leftarrow> usb_soft_reset_endpoint cb Picoboot_out s;
     s \<leftarrow> usb_soft_reset_endpoint cb Picoboot_in s;
     let s = (if bInProgress (picoboot_cmd_status s) then call_flash Flash_abort s else s);
     Some (s\<lparr>picoboot_cmd_status := zero_cmd_status,
             virtual_disk_queue := reset_queue (virtual_disk_queue s),
             picoboot_queue := reset_queue (picoboot_queue s)\<rparr>)
   }"

definition tf_picoboot_wait_command ::
    "'a boot_state_scheme caller \<Rightarrow> 'a boot_state_scheme \<Rightarrow> 'a boot_state_scheme option" where
  "tf_picoboot_wait_command cb = usb_start_default_transfer_if_not_already_running_or_halted cb Picoboot_out"

definition set_in_progress :: "bool \<Rightarrow> 'a boot_state_scheme \<Rightarrow> 'a boot_state_scheme" where
  "set_in_progress b s = s\<lparr>picoboot_cmd_status := (picoboot_cmd_status s)\<lparr>bInProgress := b\<rparr>\<rparr>"

definition set_cmd_status :: "u32 \<Rightarrow> 'a boot_state_scheme \<Rightarrow> 'a boot_state_scheme" where
  "set_cmd_status st s = s\<lparr>picoboot_cmd_status := (picoboot_cmd_status s)\<lparr>dStatusCode := st\<rparr>\<rparr>"

definition picoboot_ack ::
    "'a boot_state_scheme caller \<Rightarrow> 'a boot_state_scheme \<Rightarrow> 'a boot_state_scheme option" where
  "picoboot_ack cb s =
     (let s = set_in_progress False s;
          e = (if bCmdId (picoboot_cmd_status s) AND 0x80 \<noteq> 0 then Picoboot_out else Picoboot_in)
      in usb_start_empty_transfer cb e Ack_transfer (Some Tf_picoboot_wait_command) s)"

definition picoboot_setup_request_handler ::
    "program \<Rightarrow> 'a boot_state_scheme caller \<Rightarrow> usb_setup_packet \<Rightarrow> 'a boot_state_scheme \<Rightarrow>
     (bool \<times> 'a boot_state_scheme) option" where
  "picoboot_setup_request_handler prog cb setup s =
     (let pb = prog_pb prog; status = cmd_status_bytes pb (picoboot_cmd_status s) in
      if bmRequestType setup AND USB_REQ_TYPE_TYPE_MASK = USB_REQ_TYPE_TYPE_VENDOR then
        if bmRequestType setup AND USB_DIR_IN \<noteq> 0 then
          if bRequest setup = PICOBOOT_IF_CMD_STATUS pb \<and> unat (wLength setup) = length status then do {
            s \<leftarrow> respond Control_in status s;
            s \<leftarrow> usb_start_single_buffer_control_in_transfer cb s;
            Some (True, s)
          }
          else Some (False, s)
        else if bRequest setup = PICOBOOT_IF_RESET pb then do {
          s \<leftarrow> picoboot_reset cb s;
          s \<leftarrow> usb_start_empty_control_in_transfer cb None s;
          Some (True, s)
        }
        else Some (False, s)
      else Some (False, s))"

subsection \<open>Tasks and their completion\<close>

text \<open>The callbacks of the worker's tasks.\<close>

definition atc_ack ::
    "'a boot_state_scheme caller \<Rightarrow> async_task \<Rightarrow> 'a boot_state_scheme \<Rightarrow> 'a boot_state_scheme option" where
  "atc_ack cb task s =
     (if at_picoboot_user_token task = at_picoboot_user_token (ps_task s) then picoboot_ack cb s else Some s)"

definition atc_chunk_task_done ::
    "'a boot_state_scheme caller \<Rightarrow> async_task \<Rightarrow> 'a boot_state_scheme \<Rightarrow> 'a boot_state_scheme option" where
  "atc_chunk_task_done cb task s =
     (if at_picoboot_user_token task = at_picoboot_user_token (ps_task s) then do {
        let s = set_cmd_status (at_result task) s;
        s \<leftarrow> (if at_result task \<noteq> 0 then do {
                e \<leftarrow> st_ep (streams s Picoboot_stream_transfer);
                s \<leftarrow> usb_halt_endpoint cb e s;
                Some (set_in_progress False s)
              }
              else Some s);
        let s = s\<lparr>ps_task := (ps_task s)
                    \<lparr>at_transfer_addr := at_transfer_addr (ps_task s) + at_data_length task\<rparr>\<rparr>;
        usb_stream_chunk_done cb Picoboot_stream_transfer s
      }
      else Some s)"

text \<open>\<open>_write_uf2_page_complete\<close> and \<open>vd_async_complete\<close> of the disk.\<close>

definition write_uf2_page_complete ::
    "program \<Rightarrow> 'a boot_state_scheme caller \<Rightarrow> async_task \<Rightarrow> 'a boot_state_scheme \<Rightarrow> 'a boot_state_scheme option" where
  "write_uf2_page_complete prog cb task s =
     (let s = (if at_token task = uf2_token (uf2 s) \<and> at_result task = 0 \<and>
                  valid_block_count (uf2 s) = num_blocks (uf2 s)
               then safe_reboot (if uf2_ram (uf2 s) then lowest_addr (uf2 s) else 0) (SRAM_END (prog_am prog)) 1000 s
               else s)
      in vd_async_complete cb (at_token task) (at_result task) s)"

definition run_task_callback ::
    "program \<Rightarrow> 'a boot_state_scheme caller \<Rightarrow> task_callback \<Rightarrow> async_task \<Rightarrow> 'a boot_state_scheme \<Rightarrow>
     'a boot_state_scheme option" where
  "run_task_callback prog cb c task s =
     (case c of
        Write_uf2_page_complete \<Rightarrow> write_uf2_page_complete prog cb task s
      | Atc_ack \<Rightarrow> atc_ack cb task s
      | Atc_chunk_task_done \<Rightarrow> atc_chunk_task_done cb task s)"

text \<open>The task is the object that the queue copies from, so it keeps the callback.\<close>

definition queue_ps_task :: "task_callback \<Rightarrow> 'a boot_state_scheme \<Rightarrow> 'a boot_state_scheme" where
  "queue_ps_task c s =
     (let (task, q) = queue_task (ps_task s) c (picoboot_queue s)
      in s\<lparr>ps_task := task, picoboot_queue := q\<rparr>)"

definition picoboot_on_stream_chunk :: "u32 \<Rightarrow> 'a boot_state_scheme \<Rightarrow> bool \<times> 'a boot_state_scheme" where
  "picoboot_on_stream_chunk chunk_len s =
     (let s = s\<lparr>ps_task := (ps_task s)\<lparr>at_data_length := chunk_len\<rparr>\<rparr>;
          s = queue_ps_task Atc_chunk_task_done s
      in (True, s\<lparr>ps_task := (ps_task s)\<lparr>at_check_last_mutation_source := True\<rparr>\<rparr>))"

subsection \<open>Commands\<close>

text \<open>Size of the arguments, transfer length (0x80: from the command), task type; from command 0 on.\<close>

definition cmd_mapping :: "picoboot_consts \<Rightarrow> (u8 \<times> u8 \<times> u8) list" where
  "cmd_mapping pb =
     [(0, 0, 0),
      (sizeof_exclusive_cmd pb, 0x00, AT_EXCLUSIVE),
      (sizeof_reboot_cmd pb, 0x00, 0),
      (sizeof_range_cmd pb, 0x00, AT_FLASH_ERASE),
      (sizeof_range_cmd pb, 0x80, AT_READ),
      (sizeof_range_cmd pb, 0x80, AT_WRITE),
      (0, 0x00, AT_EXIT_XIP),
      (0, 0x00, AT_ENTER_CMD_XIP),
      (sizeof_address_only_cmd pb, 0x00, AT_EXEC),
      (sizeof_address_only_cmd pb, 0x00, AT_VECTORIZE_FLASH)]"

text \<open>The state that every command packet with the magic number sets up.\<close>

definition picoboot_prepare :: "picoboot_consts \<Rightarrow> picoboot_cmd \<Rightarrow> 'a boot_state_scheme \<Rightarrow> 'a boot_state_scheme" where
  "picoboot_prepare pb cmd s =
     s\<lparr> real_token := real_token s - 1,
        ps_task := reset_task
          \<lparr> at_token := real_token s - 1, at_picoboot_user_token := cmd_dToken cmd,
            at_transfer_addr := dAddr cmd, at_erase_addr := dAddr cmd, at_erase_size := dSize cmd,
            at_exclusive_param := bExclusive cmd \<rparr>,
        picoboot_cmd_status :=
          \<lparr>dToken = cmd_dToken cmd, dStatusCode = PICOBOOT_UNKNOWN_CMD pb, bCmdId = cmd_bCmdId cmd,
           bInProgress = False\<rparr> \<rparr>"

text \<open>The status, and the task type if the command is to be queued; \<open>reboot\<close> is handled apart.\<close>

definition picoboot_lookup :: "picoboot_consts \<Rightarrow> picoboot_cmd \<Rightarrow> u32 \<times> u8" where
  "picoboot_lookup pb cmd =
     (let id = cmd_bCmdId cmd AND 0x7f in
      if id \<noteq> 0 \<and> unat id < length (cmd_mapping pb) then
        (case cmd_mapping pb ! unat id of (csize, l, type) \<Rightarrow>
           if bCmdSize cmd = csize then
             let len = (if l AND 0x80 \<noteq> 0 then dSize cmd else ucast l) in
             if len = dTransferLength cmd \<and> type \<noteq> 0 then (PICOBOOT_OK pb, type)
             else (PICOBOOT_INVALID_TRANSFER_LENGTH pb, 0)
           else (PICOBOOT_INVALID_CMD_LENGTH pb, 0))
      else (PICOBOOT_UNKNOWN_CMD pb, 0))"

definition is_reboot_cmd :: "picoboot_consts \<Rightarrow> picoboot_cmd \<Rightarrow> bool" where
  "is_reboot_cmd pb cmd \<longleftrightarrow>
     (let id = cmd_bCmdId cmd AND 0x7f in
      id \<noteq> 0 \<and> unat id < length (cmd_mapping pb) \<and> bCmdSize cmd = fst (cmd_mapping pb ! unat id) \<and>
      cmd_bCmdId cmd = PC_REBOOT pb)"

definition picoboot_start ::
    "'a boot_state_scheme caller \<Rightarrow> picoboot_cmd \<Rightarrow> u8 \<Rightarrow> 'a boot_state_scheme \<Rightarrow> 'a boot_state_scheme option" where
  "picoboot_start cb cmd type s =
     (let s = s\<lparr>ps_task := (ps_task s)\<lparr>at_type := type, at_source := TASK_SOURCE_PICOBOOT\<rparr>\<rparr>;
          s = set_in_progress True s
      in if dTransferLength cmd \<noteq> 0 then
           let s = s\<lparr>ps_task := (ps_task s)\<lparr>at_data := PicobootBuf\<rparr>\<rparr>;
               s = usb_stream_setup_transfer Picoboot_stream_transfer Picoboot_stream_funcs PicobootBuf
                     FLASH_PAGE_SIZE (dTransferLength cmd) (Some Tf_ack) s
           in if type AND AT_WRITE \<noteq> 0
              then Some (usb_chain_transfer Picoboot_out Picoboot_stream_transfer
                     (upd_st Picoboot_stream_transfer (st_ep_update (\<lambda>_. Some Picoboot_out)) s))
              else usb_start_transfer cb Picoboot_in Picoboot_stream_transfer
                     (upd_st Picoboot_stream_transfer (st_ep_update (\<lambda>_. Some Picoboot_in)) s)
         else Some (queue_ps_task Atc_ack s))"

definition picoboot_halt ::
    "'a boot_state_scheme caller \<Rightarrow> 'a boot_state_scheme \<Rightarrow> 'a boot_state_scheme option" where
  "picoboot_halt cb s = do {
     s \<leftarrow> usb_halt_endpoint cb Picoboot_in s;
     usb_halt_endpoint cb Picoboot_out s
   }"

definition picoboot_cmd_packet_internal ::
    "program \<Rightarrow> 'a boot_state_scheme caller \<Rightarrow> epid \<Rightarrow> 'a boot_state_scheme \<Rightarrow> 'a boot_state_scheme option" where
  "picoboot_cmd_packet_internal prog cb e s =
     (let pb = prog_pb prog; s = usb_current_packet_buffer e s;
          len = unat (buf_data_len (current_buffer e s)) in
      if len = sizeof_picoboot_cmd pb then do {
        bs \<leftarrow> dpram_load (buf_data (current_buffer e s)) len s;
        let cmd = picoboot_cmd_parse pb bs;
        if dMagic cmd = PICOBOOT_MAGIC pb then
          let s = picoboot_prepare pb cmd s in
          if is_reboot_cmd pb cmd
          then picoboot_ack cb (safe_reboot (dPC cmd) (dSP cmd) (dDelayMS cmd) (set_cmd_status (PICOBOOT_OK pb) s))
          else
            let (status, type) = picoboot_lookup pb cmd; s = set_cmd_status status s
            in if type \<noteq> 0 then picoboot_start cb cmd type s else picoboot_halt cb s
        else picoboot_halt cb s
      }
      else picoboot_halt cb s)"

definition picoboot_cmd_packet ::
    "program \<Rightarrow> 'a boot_state_scheme caller \<Rightarrow> epid \<Rightarrow> 'a boot_state_scheme \<Rightarrow> 'a boot_state_scheme option" where
  "picoboot_cmd_packet prog cb e s = do {
     s \<leftarrow> picoboot_cmd_packet_internal prog cb e s;
     usb_packet_done cb e s
   }"

subsection \<open>Configuration and initialisation\<close>

definition usb_boot_on_configure ::
    "'a boot_state_scheme caller \<Rightarrow> bool \<Rightarrow> 'a boot_state_scheme \<Rightarrow> 'a boot_state_scheme option" where
  "usb_boot_on_configure cb configured s = do {
     s \<leftarrow> msc_on_configure cb configured s;
     if configured then picoboot_reset cb s else Some s
   }"

definition set_setup_handler :: "ifid \<Rightarrow> setup_func \<Rightarrow> 'a usb_state_scheme \<Rightarrow> 'a usb_state_scheme" where
  "set_setup_handler i f s =
     s\<lparr>interfaces := (interfaces s)(i := (interfaces s i)\<lparr>setup_request_handler := Some f\<rparr>)\<rparr>"

text \<open>\<open>gitref\<close> is the register with the revision of the chip, \<open>git_rev\<close> the revision of the software.\<close>

definition init_msc_interface :: "bytes \<Rightarrow> u32 \<Rightarrow> 'a boot_state_scheme \<Rightarrow> 'a boot_state_scheme option" where
  "init_msc_interface config m s =
     (if m AND 1 = 0 then do {
        s \<leftarrow> usb_interface_init Msd_interface (drop 9 config) [Msc_in, Msc_out] True s;
        Some (set_setup_handler Msd_interface Msc_setup_request_handler s)
      }
      else Some s)"

definition init_picoboot_interface :: "bytes \<Rightarrow> u32 \<Rightarrow> 'a boot_state_scheme \<Rightarrow> 'a boot_state_scheme option" where
  "init_picoboot_interface config m s =
     (if m AND 2 = 0 then do {
        let num = (if m AND 1 \<noteq> 0 then 0 else 1);
        s \<leftarrow> usb_interface_init Picoboot_interface (drop (9 + 23 * num) config) [Picoboot_out, Picoboot_in] True s;
        let s = upd_tr Picoboot_cmd_transfer (tr_type_update (\<lambda>_. Some Picoboot_cmd_type)) s;
        let s = usb_set_default_transfer Picoboot_out Picoboot_cmd_transfer s;
        Some (set_setup_handler Picoboot_interface Picoboot_setup_request_handler s)
      }
      else Some s)"

definition usb_boot_device_init ::
    "'a boot_state_scheme caller \<Rightarrow> u32 \<Rightarrow> u32 \<Rightarrow> u32 \<Rightarrow> 'a boot_state_scheme \<Rightarrow> 'a boot_state_scheme option" where
  "usb_boot_device_init cb gitref git_rev disable_mask s = do {
     let m = (if disable_mask AND 3 = 3 then 0 else disable_mask);
     serial \<leftarrow> set_serial_number_string gitref git_rev (serial_number_string s);
     let s = s\<lparr>serial_number_string := serial\<rparr>;
     let config = (if m \<noteq> 0 then single_interface_config m else boot_device_config);
     s \<leftarrow> init_msc_interface config m s;
     s \<leftarrow> init_picoboot_interface config m s;
     s \<leftarrow> usb_device_init boot_device_descriptor config (drop (if m = 1 then 1 else 0) [Msd_interface, Picoboot_interface])
           (get_descriptor_string_fn serial) s;
     let s = s\<lparr>device := (device s)\<lparr>on_configure := Some Usb_boot_on_configure\<rparr>\<rparr>;
     usb_device_start cb s
   }"

end
