(* ===== verification/Usb_Dispatch.thy ===== *)
theory Usb_Dispatch
  imports Boot_Device
begin

text \<open>
  The functions behind the function pointers.  \<open>invoke\<close> performs one call, with \<open>cb\<close> for the calls that
  the called function makes in turn; \<open>run\<close> ties the knot for calls that nest at most \<open>n\<close> deep.  A result
  \<^term>\<open>None\<close> at depth 0 is a program whose stack is not enough.
\<close>

definition void :: "'s option \<Rightarrow> (bool \<times> 's) option" where
  "void x = map_option (Pair False) x"

definition invoke ::
    "program \<Rightarrow> 'a boot_state_scheme caller \<Rightarrow> callback \<Rightarrow> 'a boot_state_scheme \<Rightarrow> (bool \<times> 'a boot_state_scheme) option" where
  "invoke prog cb c s =
     (case c of
        On_packet type e \<Rightarrow>
          void (case type of
                  Current_packet_only \<Rightarrow> usb_transfer_current_packet_only cb e s
                | Msc_cmd_type \<Rightarrow> msc_cmd_packet prog cb e s
                | Usb_stream_type \<Rightarrow> usb_stream_packet_packet_handler cb e s
                | Picoboot_cmd_type \<Rightarrow> picoboot_cmd_packet prog cb e s)
      | On_complete f e t \<Rightarrow>
          void (case f of
                  Tf_send_control_in_ack \<Rightarrow> tf_send_control_in_ack cb s
                | Tf_send_control_out_ack \<Rightarrow> tf_send_control_out_ack cb s
                | Tf_set_address \<Rightarrow> Some (tf_set_address s)
                | Tf_wait_command \<Rightarrow> tf_wait_command cb e s
                | Tf_data_phase_complete \<Rightarrow> msc_data_phase_complete cb s
                | Tf_ack \<Rightarrow> picoboot_ack cb s
                | Tf_picoboot_wait_command \<Rightarrow> tf_picoboot_wait_command cb s)
      | On_stall_change f e \<Rightarrow> void (case f of Msc_in_on_stall_change \<Rightarrow> msc_in_on_stall_change cb e s)
      | On_configure f configured \<Rightarrow>
          void (case f of Usb_boot_on_configure \<Rightarrow> usb_boot_on_configure cb configured s)
      | On_setup f setup \<Rightarrow>
          (case f of
             Msc_setup_request_handler \<Rightarrow> msc_setup_request_handler cb setup s
           | Picoboot_setup_request_handler \<Rightarrow> picoboot_setup_request_handler prog cb setup s)
      | On_packet_complete f \<Rightarrow>
          void (Some (case f of
                        Msc_sector_funcs \<Rightarrow> msc_on_sector_stream_packet_complete s
                      | Picoboot_stream_funcs \<Rightarrow> s))
      | On_chunk f len \<Rightarrow>
          (case f of
             Msc_sector_funcs \<Rightarrow> msc_on_sector_stream_chunk prog s
           | Picoboot_stream_funcs \<Rightarrow> Some (picoboot_on_stream_chunk len s)))"

primrec run :: "program \<Rightarrow> nat \<Rightarrow> callback \<Rightarrow> 'a boot_state_scheme \<Rightarrow> (bool \<times> 'a boot_state_scheme) option" where
  "run prog 0 = (\<lambda>c s. None)"
| "run prog (Suc n) = invoke prog (run prog n)"

text \<open>The three contexts in which the program runs: the initialisation, the interrupt, the worker.\<close>

definition device_interrupt :: "program \<Rightarrow> nat \<Rightarrow> 'a boot_state_scheme \<Rightarrow> 'a boot_state_scheme option" where
  "device_interrupt prog n s = isr_usbctrl (run prog n) s"

definition device_worker ::
    "program \<Rightarrow> nat \<Rightarrow> ('a boot_state_ext usb_msc_state_ext stream_state_ext usb_state_ext disk_state_ext) async_state_scheme foreign \<Rightarrow>
     'a boot_state_scheme \<Rightarrow> (bool \<times> 'a boot_state_scheme) option" where
  "device_worker prog n env s =
     async_task_worker env (prog_pb prog) (prog_am prog) (run_task_callback prog (run prog n)) s"

subsection \<open>The state at the start\<close>

text \<open>All objects are zero (\<open>_usb_boot\<close> clears the memory of the controller, which holds them).\<close>

definition zero_buffer :: usb_buffer where
  "zero_buffer = \<lparr>buf_data = 0, buf_data_len = 0, buf_data_max = 0, buf_valid = False\<rparr>"

definition zero_endpoint :: usb_endpoint where
  "zero_endpoint =
     \<lparr> ep_descriptor = None, default_transfer = None, current_transfer = None, chain_transfer = None,
       on_stall_change = None, dpram_buffer_offset = 0, buffer_size = 0, current_hw_buffer = zero_buffer,
       ep_num = 0, next_pid = 0, buffer_bit_index = 0, owned_buffer_count = 0, current_give_buffer = 0,
       current_take_buffer = 0, halt_state = HS_NONE, first_buffer_after_reset = False,
       double_buffered = False, ep_in = False \<rparr>"

definition zero_transfer :: usb_transfer where
  "zero_transfer =
     \<lparr> tr_type = None, tr_on_complete = None, packets_to_submit = 0, packets_to_handle = 0,
       outstanding_packet = False, packet_queued = False, started = False, completed = False \<rparr>"

definition zero_device :: usb_device where
  "zero_device =
     \<lparr> dev_descriptor = [], config_descriptor = [], config_interfaces = [], on_configure = None,
       get_descriptor_string = (\<lambda>_. []), current_address = 0, current_config_num = 0,
       pending_address = 0, next_buffer_offset = 0 \<rparr>"

definition zero_queue :: async_task_queue where
  "zero_queue = \<lparr>q_task = reset_task, q_full = False, q_disable = False\<rparr>"

definition usb_boot_state :: "watchdog \<Rightarrow> u32 \<Rightarrow> memory \<Rightarrow> u32 \<Rightarrow> boot_state" where
  "usb_boot_state wd gpio_mask m now =
     \<lparr> rebooting = False, watchdog_hw = wd\<lparr>wd_tick := 12\<rparr>, usb_activity_gpio_pin_mask = gpio_mask,
       virtual_disk_queue = zero_queue, picoboot_queue = zero_queue, flash_funcs = None,
       last_mutation_source = 0, ejected = False, mem = m, sector_buf = replicate 512 0,
       picoboot_buf = replicate 256 0, flash_calls = [],
       uf2 = zero_uf2_info, uf2_valid_ram_blocks = replicate 160 0,
       boot_device = \<lparr>serial_number32 = 0, serial_number_valid = False\<rparr>,
       endpoints = (\<lambda>_. zero_endpoint), transfers = (\<lambda>_. zero_transfer),
       interfaces = (\<lambda>_. \<lparr>if_descriptor = None, setup_request_handler = None\<rparr>),
       endpoint_array = replicate USB_MAX_ENDPOINTS None, device = zero_device, hw = zero_usb_hw,
       buf_ctrls = (\<lambda>_. (zero_buf_ctrl, zero_buf_ctrl)), ep_ctrls = (\<lambda>_. None),
       dpram = replicate 4096 0,
       setup_packet = \<lparr>bmRequestType = 0, bRequest = 0, wValue = 0, wIndex = 0, wLength = 0\<rparr>,
       streams = (\<lambda>_. zero_stream), gpio_out = 0,
       msc = zero_msc_state, msc_async_token = 0, msc_lba = 0, msc_one_time = False,
       serial_number_string = replicate 13 0, timerawl = now,
       picoboot_cmd_status = zero_cmd_status, ps_task = reset_task, real_token = 0 \<rparr>"

text \<open>
  \<open>frames\<close>: the bytes that the stack frames of the compiled code have stored in the RAM when the device starts.
  They are the compiler's, so they are an argument; they are over what the RAM \<open>m\<close> held.
\<close>

definition usb_boot ::
    "program \<Rightarrow> nat \<Rightarrow> u32 \<Rightarrow> u32 \<Rightarrow> u32 \<Rightarrow> u32 \<Rightarrow> watchdog \<Rightarrow> memory \<Rightarrow> memory \<Rightarrow> u32 \<Rightarrow> boot_state option" where
  "usb_boot prog n gitref git_rev gpio_mask disable_mask wd m frames now =
     usb_boot_device_init (run prog n) gitref git_rev disable_mask (usb_boot_state wd gpio_mask (m ++ frames) now)"

text \<open>
  The two callers: \<open>main\<close>, and the wrapper at which the boot ROM enters after a reboot, which takes the arguments from
  the scratch registers where \<open>reset_usb_boot\<close> left them.
\<close>

definition boot_main :: "program \<Rightarrow> nat \<Rightarrow> u32 \<Rightarrow> u32 \<Rightarrow> watchdog \<Rightarrow> memory \<Rightarrow> memory \<Rightarrow> u32 \<Rightarrow> boot_state option" where
  "boot_main prog n gitref git_rev wd m frames now = usb_boot prog n gitref git_rev 0 0 wd m frames now"

definition usb_boot_reboot_wrapper ::
    "program \<Rightarrow> nat \<Rightarrow> u32 \<Rightarrow> u32 \<Rightarrow> watchdog \<Rightarrow> memory \<Rightarrow> memory \<Rightarrow> u32 \<Rightarrow> boot_state option" where
  "usb_boot_reboot_wrapper prog n gitref git_rev wd m frames now =
     usb_boot prog n gitref git_rev (wd_scratch wd 0) (wd_scratch wd 1) wd m frames now"

lemma wrapper_after_reset:
  assumes "wd = watchdog_hw (reset_usb_boot am wrapper gpio_mask disable_mask s)"
  shows "usb_boot_reboot_wrapper prog n gitref git_rev wd m frames now =
    usb_boot prog n gitref git_rev gpio_mask disable_mask wd m frames now"
  using assms by (simp add: usb_boot_reboot_wrapper_def reset_usb_boot_def watchdog_reboot_def Let_def)

end
