(* ===== verification/Buffer_Sizes.thy ===== *)
theory Buffer_Sizes
  imports Usb_Dispatch
begin

text \<open>
  A C buffer does not grow.  Whatever the functions of the disk store into the buffer that they are given,
  the list that models it keeps its length; \<open>keeps_length\<close> is closed under the ways in which they are composed.
\<close>

definition keeps_length :: "('a list \<Rightarrow> 'a list option) \<Rightarrow> bool" where
  "keeps_length f \<longleftrightarrow> (\<forall>b b'. f b = Some b' \<longrightarrow> length b' = length b)"

lemma keeps_lengthD: "keeps_length f \<Longrightarrow> f b = Some b' \<Longrightarrow> length b' = length b"
  by (simp add: keeps_length_def)

lemma keeps_length_store [intro]: "keeps_length (store i v)" "keeps_length (store_list off vs)"
  by (auto simp: keeps_length_def length_store length_store_list)

lemma keeps_length_id [intro]: "keeps_length Some" "keeps_length (\<lambda>b. None)"
  by (simp_all add: keeps_length_def)

lemma keeps_length_bind [intro]:
  assumes "keeps_length f" "keeps_length g"
  shows "keeps_length (\<lambda>b. Option.bind (f b) g)"
  unfolding keeps_length_def
proof (intro allI impI)
  fix b b' assume "Option.bind (f b) g = Some b'"
  then obtain c where "f b = Some c" "g c = Some b'" by (auto simp: bind_eq_Some_conv)
  then show "length b' = length b" using assms by (simp add: keeps_lengthD)
qed

lemma keeps_length_value [intro]: "(\<And>x. keeps_length (f x)) \<Longrightarrow> keeps_length (\<lambda>b. Option.bind m (\<lambda>x. f x b))"
  by (cases m) (auto simp: keeps_length_def)

lemma keeps_length_if [intro]: "(c \<Longrightarrow> keeps_length f) \<Longrightarrow> (\<not> c \<Longrightarrow> keeps_length g) \<Longrightarrow> keeps_length (\<lambda>b. if c then f b else g b)"
  by (cases c) auto

lemma keeps_length_foldM [intro]: "(\<And>x. keeps_length (f x)) \<Longrightarrow> keeps_length (foldM f xs)"
proof (induction xs)
  case (Cons x xs)
  have "foldM f (x # xs) = (\<lambda>b. Option.bind (f x b) (foldM f xs))" by (rule ext) simp
  with Cons show ?case by (simp only:) (intro keeps_length_bind, auto)
qed (auto simp: keeps_length_def)

subsection \<open>The functions\<close>

lemma length_pmtd_loop: "pmtd_loop src n b = Some b' \<Longrightarrow> length b' = length b"
  by (induction src n b rule: pmtd_loop.induct)
    (auto simp: bind_eq_Some_conv length_store length_copy_back split: if_splits list.splits)

lemma keeps_length_decompress [intro]: "keeps_length (poor_mans_text_decompress z)"
  by (auto simp: keeps_length_def poor_mans_text_decompress_def length_pmtd_loop split: if_splits)

lemma keeps_length_hex [intro]: "keeps_length (hex off w n)"
  unfolding hex_def by (intro keeps_length_foldM keeps_length_store)

lemma keeps_length_xxd [intro]: "keeps_length (xxd m a)"
  unfolding xxd_def xxd_line_def xxd_hword_def xxd_ascii_def Let_def
  by (intro keeps_length_foldM keeps_length_bind keeps_length_value keeps_length_hex keeps_length_store)

lemma length_fat_puts: "foldM (\<lambda>x. fat_put (f x)) vs (i, b) = Some (j, b') \<Longrightarrow> length b' = length b"
  by (induction vs arbitrary: i b) (auto simp: fat_put_def bind_eq_Some_conv length_store_list)

lemma keeps_length_sectors [intro]:
  "keeps_length (vd_read_mbr sn)" "keeps_length (vd_read_boot_sector sn)" "keeps_length (vd_read_root am gen lba)"
  "keeps_length (vd_read_data am gen ser m lba)"
proof -
  show "keeps_length (vd_read_data am gen ser m lba)"
    unfolding vd_read_data_def Let_def
    by (intro keeps_length_bind keeps_length_if keeps_length_store keeps_length_decompress keeps_length_id keeps_length_xxd)
qed (unfold vd_read_mbr_def vd_read_boot_sector_def vd_read_root_def Let_def,
  (intro keeps_length_bind keeps_length_if keeps_length_store keeps_length_id)+)

lemma keeps_length_fat [intro]: "keeps_length (vd_read_fat am lba)"
  unfolding keeps_length_def
proof (intro allI impI)
  fix b b' assume "vd_read_fat am lba b = Some b'"
  then obtain i b1 j b2 where
    f1: "foldM fat_put (if fat_mirror lba = 0 then [0xff00 OR ucast MEDIA_TYPE, 0xffff, 0xffff, 0xffff] else []) (0, b) = Some (i, b1)"
    and f2: "foldM (\<lambda>c. fat_put (of_nat (c + 1))) [max (fat_mirror lba * (SECTOR_SIZE div 2)) CLUS_CRASH_START..<
        Suc (min (fat_mirror lba * (SECTOR_SIZE div 2) + SECTOR_SIZE div 2 - 1) (CLUS_CRASH_LAST am))] (i, b1) = Some (j, b2)"
    and fin: "(if (of_nat j - 1 :: u32) = of_nat (CLUS_CRASH_LAST am) then store_list (2 * (j - 1)) (le16 0xffff) b2 else Some b2) = Some b'"
    unfolding vd_read_fat_def Let_def bind_eq_Some_conv by fastforce
  have "length b1 = length b" using length_fat_puts [where f = "\<lambda>x. x"] f1 by simp
  moreover have "length b2 = length b1" by (rule length_fat_puts [where f = "\<lambda>c. of_nat (c + 1)", OF f2])
  ultimately show "length b' = length b" using fin by (auto split: if_splits dest: length_store_list)
qed

lemma length_vd_read_block:
  assumes "vd_read_block am gen ser m now lba b bds = Some (r, b', bds')"
  shows "length b' = length b"
proof -
  obtain b0 where b0: "store_list 0 (replicate SECTOR_SIZE 0) b = Some b0"
    using assms by (auto simp: vd_read_block_def bind_eq_Some_conv)
  have "length b' = length b0"
    using assms b0
    by (auto simp: vd_read_block_def Let_def bind_eq_Some_conv case_prod_beta split: if_splits
        dest: keeps_lengthD [OF keeps_length_sectors(1)] keeps_lengthD [OF keeps_length_sectors(2)]
          keeps_lengthD [OF keeps_length_sectors(3)] keeps_lengthD [OF keeps_length_sectors(4)]
          keeps_lengthD [OF keeps_length_fat])
  then show ?thesis using length_store_list [OF b0] by simp
qed

end
