(* ===== verification/Usb_Frame.thy ===== *)
theory Usb_Frame
  imports Buffer_Sizes
begin

text \<open>
  What the USB code does not touch.  A view of the state that no write of a layer changes, and that the calls
  through function pointers keep, is kept by every function of the layer: one locale for each layer, each
  extending the one below.  They are interpreted on the calls of the program, for the view of memory and of
  the flash: an interrupt, whatever the host has sent, changes neither.
\<close>

subsection \<open>The device library\<close>

text \<open>
  \<open>ok v m\<close>: if the step \<open>m\<close> gives a state, its view is \<open>v\<close>; \<open>okp\<close> for a step with a result.  Only the views in
  the domain \<open>D\<close> have to be kept.
\<close>

locale view =
  fixes V :: "'s \<Rightarrow> 'v" and D :: "'v \<Rightarrow> bool"
begin

definition ok :: "'v \<Rightarrow> 's option \<Rightarrow> bool" where "ok v m \<longleftrightarrow> (\<forall>t. D v \<longrightarrow> m = Some t \<longrightarrow> V t = v)"

definition okp :: "'v \<Rightarrow> ('r \<times> 's) option \<Rightarrow> bool" where
  "okp v m \<longleftrightarrow> (\<forall>r t. D v \<longrightarrow> m = Some (r, t) \<longrightarrow> V t = v)"

lemma V_if [simp]: "V (if c then s else t) = (if c then V s else V t)" by simp

lemma ok_simps [simp]: "ok v None" "ok v (Some s) \<longleftrightarrow> (D v \<longrightarrow> V s = v)" "okp v None" "okp v (Some (r, s)) \<longleftrightarrow> (D v \<longrightarrow> V s = v)"
  by (auto simp: ok_def okp_def)

lemma okD: "ok v m \<Longrightarrow> D v \<Longrightarrow> m = Some t \<Longrightarrow> V t = v" by (simp add: ok_def)

lemma okpD: "okp v m \<Longrightarrow> D v \<Longrightarrow> m = Some (r, t) \<Longrightarrow> V t = v" by (simp add: okp_def)

lemma ok_if: "(c \<Longrightarrow> ok v a) \<Longrightarrow> (\<not> c \<Longrightarrow> ok v b) \<Longrightarrow> ok v (if c then a else b)" by simp

lemma okp_if: "(c \<Longrightarrow> okp v a) \<Longrightarrow> (\<not> c \<Longrightarrow> okp v b) \<Longrightarrow> okp v (if c then a else b)" by simp

lemma ok_case: "(x = None \<Longrightarrow> ok v a) \<Longrightarrow> (\<And>y. x = Some y \<Longrightarrow> ok v (b y)) \<Longrightarrow> ok v (case x of None \<Rightarrow> a | Some y \<Rightarrow> b y)"
  by (cases x) simp_all

lemma ok_bind: "ok v m \<Longrightarrow> (\<And>s. V s = v \<Longrightarrow> ok v (f s)) \<Longrightarrow> ok v (Option.bind m f)"
  by (cases m) (auto simp: ok_def)

lemma ok_bind_pair: "okp v m \<Longrightarrow> (\<And>r s. V s = v \<Longrightarrow> ok v (f (r, s))) \<Longrightarrow> ok v (Option.bind m f)"
  by (cases m) (auto simp: ok_def okp_def)

lemma okp_bind: "ok v m \<Longrightarrow> (\<And>s. V s = v \<Longrightarrow> okp v (f s)) \<Longrightarrow> okp v (Option.bind m f)"
  by (cases m) (auto simp: ok_def okp_def)

lemma okp_bind_pair: "okp v m \<Longrightarrow> (\<And>r s. V s = v \<Longrightarrow> okp v (f (r, s))) \<Longrightarrow> okp v (Option.bind m f)"
  by (cases m) (auto simp: okp_def)

lemma okp_Pair: "ok v m \<Longrightarrow> okp v (map_option (Pair r) m)"
  by (cases m) simp_all

lemma ok_snd: "okp v m \<Longrightarrow> ok v (map_option snd m)"
  by (cases m) (auto simp: okp_def)

lemma ok_foldM: "(\<And>x s. V s = v \<Longrightarrow> ok v (f x s)) \<Longrightarrow> V s = v \<Longrightarrow> ok v (foldM f xs s)"
  by (induction xs arbitrary: s) (auto intro: ok_bind)

text \<open>A value looked up in the state.\<close>

lemma ok_value: "(\<And>x. ok v (f x)) \<Longrightarrow> ok v (Option.bind m f)"
  by (cases m) simp_all

lemma okp_value: "(\<And>x. okp v (f x)) \<Longrightarrow> okp v (Option.bind m f)"
  by (cases m) simp_all

end

text \<open>
  The fields of an endpoint and of the device that are set when the device starts, and the transfers whose type
  is set then.  A view may depend on them: a write that leaves them alone keeps it.
\<close>

abbreviation ep_wiring :: "usb_endpoint \<Rightarrow> _" where
  "ep_wiring ep \<equiv> (ep_descriptor ep, default_transfer ep, on_stall_change ep, dpram_buffer_offset ep, buffer_size ep,
     ep_num ep, buffer_bit_index ep, double_buffered ep, ep_in ep)"

abbreviation dev_wiring :: "usb_device \<Rightarrow> _" where
  "dev_wiring d \<equiv> (dev_descriptor d, config_descriptor d, config_interfaces d, on_configure d,
     get_descriptor_string d, next_buffer_offset d)"

abbreviation free_transfer :: "trid \<Rightarrow> bool" where
  "free_transfer k \<equiv> k \<noteq> Msc_cmd_transfer \<and> k \<noteq> Picoboot_cmd_transfer"

locale usb_view = view V D for V :: "'a usb_state_scheme \<Rightarrow> 'v" and D +
  fixes cb :: "'a usb_state_scheme caller"
  assumes V_ep [simp]: "(\<And>ep. ep_wiring (f ep) = ep_wiring ep) \<Longrightarrow> V (upd_ep e f s) = V s"
    and V_tr [simp]: "(\<And>tr. tr_type (g tr) = tr_type tr) \<Longrightarrow> V (upd_tr k g s) = V s"
    and V_reset_tr [simp]: "free_transfer k \<or> tr_type (transfers s k) = Some ty \<Longrightarrow> V (usb_reset_transfer k ty cf s) = V s"
    and V_hw [simp]: "V (s\<lparr>hw := h\<rparr>) = V s"
    and V_buf_ctrls [simp]: "V (s\<lparr>buf_ctrls := bc\<rparr>) = V s"
    and V_dpram: "length d = length (dpram s) \<Longrightarrow> V (s\<lparr>dpram := d\<rparr>) = V s"
    and V_device [simp]: "dev_wiring dev = dev_wiring (device s) \<Longrightarrow> V (s\<lparr>device := dev\<rparr>) = V s"
    and V_cb: "V s = v \<Longrightarrow> okp v (cb c s)"
begin

lemma lookups:
  "(\<And>x. ok v (f1 x)) \<Longrightarrow> ok v (Option.bind (m1 :: trid option) f1)"
  "(\<And>x. ok v (f2 x)) \<Longrightarrow> ok v (Option.bind (m2 :: transfer_type option) f2)"
  "(\<And>x. ok v (f3 x)) \<Longrightarrow> ok v (Option.bind (m3 :: epid option) f3)"
  "(\<And>x. ok v (f4 x)) \<Longrightarrow> ok v (Option.bind (m4 :: bytes option) f4)"
  "(\<And>x. ok v (f5 x)) \<Longrightarrow> ok v (Option.bind (m5 :: configure_func option) f5)"
  by (auto intro: ok_value)

lemmas ok_rules = ok_if ok_case ok_bind lookups

lemma call_void_ok: "V s = v \<Longrightarrow> ok v (call_void cb c s)"
  using V_cb by (auto simp: call_void_def intro!: ok_snd)

lemma set_buf_ctrl_V [simp]: "V (set_buf_ctrl_wide ep w s) = V s" "V (set_buf_ctrl_narrow ep i x s) = V s"
  by (simp_all add: set_buf_ctrl_wide_def set_buf_ctrl_narrow_def Let_def)

lemma buffers_V [simp]:
  "V (usb_reset_buffers e s) = V s" "V (usb_current_packet_buffer e s) = V s"
  "V (set_buffer_len e n s) = V s" "V (invalidate_buffer e s) = V s"
  by (simp_all add: usb_reset_buffers_def usb_current_packet_buffer_def set_buffer_len_def invalidate_buffer_def Let_def)

lemma transfers_V [simp]:
  "V (usb_grow_transfer k p s) = V s" "V (usb_chain_transfer e k s) = V s" "V (usb_clear_halt_condition e s) = V s"
  by (simp_all add: usb_grow_transfer_def usb_chain_transfer_def usb_clear_halt_condition_def)

lemma stall_ok: "V s = v \<Longrightarrow> ok v (usb_stall_endpoint cb e hs s)"
  by (simp only: usb_stall_endpoint_def Let_def) (intro ok_rules call_void_ok; simp)

lemma dpram_store_ok: "V s = v \<Longrightarrow> ok v (dpram_store off bs s)"
  by (auto simp: dpram_store_def ok_def intro!: V_dpram length_store_list)

lemma give_ok: "V s = v \<Longrightarrow> ok v (usb_give_buffer e len s)"
  by (simp only: usb_give_buffer_def Let_def) (intro ok_rules; simp)

lemma call_on_packet_ok: "V s = v \<Longrightarrow> ok v (usb_call_on_packet cb e s)"
  by (simp only: usb_call_on_packet_def Let_def) (intro ok_rules call_void_ok; simp)

lemma give_as_many_same: "give_as_many cb' e s = Some t \<Longrightarrow> cb' = cb \<Longrightarrow> D (V s) \<Longrightarrow> V t = V s"
proof (induction rule: give_as_many.raw_induct [rotated, consumes 1, case_names step])
  case (step f cb' e s t)
  then have IH: "V s = v \<Longrightarrow> ok v (f cb e s)" for s v and e by (auto simp: ok_def)
  have "ok (V s) (if may_give_buffer e s
          then if ep_in (endpoints s e)
               then Option.bind (usb_call_on_packet cb e s)
                 (\<lambda>s'. if owned_buffer_count (endpoints s' e) = owned_buffer_count (endpoints s e) then Some s'
                       else f cb e s')
               else Option.bind (usb_give_buffer e (ucast (buffer_size (endpoints s e))) s) (\<lambda>s'. f cb e s')
          else Some s)"
    by (intro ok_rules call_on_packet_ok give_ok IH; simp)
  from okD [OF this] step.hyps(1) step.prems show ?case by blast
qed

lemma give_as_many_ok: "V s = v \<Longrightarrow> ok v (give_as_many cb e s)"
  using give_as_many_same by (auto simp: ok_def)

lemma start_transfer_ok: "V s = v \<Longrightarrow> ok v (usb_start_transfer cb e k s)"
  by (simp only: usb_start_transfer_def Let_def) (intro give_as_many_ok; simp)

lemma completion_ok: "V s = v \<Longrightarrow> ok v (check_for_transfer_completion cb e s)"
  by (simp only: check_for_transfer_completion_def Let_def) (intro ok_rules call_void_ok start_transfer_ok; simp)

lemma handle_transfer_ok: "V s = v \<Longrightarrow> ok v (usb_handle_transfer cb num is_in which s)"
  by (simp only: usb_handle_transfer_def Let_def usb_halt_endpoint_def)
    (intro ok_rules stall_ok call_on_packet_ok completion_ok; simp)

lemma packet_done_ok: "V s = v \<Longrightarrow> ok v (usb_packet_done cb e s)"
  by (simp only: usb_packet_done_def Let_def)
    (intro ok_rules completion_ok give_ok handle_transfer_ok give_as_many_ok; simp)

lemma reset_and_start_ok:
  "V s = v \<Longrightarrow> free_transfer k \<or> tr_type (transfers s k) = Some ty \<Longrightarrow> ok v (usb_reset_and_start_transfer cb e k ty f s)"
  by (simp only: usb_reset_and_start_transfer_def) (intro start_transfer_ok; simp)

lemma start_default_ok: "V s = v \<Longrightarrow> ok v (start_default_transfer cb e s)"
  unfolding start_default_transfer_def
  by (cases "default_transfer (endpoints s e)"; cases "tr_type (transfers s (the (default_transfer (endpoints s e))))")
    (auto intro: reset_and_start_ok)

lemma start_default_if_ok:
  "V s = v \<Longrightarrow> ok v (usb_start_default_transfer_if_not_already_running_or_halted cb e s)"
  by (simp only: usb_start_default_transfer_if_not_already_running_or_halted_def Let_def)
    (intro ok_rules start_default_ok; simp)

lemma reset_endpoint_ok: "V s = v \<Longrightarrow> ok v (usb_reset_endpoint cb e hard s)"
  by (simp only: usb_reset_endpoint_def Let_def) (intro ok_rules call_void_ok start_default_ok; simp)

lemmas endpoint_ok = reset_endpoint_ok [of _ _ _ False, folded usb_soft_reset_endpoint_def]
  reset_endpoint_ok [of _ _ _ True, folded usb_hard_reset_endpoint_def]

text \<open>Control transfers and the interrupt handler.\<close>

lemma stall_control_pipe_ok: "V s = v \<Longrightarrow> ok v (usb_stall_control_pipe cb s)"
  by (simp only: usb_stall_control_pipe_def Let_def) (intro ok_rules stall_ok; simp)

lemma empty_transfer_ok: "V s = v \<Longrightarrow> free_transfer k \<Longrightarrow> ok v (usb_start_empty_transfer cb e k f s)"
  by (simp only: usb_start_empty_transfer_def Let_def) (intro reset_and_start_ok; simp)

lemma control_in_ok:
  "V s = v \<Longrightarrow> ok v (usb_start_single_buffer_control_in_transfer cb s)"
  "V s = v \<Longrightarrow> ok v (usb_start_empty_control_in_transfer cb f s)"
  "V s = v \<Longrightarrow> ok v (tf_send_control_in_ack cb s)"
  "V s = v \<Longrightarrow> ok v (tf_send_control_out_ack cb s)"
  by (simp_all add: usb_start_single_buffer_control_in_transfer_def usb_start_empty_control_in_transfer_def
      tf_send_control_in_ack_def tf_send_control_out_ack_def reset_and_start_ok empty_transfer_ok)

lemma tiny_transfer_ok: "V s = v \<Longrightarrow> ok v (usb_start_tiny_control_in_transfer cb data len s)"
  by (simp only: usb_start_tiny_control_in_transfer_def Let_def) (intro ok_rules dpram_store_ok control_in_ok; simp)

lemma set_address_V [simp]: "V (usb_handle_set_address addr s) = V s" "V (tf_set_address s) = V s"
  by (simp_all add: usb_handle_set_address_def tf_set_address_def)

lemma set_config_ok: "V s = v \<Longrightarrow> ok v (usb_handle_set_config cb n s)"
  by (simp only: usb_handle_set_config_def for_each_endpoint_def Let_def)
    (intro ok_rules ok_foldM endpoint_ok call_void_ok; simp)

lemma bus_reset_ok: "V s = v \<Longrightarrow> ok v (usb_handle_bus_reset cb s)"
  by (simp only: usb_handle_bus_reset_def Let_def) (intro ok_rules set_config_ok; simp)

lemma okp_lookups:
  "(\<And>x. okp v (f1 x)) \<Longrightarrow> okp v (Option.bind (m1 :: stream_funcs option) f1)"
  "(\<And>x. okp v (f2 x)) \<Longrightarrow> okp v (Option.bind (m2 :: epid option) f2)"
  by (auto intro: okp_value)

lemma finds: "(\<And>x. ok v (f1 x)) \<Longrightarrow> ok v (Option.bind (m1 :: ifid option option) f1)"
  "(\<And>x. ok v (f2 x)) \<Longrightarrow> ok v (Option.bind (m2 :: epid option option) f2)"
  by (auto intro: ok_value)

lemma device_in_okp: "V s = v \<Longrightarrow> okp v (device_in_request setup buf s)"
  unfolding device_in_request_def usb_handle_get_descriptor_def
  by (auto intro!: okp_if okp_Pair dpram_store_ok split: option.split)

lemma device_setup_ok: "V s = v \<Longrightarrow> ok v (default_handle_device_setup_request cb setup s)"
  by (simp only: default_handle_device_setup_request_def Let_def prod.case)
    (intro ok_if ok_bind_pair ok_bind device_in_okp control_in_ok stall_control_pipe_ok set_config_ok;
      simp add: control_in_ok stall_control_pipe_ok)

lemma interface_setup_ok: "V s = v \<Longrightarrow> ok v (default_handle_interface_setup_request cb setup s)"
  by (simp only: default_handle_interface_setup_request_def) (intro ok_rules tiny_transfer_ok stall_control_pipe_ok; simp)

lemma endpoint_setup_ok: "V s = v \<Longrightarrow> ok v (default_handle_endpoint_setup_request cb setup e s)"
  by (simp only: default_handle_endpoint_setup_request_def)
    (intro ok_rules tiny_transfer_ok stall_control_pipe_ok endpoint_ok control_in_ok stall_ok; simp)

lemma setup_packet_ok: "V s = v \<Longrightarrow> ok v (usb_handle_setup_packet cb setup s)"
  by (simp only: usb_handle_setup_packet_def Let_def prod.case)
    (intro ok_if ok_case ok_bind ok_bind_pair finds device_setup_ok interface_setup_ok endpoint_setup_ok endpoint_ok
      stall_control_pipe_ok V_cb; simp add: interface_setup_ok)

lemma handle_buffer_ok: "V s = v \<Longrightarrow> ok v (usb_handle_buffer cb s)"
  by (simp only: usb_handle_buffer_def handle_buffer_bit_def hw_clear_buf_status_def Let_def)
    (intro ok_rules ok_foldM handle_transfer_ok; simp)

lemma ok_map_option: "ok v m \<Longrightarrow> (\<And>s. V (f s) = V s) \<Longrightarrow> ok v (map_option f m)"
  by (cases m) simp_all

lemma isr_ok: "V s = v \<Longrightarrow> ok v (isr_usbctrl cb s)"
  by (simp only: isr_usbctrl_def Let_def)
    (intro ok_rules ok_map_option setup_packet_ok handle_buffer_ok bus_reset_ok; simp)

end


subsection \<open>Streams\<close>

locale stream_view = usb_view V D cb for V :: "'a stream_state_scheme \<Rightarrow> 'v" and D cb +
  assumes V_streams [simp]: "V (s\<lparr>streams := st\<rparr>) = V s"
    and V_gpio [simp]: "V (s\<lparr>gpio_out := g\<rparr>) = V s"
    and V_sector_buf: "length sb = length (sector_buf s) \<Longrightarrow> V (s\<lparr>sector_buf := sb\<rparr>) = V s"
    and V_picoboot_buf: "length pb = length (picoboot_buf s) \<Longrightarrow> V (s\<lparr>picoboot_buf := pb\<rparr>) = V s"
begin

lemma stream_V [simp]: "V (upd_st k f s) = V s" "V (gpio_set_mask m s) = V s" "V (gpio_clr_mask m s) = V s"
  by (simp_all add: upd_st_def gpio_set_mask_def gpio_clr_mask_def)

lemma store_data_ok: "V s = v \<Longrightarrow> ok v (store_data p bs s)"
  by (auto simp: store_data_def ok_def intro!: V_sector_buf V_picoboot_buf length_store_list split: data_ptr.splits)

lemma chunk_store_ok: "V s = v \<Longrightarrow> ok v (chunk_store p off bs s)"
  by (simp only: chunk_store_def) (intro lookups store_data_ok)

lemma stream_receive_ok: "V s = v \<Longrightarrow> ok v (stream_receive k e s)"
  by (simp only: stream_receive_def Let_def) (intro ok_rules store_data_ok chunk_store_ok; simp)

lemma funcs_lookup: "(\<And>x. ok v (f x)) \<Longrightarrow> ok v (Option.bind (m :: stream_funcs option) f)"
  by (rule ok_value)

lemma handler_complete_ok: "V s = v \<Longrightarrow> ok v (usb_stream_packet_handler_complete cb k s)"
  by (simp only: usb_stream_packet_handler_complete_def Let_def)
    (intro ok_rules funcs_lookup dpram_store_ok call_void_ok packet_done_ok; simp)

lemma packet_handler_ok: "V s = v \<Longrightarrow> ok v (usb_stream_packet_packet_handler cb e s)"
  by (simp only: usb_stream_packet_packet_handler_def Let_def)
    (intro lookups ok_if ok_bind_pair okp_if okp_Pair okp_lookups stream_receive_ok V_cb handler_complete_ok;
      auto intro!: funcs_lookup ok_bind_pair V_cb handler_complete_ok)

lemma setup_transfer_V [simp]: "free_transfer k \<Longrightarrow> V (usb_stream_setup_transfer k funcs p c len f s) = V s"
  by (simp add: usb_stream_setup_transfer_def Let_def)

end

subsection \<open>The mass storage class\<close>

locale msc_view = stream_view V D cb for V :: "'a usb_msc_state_scheme \<Rightarrow> 'v" and D cb +
  fixes prog :: program
  assumes V_msc [simp]: "V (s\<lparr>msc := m\<rparr>) = V s"
    and V_ejected [simp]: "V (s\<lparr>ejected := ej\<rparr>) = V s"
    and V_uf2 [simp]: "V (s\<lparr>uf2 := u\<rparr>) = V s"
    and V_token [simp]: "V (s\<lparr>msc_async_token := tok\<rparr>) = V s"
    and V_lba [simp]: "V (s\<lparr>msc_lba := lb\<rparr>) = V s"
    and V_one_time [simp]: "\<not> msc_one_time s \<Longrightarrow> D (V s) \<Longrightarrow>
      V ((upd_ep Msc_in (on_stall_change_update (\<lambda>_. Some Msc_in_on_stall_change))
            (usb_set_default_transfer Msc_out Msc_cmd_transfer
               (upd_tr Msc_cmd_transfer (tr_type_update (\<lambda>_. Some Msc_cmd_type)) s)))\<lparr>msc_one_time := True\<rparr>) = V s"
    and V_boot_device [simp]: "V (s\<lparr>boot_device := bd\<rparr>) = V s"
    and V_write: "vd_write_block (prog_am prog) (prog_uf2 prog) (prog_wrapper prog) tok lba buf s = Some (Returned r t) \<Longrightarrow>
      V t = V s"
begin

lemma msc_V [simp]:
  "V (upd_msc f s) = V s" "V (set_sense sk asc ascq s) = V s" "V (set_csw_status st s) = V s"
  "V (set_stall_direction d s) = V s" "V (reduce_residue k s) = V s" "V (msc_set_csw_failed sk asc ascq s) = V s"
  "V (msc_eject s) = V s" "V (vd_reset s) = V s" "V (di_or_do_decision cbw ex d s) = V s"
  "V (msc_accept_command cbw s) = V s"
  by (simp_all add: upd_msc_def set_sense_def set_csw_status_def set_stall_direction_def reduce_residue_def
      msc_set_csw_failed_def msc_eject_def vd_reset_def di_or_do_decision_def msc_accept_command_def Let_def)

lemma response_buffer_ok: "V s = v \<Longrightarrow> ok v (usb_get_single_packet_response_buffer e len s)"
  by (simp only: usb_get_single_packet_response_buffer_def Let_def) (intro ok_rules dpram_store_ok; simp)

lemma respond_ok: "V s = v \<Longrightarrow> ok v (respond e bs s)"
  by (simp only: respond_def) (intro ok_rules response_buffer_ok dpram_store_ok; simp)

lemma cmd_response_ok: "V s = v \<Longrightarrow> ok v (msc_reset_and_start_cmd_response_transfer cb f s)"
  by (simp add: msc_reset_and_start_cmd_response_transfer_def reset_and_start_ok)

lemma send_csw_ok: "V s = v \<Longrightarrow> ok v (msc_send_csw cb s)"
  by (simp only: msc_send_csw_def Let_def) (intro ok_rules respond_ok cmd_response_ok; simp)

lemma wait_command_ok: "V s = v \<Longrightarrow> ok v (tf_wait_command cb e s)"
  by (simp add: tf_wait_command_def start_default_if_ok)

lemma data_phase_complete_ok: "V s = v \<Longrightarrow> ok v (msc_data_phase_complete cb s)"
  by (simp only: msc_data_phase_complete_def Let_def usb_halt_endpoint_def)
    (intro ok_rules stall_ok send_csw_ok; simp)

lemma init_for_dn_ok: "V s = v \<Longrightarrow> ok v (msc_init_for_dn cb cbw s)"
  by (simp add: msc_init_for_dn_def data_phase_complete_ok)

lemma init_for_di_or_do_okp: "V s = v \<Longrightarrow> okp v (msc_init_for_di_or_do cb cbw ex d s)"
  by (auto simp: msc_init_for_di_or_do_def Let_def intro!: okp_Pair data_phase_complete_ok)

lemma standard_response_ok: "V s = v \<Longrightarrow> ok v (scsi_standard_response cb cbw s)"
  by (simp only: scsi_standard_response_def Let_def)
    (intro ok_bind_pair init_for_di_or_do_okp; auto intro!: cmd_response_ok)

lemma memcpy_response_ok: "V s = v \<Longrightarrow> ok v (scsi_memcpy_response cb cbw bs s)"
  by (simp only: scsi_memcpy_response_def) (intro ok_rules respond_ok standard_response_ok; simp)

lemma decompress_ok: "V s = v \<Longrightarrow> ok v (dpram_decompress z off s)"
  by (auto simp: dpram_decompress_def ok_def intro!: V_dpram dest!: keeps_lengthD [OF keeps_length_decompress])

lemma inquiry_ok: "V s = v \<Longrightarrow> ok v (scsi_handle_inquiry_response p cb cbw s)"
  by (simp only: scsi_handle_inquiry_response_def Let_def)
    (intro ok_rules response_buffer_ok decompress_ok dpram_store_ok standard_response_ok; simp)

lemma commands_ok:
  "V s = v \<Longrightarrow> ok v (scsi_handle_mode_sense cb cbw s)"
  "V s = v \<Longrightarrow> ok v (scsi_handle_read_capacity cb cbw s)"
  "V s = v \<Longrightarrow> ok v (scsi_handle_read_format_capacities cb cbw s)"
  "V s = v \<Longrightarrow> ok v (scsi_handle_test_unit_ready cb cbw s)"
  "V s = v \<Longrightarrow> ok v (scsi_handle_start_stop_unit cb cbw s)"
  "V s = v \<Longrightarrow> ok v (scsi_fail_cmd cb cbw sk asc ascq s)"
  by (simp_all add: scsi_handle_mode_sense_def scsi_handle_read_capacity_def scsi_handle_read_format_capacities_def
      scsi_handle_test_unit_ready_def scsi_handle_start_stop_unit_def scsi_fail_cmd_def memcpy_response_ok init_for_dn_ok)

lemma request_sense_ok: "V s = v \<Longrightarrow> ok v (scsi_handle_request_sense cb cbw s)"
  by (simp only: scsi_handle_request_sense_def) (intro ok_rules respond_ok standard_response_ok; simp)

lemma read_or_write_ok: "V s = v \<Longrightarrow> ok v (scsi_handle_read_or_write_command cb cbw d s)"
  by (simp only: scsi_handle_read_or_write_command_def scsi_read_or_write_blocks_def Let_def)
    (intro ok_bind_pair init_for_di_or_do_okp; auto intro!: start_transfer_ok data_phase_complete_ok)

lemma execute_ok: "V s = v \<Longrightarrow> ok v (msc_execute p cb cbw s)"
  by (simp only: msc_execute_def Let_def)
    (intro ok_if inquiry_ok commands_ok request_sense_ok read_or_write_ok init_for_dn_ok; simp)

lemma cmd_halt_ok: "V s = v \<Longrightarrow> ok v (msc_cmd_halt cb s)"
  by (simp only: msc_cmd_halt_def usb_halt_endpoint_on_condition_def) (intro ok_rules stall_ok; simp)

lemma cmd_packet_ok: "V s = v \<Longrightarrow> ok v (msc_cmd_packet p cb e s)"
  by (simp only: msc_cmd_packet_def msc_cmd_packet_internal_def Let_def)
    (intro ok_rules execute_ok cmd_halt_ok packet_done_ok; simp)

lemma write_okp:
  assumes "V s = v"
  shows "okp v (Option.bind (vd_write_block (prog_am prog) (prog_uf2 prog) (prog_wrapper prog) k lba buf s)
           (\<lambda>r. case r of Returned async s \<Rightarrow> Some (async, s) | Rebooted _ \<Rightarrow> None))"
proof (cases "vd_write_block (prog_am prog) (prog_uf2 prog) (prog_wrapper prog) k lba buf s")
  case (Some r)
  then show ?thesis using assms V_write by (cases r) auto
qed simp

lemma sector_chunk_okp: "V s = v \<Longrightarrow> okp v (msc_on_sector_stream_chunk prog s)"
  by (simp only: msc_on_sector_stream_chunk_def Let_def)
    (intro okp_lookups okp_if write_okp; auto simp: okp_def bind_eq_Some_conv V_sector_buf dest!: length_vd_read_block)

lemma on_stall_change_ok: "V s = v \<Longrightarrow> ok v (msc_in_on_stall_change cb e s)"
  by (simp add: msc_in_on_stall_change_def send_csw_ok)

lemma msc_reset_ok: "V s = v \<Longrightarrow> ok v (msc_reset cb s)"
proof (cases "D v")
  case True
  then show "V s = v \<Longrightarrow> ok v (msc_reset cb s)"
    by (simp only: msc_reset_def Let_def) (intro ok_rules endpoint_ok; simp)
qed (simp add: ok_def)

lemma msc_setup_okp: "V s = v \<Longrightarrow> okp v (msc_setup_request_handler cb setup s)"
  by (simp only: msc_setup_request_handler_def Let_def)
    (intro okp_if okp_bind dpram_store_ok control_in_ok msc_reset_ok; simp)

lemma on_configure_ok: "V s = v \<Longrightarrow> ok v (msc_on_configure cb c s)"
  by (simp add: msc_on_configure_def msc_reset_ok)

lemma async_complete_ok: "V s = v \<Longrightarrow> ok v (vd_async_complete cb tok r s)"
  by (simp only: vd_async_complete_def usb_stream_chunk_done_def)
    (intro ok_rules data_phase_complete_ok handler_complete_ok; simp)

end

subsection \<open>PICOBOOT and the dispatch\<close>

locale boot_view = msc_view V D cb prog for V :: "'a boot_state_scheme \<Rightarrow> 'v" and D cb prog +
  assumes V_cmd_status [simp]: "V (s\<lparr>picoboot_cmd_status := cs\<rparr>) = V s"
    and V_ps_task [simp]: "V (s\<lparr>ps_task := pt\<rparr>) = V s"
    and V_real_token [simp]: "V (s\<lparr>real_token := rt\<rparr>) = V s"
    and V_queues [simp]: "V (s\<lparr>virtual_disk_queue := vq\<rparr>) = V s" "V (s\<lparr>picoboot_queue := pq\<rparr>) = V s"
    and V_abort [simp]: "V (call_flash Flash_abort s) = V s"
    and V_reboot [simp]: "V (safe_reboot pc sp ms s) = V s"
begin

lemma boot_V [simp]: "V (set_in_progress b s) = V s" "V (set_cmd_status st s) = V s"
  "V (picoboot_prepare pb cmd s) = V s" "V (queue_ps_task c s) = V s"
  by (simp_all add: set_in_progress_def set_cmd_status_def picoboot_prepare_def queue_ps_task_def queue_task_def Let_def)

lemma picoboot_reset_ok: "V s = v \<Longrightarrow> ok v (picoboot_reset cb s)"
  by (simp only: picoboot_reset_def Let_def) (intro ok_rules endpoint_ok; simp)

lemma picoboot_ack_ok: "V s = v \<Longrightarrow> ok v (picoboot_ack cb s)"
  by (simp add: picoboot_ack_def Let_def empty_transfer_ok)

lemma picoboot_setup_okp: "V s = v \<Longrightarrow> okp v (picoboot_setup_request_handler p cb setup s)"
  by (simp only: picoboot_setup_request_handler_def Let_def)
    (intro okp_if okp_bind respond_ok control_in_ok picoboot_reset_ok; simp)

lemma picoboot_start_ok: "V s = v \<Longrightarrow> ok v (picoboot_start cb cmd ty s)"
  by (simp only: picoboot_start_def Let_def) (intro ok_rules start_transfer_ok; simp)

lemma picoboot_halt_ok: "V s = v \<Longrightarrow> ok v (picoboot_halt cb s)"
  by (simp only: picoboot_halt_def usb_halt_endpoint_def) (intro ok_rules stall_ok; simp)

lemma picoboot_packet_ok: "V s = v \<Longrightarrow> ok v (picoboot_cmd_packet p cb e s)"
  by (simp only: picoboot_cmd_packet_def picoboot_cmd_packet_internal_def Let_def case_prod_beta)
    (intro ok_rules picoboot_ack_ok picoboot_start_ok picoboot_halt_ok packet_done_ok; simp)

lemma boot_configure_ok: "V s = v \<Longrightarrow> ok v (usb_boot_on_configure cb c s)"
  by (simp only: usb_boot_on_configure_def) (intro ok_rules on_configure_ok picoboot_reset_ok; simp)

lemma void_okp: "ok v m \<Longrightarrow> okp v (void m)"
  by (auto simp: void_def intro: okp_Pair)

lemma invoke_okp: "V s = v \<Longrightarrow> okp v (invoke prog cb c s)"
  unfolding invoke_def usb_transfer_current_packet_only_def tf_picoboot_wait_command_def
  by (cases c)
    (auto intro!: void_okp packet_done_ok cmd_packet_ok packet_handler_ok picoboot_packet_ok control_in_ok wait_command_ok
      data_phase_complete_ok picoboot_ack_ok start_default_if_ok on_stall_change_ok boot_configure_ok msc_setup_okp
      picoboot_setup_okp sector_chunk_okp
      simp: msc_on_sector_stream_packet_complete_def picoboot_on_stream_chunk_def Let_def
      split: transfer_type.split completed_func.split stall_func.split configure_func.split setup_func.split
        stream_funcs.split)

end


subsection \<open>Memory and flash under interrupts\<close>

text \<open>
  The view: the table of flash functions, the calls of the flash driver but aborts, the source of the last
  mutation, and the memory but for the bit sets that a transfer of UF2 blocks clears.
\<close>

definition bitset_byte :: "addressmap \<Rightarrow> u32 \<Rightarrow> bool" where
  "bitset_byte am x \<longleftrightarrow>
     (\<exists>k < unat (of_nat (FLASH_MAX_VALID_BLOCKS am) :: u32) div 8. x = FLASH_VALID_BLOCKS_BASE am + of_nat k) \<or>
     (\<exists>k < unat (of_nat (FLASH_MAX_CLEARED_PAGES am) :: u32) div 8. x = FLASH_CLEARED_PAGES_BASE am + of_nat k)"

definition outside_bitsets :: "addressmap \<Rightarrow> memory \<Rightarrow> memory" where
  "outside_bitsets am m x = (if bitset_byte am x then None else m x)"

definition quiet_view ::
    "addressmap \<Rightarrow> 'a disk_state_scheme \<Rightarrow> memory \<times> u32 option \<times> flash_call list \<times> u8" where
  "quiet_view am s =
     (outside_bitsets am (mem s), flash_funcs s, filter (\<lambda>c. c \<noteq> Flash_abort) (flash_calls s),
      last_mutation_source s)"

lemma clear_bitset_quiet:
  assumes "clear_bitset p count s = Some t"
    and "\<And>a x. p = BitsAt a \<Longrightarrow> \<not> bitset_byte am x \<Longrightarrow> \<forall>k < unat count div 8. x \<noteq> a + of_nat k"
  shows "quiet_view am t = quiet_view am s"
proof (cases p)
  case (BitsAt a)
  then obtain m where m: "mem_write a (replicate (unat count div 8) 0) (mem s) = Some m" "t = s\<lparr>mem := m\<rparr>"
    using assms(1) by (auto simp: clear_bitset_def Let_def)
  have "m x = mem s x" if "\<not> bitset_byte am x" for x
    using mem_write_outside [OF m(1), of x] assms(2) [OF BitsAt that] by auto
  then show ?thesis using m(2) by (auto simp: quiet_view_def outside_bitsets_def)
qed (use assms(1) in \<open>auto simp: clear_bitset_def quiet_view_def\<close>)

lemma quiet_uf2 [simp]: "quiet_view am (s\<lparr>uf2 := u\<rparr>) = quiet_view am s"
  by (simp add: quiet_view_def)

lemma new_transfer_quiet:
  assumes "new_uf2_transfer am b ram flash s = Some (r, t)"
  shows "quiet_view am t = quiet_view am s"
proof -
  let ?p = "if ram then RamBlocks else BitsAt (FLASH_VALID_BLOCKS_BASE am)"
  let ?n = "of_nat (if ram then MAX_RAM_UF2_BLOCKS else FLASH_MAX_VALID_BLOCKS am) :: u32"
  obtain s1 s2 where s1: "clear_bitset ?p ?n s = Some s1"
    and s2: "(if flash then clear_bitset (BitsAt (FLASH_CLEARED_PAGES_BASE am)) (of_nat (FLASH_MAX_CLEARED_PAGES am)) s1
        else Some s1) = Some s2"
    and t: "\<exists>i. t = s2\<lparr>uf2 := i\<rparr>"
    using assms by (auto simp: new_uf2_transfer_def Let_def bind_eq_Some_conv split: if_splits)
  have "quiet_view am s1 = quiet_view am s"
    by (rule clear_bitset_quiet [OF s1]) (auto simp: bitset_byte_def split: if_splits)
  moreover have "quiet_view am s2 = quiet_view am s1"
  proof (cases flash)
    case True
    then show ?thesis
      using s2 by (intro clear_bitset_quiet [of "BitsAt (FLASH_CLEARED_PAGES_BASE am)"
            "of_nat (FLASH_MAX_CLEARED_PAGES am)"]) (auto simp: bitset_byte_def)
  qed (use s2 in simp)
  ultimately show ?thesis using t by auto
qed

lemma write_block_quiet:
  assumes "vd_write_block am u wrapper token lba buf s = Some (Returned r t)"
  shows "quiet_view am t = quiet_view am s"
proof (cases "t = s")
  case False
  then obtain ok where "update_current_uf2_info am u (uf2_parse u buf) token s = Some (ok, t)"
    using assms by (auto simp: vd_write_block_def write_uf2_page_def Let_def bind_eq_Some_conv split: if_splits)
  then show ?thesis
    by (auto simp: update_current_uf2_info_def Let_def bind_eq_Some_conv dest!: new_transfer_quiet split: if_splits)
qed simp


lemma quiet_simps:
  "quiet_view am (upd_ep e f s) = quiet_view am s" "quiet_view am (upd_tr k g s) = quiet_view am s"
  "quiet_view am (call_flash Flash_abort s) = quiet_view am s"
  "quiet_view am (safe_reboot pc sp ms s) = quiet_view am s"
  "quiet_view am (usb_reset_transfer k ty cf s) = quiet_view am s" "quiet_view am (usb_set_default_transfer e k s) = quiet_view am s"
  by (simp_all add: quiet_view_def upd_ep_def upd_tr_def call_flash_def safe_reboot_def watchdog_reboot_def
      usb_reset_transfer_def usb_set_default_transfer_def Let_def)

lemma quiet_one_time: "quiet_view am (s\<lparr>msc_one_time := b\<rparr>) = quiet_view am s"
  by (simp add: quiet_view_def)

lemma quiet_boot_view:
  fixes cb :: "'a boot_state_scheme caller"
  assumes "\<And>v c s. quiet_view (prog_am prog) s = v \<Longrightarrow> view.okp (quiet_view (prog_am prog)) (\<lambda>_. True) v (cb c s)"
  shows "boot_view (quiet_view (prog_am prog)) (\<lambda>_. True) cb prog"
  by unfold_locales
    (use assms write_block_quiet in \<open>auto simp: quiet_simps quiet_one_time\<close>, simp_all add: quiet_view_def)

lemma run_boot_view:
  "boot_view (quiet_view (prog_am prog) :: 'a boot_state_scheme \<Rightarrow> _) (\<lambda>_. True) (run prog n) prog"
proof (induction n)
  case 0
  show ?case by (rule quiet_boot_view) (simp add: view.okp_def)
next
  case (Suc n)
  show ?case by (rule quiet_boot_view) (simp add: boot_view.invoke_okp [OF Suc])
qed

interpretation device: boot_view "quiet_view (prog_am prog)" "\<lambda>_. True" "run prog n" prog for prog n
  by (rule run_boot_view)


lemma bitset_in_xip:
  assumes "addressmap_ok am" "bitset_byte am x"
  shows "xip_byte am x"
proof -
  note sizes = bitmap_sizes [OF assms(1)]
  obtain k where k: "k < 16384" "x = XIP_SRAM_BASE am + of_nat k"
  proof (cases "\<exists>k < 15420. x = XIP_SRAM_BASE am + of_nat k")
    case False
    then obtain k where "k < 963" "x = XIP_SRAM_BASE am + of_nat (15420 + k)"
      using assms(2) by (auto simp: bitset_byte_def sizes FLASH_VALID_BLOCKS_BASE_def FLASH_CLEARED_PAGES_BASE_def)
    then show thesis using that [of "15420 + k"] by simp
  next
    case True
    then obtain k where "k < 15420" "x = XIP_SRAM_BASE am + of_nat k" by blast
    then show thesis by (intro that [of k]) simp_all
  qed
  have "unat (XIP_SRAM_BASE am) < unat (XIP_SRAM_END am)"
    "unat (XIP_SRAM_END am) - unat (XIP_SRAM_BASE am) = 16384"
    using assms(1) by (simp_all add: addressmap_ok_def)
  then have "unat (XIP_SRAM_END am) = unat (XIP_SRAM_BASE am) + 16384" by linarith
  moreover from this have "unat x = unat (XIP_SRAM_BASE am) + k"
    using k unat_less_32 [of "XIP_SRAM_END am"] unat_add_small [of "XIP_SRAM_BASE am" k] by simp
  ultimately show ?thesis using k(1) by (simp add: xip_byte_def word_le_nat_alt word_less_nat_alt)
qed

text \<open>C33: Whatever the host has sent and in whatever state the device is, the USB interrupt changes no byte of
  memory but the bit sets of the disk in the cache SRAM, makes no call of the flash driver but an abort,
  and leaves the table of flash functions: only the worker mutates.\<close>

theorem interrupt_leaves_memory:
  assumes "addressmap_ok (prog_am prog)" "device_interrupt prog n s = Some t"
  shows "(\<forall>x. \<not> xip_byte (prog_am prog) x \<longrightarrow> mem t x = mem s x) \<and>
         filter (\<lambda>c. c \<noteq> Flash_abort) (flash_calls t) = filter (\<lambda>c. c \<noteq> Flash_abort) (flash_calls s) \<and>
         flash_funcs t = flash_funcs s \<and> last_mutation_source t = last_mutation_source s"
proof -
  have view: "quiet_view (prog_am prog) t = quiet_view (prog_am prog) s"
    using device.okD [OF device.isr_ok [OF refl]] assms(2) by (simp add: device_interrupt_def)
  have "mem t x = mem s x" if "\<not> xip_byte (prog_am prog) x" for x
  proof -
    have "outside_bitsets (prog_am prog) (mem t) x = outside_bitsets (prog_am prog) (mem s) x"
      using view by (simp add: quiet_view_def)
    then show ?thesis using that bitset_in_xip [OF assms(1)] by (auto simp: outside_bitsets_def split: if_splits)
  qed
  then show ?thesis using view by (simp add: quiet_view_def)
qed

text \<open>For the witness: a setup packet for a recipient that there is none of stalls the control pipe.\<close>

definition example_program :: program where
  "example_program =
     \<lparr>prog_am = rp2040,
      prog_gen = \<lparr>welcome_html_z = [], welcome_html_len = 0, welcome_html_version_offset_1 = 0,
        welcome_html_version_offset_2 = 0, info_uf2_txt = [], scsi_ir_z = []\<rparr>,
      prog_uf2 = uf2_h, prog_pb = picoboot_h, prog_wrapper = 0x1235\<rparr>"

definition example_setup :: boot_state where
  "example_setup = (usb_boot_state (watchdog_hw cold_disk) 0 zero_ram 7)
     \<lparr>hw := zero_usb_hw\<lparr>ints_setup_req := True\<rparr>,
      setup_packet := \<lparr>bmRequestType = 3, bRequest = 0, wValue = 0, wIndex = 0, wLength = 0\<rparr>\<rparr>"

theorem interrupt_leaves_memory_witness:
  "\<exists>t. device_interrupt example_program 1 example_setup = Some t \<and> halt_state (endpoints t Control_in) = HS_NON_HALT_STALL \<and>
     flash_funcs t = None \<and> filter (\<lambda>c. c \<noteq> Flash_abort) (flash_calls t) = []"
proof -
  have "map_option (\<lambda>t. halt_state (endpoints t Control_in)) (device_interrupt example_program 1 example_setup) =
      Some HS_NON_HALT_STALL"
    by code_simp
  then show ?thesis
    using interrupt_leaves_memory [of example_program 1 example_setup] rp2040_ok
    by (auto simp: example_program_def) (simp_all add: example_setup_def usb_boot_state_def)
qed

end
