(* ===== verification/Usb_Wiring.thy ===== *)
theory Usb_Wiring
  imports Usb_Frame
begin

text \<open>
  What is set up once.  \<open>wiring\<close> is the part of the state that the initialisation decides: the constant fields of
  the endpoints and of the device, the registers of the endpoints, the handlers of the interfaces, the sizes of the
  buffers, the transfers that wait for commands.  By the locales of \<open>Usb_Frame\<close> no interrupt changes it.
\<close>

subsection \<open>The view\<close>

text \<open>The first configuration gives \<open>Msc_out\<close> its default transfer and \<open>Msc_in\<close> its function (\<open>msc_one_time\<close>).\<close>

definition ep_fixed :: "epid \<Rightarrow> usb_endpoint \<Rightarrow> _" where
  "ep_fixed e ep =
     (ep_descriptor ep, if e = Msc_out then None else default_transfer ep,
      if e = Msc_in then None else on_stall_change ep, dpram_buffer_offset ep, buffer_size ep,
      (ep_num ep, buffer_bit_index ep, double_buffered ep, ep_in ep))"

definition commands_set_up :: "'a usb_msc_state_scheme \<Rightarrow> bool" where
  "commands_set_up s \<longleftrightarrow>
     tr_type (transfers s Picoboot_cmd_transfer) = Some Picoboot_cmd_type \<and>
     (if msc_one_time s
      then tr_type (transfers s Msc_cmd_transfer) = Some Msc_cmd_type \<and>
           default_transfer (endpoints s Msc_out) = Some Msc_cmd_transfer \<and>
           on_stall_change (endpoints s Msc_in) = Some Msc_in_on_stall_change
      else default_transfer (endpoints s Msc_out) = None \<and> on_stall_change (endpoints s Msc_in) = None)"

definition buffer_sizes :: "'a usb_msc_state_scheme \<Rightarrow> nat \<times> nat \<times> nat \<times> nat \<times> nat" where
  "buffer_sizes s =
     (length (dpram s), length (sector_buf s), length (picoboot_buf s), length (uf2_valid_ram_blocks s),
      length (endpoint_array s))"

definition wiring :: "'a boot_state_scheme \<Rightarrow> _" where
  "wiring s =
     (commands_set_up s, (\<lambda>e. ep_fixed e (endpoints s e)), dev_wiring (device s),
      (endpoint_array s, ep_ctrls s, interfaces s), buffer_sizes s, serial_number_string s, timerawl s)"

definition set_up :: "bool \<times> 'b \<Rightarrow> bool" where "set_up v = fst v"

lemmas wiring_defs = wiring_def ep_fixed_def commands_set_up_def buffer_sizes_def set_up_def

lemma clear_bitset_sizes:
  "clear_bitset p count s = Some t \<Longrightarrow> wiring t = wiring s"
  by (auto simp: clear_bitset_def wiring_defs Let_def length_store_list split: bits_ptr.splits if_splits)

lemma wiring_uf2 [simp]: "wiring (s\<lparr>uf2 := u\<rparr>) = wiring s"
  by (simp add: wiring_defs)

lemma new_transfer_wiring:
  assumes "new_uf2_transfer am b ram flash s = Some (r, t)"
  shows "wiring t = wiring s"
proof -
  obtain p n s1 q k s2 i where "clear_bitset p n s = Some s1"
    and "(if flash then clear_bitset q k s1 else Some s1) = Some s2" "t = s2\<lparr>uf2 := i\<rparr>"
    using assms by (auto simp: new_uf2_transfer_def Let_def bind_eq_Some_conv split: if_splits)
  then show ?thesis using clear_bitset_sizes by (auto split: if_splits)
qed

lemma write_block_wiring:
  assumes "vd_write_block am u wrapper token lba buf s = Some (Returned r t)"
  shows "wiring t = wiring s"
proof (cases "t = s")
  case False
  then obtain ok where "update_current_uf2_info am u (uf2_parse u buf) token s = Some (ok, t)"
    using assms by (auto simp: vd_write_block_def write_uf2_page_def Let_def bind_eq_Some_conv split: if_splits)
  then show ?thesis
    by (auto simp: update_current_uf2_info_def Let_def bind_eq_Some_conv dest!: new_transfer_wiring split: if_splits)
qed simp

lemma wiring_updates:
  "(\<And>ep. ep_wiring (f ep) = ep_wiring ep) \<Longrightarrow> wiring (upd_ep e f s) = wiring s"
  "(\<And>tr. tr_type (g tr) = tr_type tr) \<Longrightarrow> wiring (upd_tr k g s) = wiring s"
  "free_transfer k \<or> tr_type (transfers s k) = Some ty \<Longrightarrow> wiring (usb_reset_transfer k ty cf s) = wiring s"
  "wiring (call_flash Flash_abort s) = wiring s" "wiring (safe_reboot pc sp ms s) = wiring s"
  by (auto simp: wiring_defs upd_ep_def upd_tr_def usb_reset_transfer_def call_flash_def safe_reboot_def watchdog_reboot_def
      fun_eq_iff Let_def)

text \<open>The first reset of the mass storage class keeps the view, because it finds what the start left.\<close>

lemma wiring_one_time:
  assumes "\<not> msc_one_time s" "set_up (wiring s)"
  shows "wiring ((upd_ep Msc_in (on_stall_change_update (\<lambda>_. Some Msc_in_on_stall_change))
      (usb_set_default_transfer Msc_out Msc_cmd_transfer
        (upd_tr Msc_cmd_transfer (tr_type_update (\<lambda>_. Some Msc_cmd_type)) s)))\<lparr>msc_one_time := True\<rparr>) = wiring s"
  using assms by (auto simp: wiring_defs upd_ep_def upd_tr_def usb_set_default_transfer_def fun_eq_iff)

lemma wiring_boot_view:
  fixes cb :: "'a boot_state_scheme caller"
  assumes "\<And>v c s. wiring s = v \<Longrightarrow> view.okp wiring set_up v (cb c s)"
  shows "boot_view wiring set_up cb prog"
  by unfold_locales
    (assumption | rule wiring_updates wiring_one_time wiring_uf2 assms | erule write_block_wiring | simp add: wiring_defs)+

lemma run_wiring_view: "boot_view (wiring :: 'a boot_state_scheme \<Rightarrow> _) set_up (run prog n) prog"
proof (induction n)
  case 0
  show ?case by (rule wiring_boot_view) (simp add: view.okp_def)
next
  case (Suc n)
  show ?case by (rule wiring_boot_view) (simp add: boot_view.invoke_okp [OF Suc])
qed

interpretation wires: boot_view wiring set_up "run prog n" prog for prog n
  by (rule run_wiring_view)

lemma interrupt_wiring:
  "set_up (wiring s) \<Longrightarrow> device_interrupt prog n s = Some t \<Longrightarrow> wiring t = wiring s"
  using wires.okD [OF wires.isr_ok [OF refl]] by (simp add: device_interrupt_def)

subsection \<open>The values that the start gives\<close>

text \<open>Number, direction, double buffering and offset of the buffer.\<close>

primrec ep_plan :: "epid \<Rightarrow> u8 \<times> bool \<times> bool \<times> u16" where
  "ep_plan Control_in = (0, True, False, 0x100)"
| "ep_plan Control_out = (0, False, False, 0x100)"
| "ep_plan Msc_in = (1, True, True, 0x180)"
| "ep_plan Msc_out = (2, False, True, 0x200)"
| "ep_plan Picoboot_out = (3, False, True, 0x280)"
| "ep_plan Picoboot_in = (4, True, True, 0x300)"

definition planned :: "epid \<Rightarrow> usb_endpoint \<Rightarrow> bool" where
  "planned e ep \<longleftrightarrow>
     (ep_num ep, ep_in ep, double_buffered ep, dpram_buffer_offset ep) = ep_plan e \<and> buffer_size ep = 64 \<and>
     (e \<noteq> Msc_out \<longrightarrow> default_transfer ep = (if e = Picoboot_out then Some Picoboot_cmd_transfer else None)) \<and>
     (e \<noteq> Msc_in \<longrightarrow> on_stall_change ep = None)"

definition wired :: "'a boot_state_scheme \<Rightarrow> bool" where
  "wired s \<longleftrightarrow>
     commands_set_up s \<and> (\<forall>e. planned e (endpoints s e)) \<and> buffer_sizes s = (4096, 512, 256, 160, 5) \<and>
     endpoint_array s = [None, Some Msc_in, Some Msc_out, Some Picoboot_out, Some Picoboot_in] \<and>
     ep_ctrls s (1, True) = Some \<lparr>ec_double = True, ec_offset = 0x180\<rparr> \<and>
     ep_ctrls s (2, False) = Some \<lparr>ec_double = True, ec_offset = 0x200\<rparr> \<and>
     ep_ctrls s (3, False) = Some \<lparr>ec_double = True, ec_offset = 0x280\<rparr> \<and>
     ep_ctrls s (4, True) = Some \<lparr>ec_double = True, ec_offset = 0x300\<rparr> \<and>
     config_descriptor (device s) = boot_device_config \<and> on_configure (device s) = Some Usb_boot_on_configure \<and>
     setup_request_handler (interfaces s Msd_interface) = Some Msc_setup_request_handler \<and>
     setup_request_handler (interfaces s Picoboot_interface) = Some Picoboot_setup_request_handler"

lemma planned_fixed:
  assumes "ep_fixed e a = ep_fixed e b" shows "planned e a = planned e b"
  using assms by (cases e) (auto simp: ep_fixed_def planned_def)

lemma wired_wiring:
  assumes "wiring t = wiring s" shows "wired t = wired s"
proof -
  have "commands_set_up t = commands_set_up s" "(\<lambda>e. ep_fixed e (endpoints t e)) = (\<lambda>e. ep_fixed e (endpoints s e))"
    "dev_wiring (device t) = dev_wiring (device s)" "endpoint_array t = endpoint_array s" "ep_ctrls t = ep_ctrls s"
    "interfaces t = interfaces s" "buffer_sizes t = buffer_sizes s"
    using assms unfolding wiring_def prod.inject by blast+
  moreover from this(2) have "planned e (endpoints t e) = planned e (endpoints s e)" for e
    by (intro planned_fixed) (rule fun_cong)
  ultimately show ?thesis by (simp add: wired_def)
qed

lemma wired_set_up: "wired s \<Longrightarrow> set_up (wiring s)"
  by (simp add: wired_def set_up_def wiring_def)

lemma interrupt_wired: "wired s \<Longrightarrow> device_interrupt prog n s = Some t \<Longrightarrow> wired t"
  using interrupt_wiring [OF wired_set_up] wired_wiring by blast

end
