(* ===== verification/Usb_Start.thy ===== *)
theory Usb_Start
  imports Usb_Wiring
begin

text \<open>The initialisation leaves the device wired.\<close>

lemma descriptors:
  "usb_next_descriptor (drop 9 boot_device_config) 5 = Some (drop 18 boot_device_config)"
  "usb_next_descriptor (drop 18 boot_device_config) 5 = Some (drop 25 boot_device_config)"
  "usb_next_descriptor (drop 32 boot_device_config) 5 = Some (drop 41 boot_device_config)"
  "usb_next_descriptor (drop 41 boot_device_config) 5 = Some (drop 48 boot_device_config)"
  by code_simp+

lemma descriptor_fields:
  "drop 18 boot_device_config ! 2 = 0x81" "of_le16 (drop 4 (drop 18 boot_device_config)) = 64"
  "drop 25 boot_device_config ! 2 = 2" "of_le16 (drop 4 (drop 25 boot_device_config)) = 64"
  "drop 41 boot_device_config ! 2 = 3" "of_le16 (drop 4 (drop 41 boot_device_config)) = 64"
  "drop 48 boot_device_config ! 2 = 0x84" "of_le16 (drop 4 (drop 48 boot_device_config)) = 64"
  by code_simp+

text \<open>An endpoint as \<open>init_endpoints\<close> sets it up.\<close>

definition ep_set_up :: "bytes \<Rightarrow> u8 \<Rightarrow> bool \<Rightarrow> usb_endpoint \<Rightarrow> usb_endpoint" where
  "ep_set_up d num is_in ep =
     ep\<lparr>ep_num := num, ep_in := is_in, buffer_size := 64, double_buffered := True,
        buffer_bit_index := num * 2 + (if is_in then 0 else 1), ep_descriptor := Some d\<rparr>"

definition interface_set_up :: "bytes \<Rightarrow> setup_func \<Rightarrow> usb_interface \<Rightarrow> usb_interface" where
  "interface_set_up d f i = i\<lparr>if_descriptor := Some d, setup_request_handler := Some f\<rparr>"

lemmas set_up_defs = ep_set_up_def interface_set_up_def

lemma init_msc:
  assumes "length (endpoint_array s) = 5"
  shows "init_msc_interface boot_device_config 0 s =
    Some (s\<lparr>interfaces := (interfaces s)(Msd_interface :=
              interface_set_up (drop 9 boot_device_config) Msc_setup_request_handler (interfaces s Msd_interface)),
            endpoints := (endpoints s)
              (Msc_in := ep_set_up (drop 18 boot_device_config) 1 True (endpoints s Msc_in),
               Msc_out := ep_set_up (drop 25 boot_device_config) 2 False (endpoints s Msc_out)),
            endpoint_array := (endpoint_array s)[1 := Some Msc_in, 2 := Some Msc_out]\<rparr>)"
  using assms
  by (simp add: init_msc_interface_def usb_interface_init_def descriptors descriptor_fields usb_constants Let_def
      usb_endpoint_init_internal_def upd_ep_def set_up_defs set_setup_handler_def del: drop_drop)

lemma init_picoboot:
  assumes "length (endpoint_array s) = 5"
  shows "init_picoboot_interface boot_device_config 0 s =
    Some (s\<lparr>interfaces := (interfaces s)(Picoboot_interface :=
              interface_set_up (drop 32 boot_device_config) Picoboot_setup_request_handler (interfaces s Picoboot_interface)),
            endpoints := (endpoints s)
              (Picoboot_out := (ep_set_up (drop 41 boot_device_config) 3 False (endpoints s Picoboot_out))
                 \<lparr>default_transfer := Some Picoboot_cmd_transfer\<rparr>,
               Picoboot_in := ep_set_up (drop 48 boot_device_config) 4 True (endpoints s Picoboot_in)),
            transfers := (transfers s)(Picoboot_cmd_transfer :=
              (transfers s Picoboot_cmd_transfer)\<lparr>tr_type := Some Picoboot_cmd_type\<rparr>),
            endpoint_array := (endpoint_array s)[3 := Some Picoboot_out, 4 := Some Picoboot_in]\<rparr>)"
  using assms
  by (simp add: init_picoboot_interface_def usb_interface_init_def descriptors descriptor_fields usb_constants Let_def
      usb_endpoint_init_internal_def upd_ep_def upd_tr_def set_up_defs set_setup_handler_def usb_set_default_transfer_def
      fun_upd_twist del: drop_drop)

text \<open>The buffers of the four endpoints follow one another; each has two of 64 bytes.\<close>

definition control_set_up :: "bool \<Rightarrow> usb_endpoint \<Rightarrow> usb_endpoint" where
  "control_set_up is_in ep =
     ep\<lparr>ep_num := 0, ep_in := is_in, buffer_size := 64, double_buffered := False,
        buffer_bit_index := (if is_in then 0 else 1), dpram_buffer_offset := 0x100\<rparr>"

definition endpoints_open :: "'a usb_state_scheme \<Rightarrow> bool" where
  "endpoints_open s \<longleftrightarrow>
     endpoint_array s = [None, Some Msc_in, Some Msc_out, Some Picoboot_out, Some Picoboot_in] \<and>
     usb_endpoint_number (endpoints s Msc_in) = 1 \<and> usb_endpoint_number (endpoints s Msc_out) = 2 \<and>
     usb_endpoint_number (endpoints s Picoboot_out) = 3 \<and> usb_endpoint_number (endpoints s Picoboot_in) = 4 \<and>
     usb_endpoint_number (endpoints s Control_in) = 0 \<and> usb_endpoint_number (endpoints s Control_out) = 0 \<and>
     double_buffered (endpoints s Msc_in) \<and> double_buffered (endpoints s Msc_out) \<and>
     double_buffered (endpoints s Picoboot_out) \<and> double_buffered (endpoints s Picoboot_in) \<and>
     ep_in (endpoints s Msc_in) \<and> \<not> ep_in (endpoints s Msc_out) \<and>
     \<not> ep_in (endpoints s Picoboot_out) \<and> ep_in (endpoints s Picoboot_in)"

lemma hw_init:
  "usb_endpoint_hw_init e s =
     (let num = usb_endpoint_number (endpoints s e); off = next_buffer_offset (device s);
          reg = Some \<lparr>ec_double = double_buffered (endpoints s e), ec_offset = off\<rparr>
      in s\<lparr>buf_ctrls := (buf_ctrls s)((num, True) := (zero_buf_ctrl, zero_buf_ctrl), (num, False) := (zero_buf_ctrl, zero_buf_ctrl)),
           endpoints := (endpoints s)(e := (endpoints s e)\<lparr>dpram_buffer_offset := off\<rparr>),
           device := (device s)\<lparr>next_buffer_offset := off + (if double_buffered (endpoints s e) then 128 else 64)\<rparr>,
           ep_ctrls := (if num \<noteq> 0
             then (ep_ctrls s)((num, True) := (if ep_in (endpoints s e) then reg else None),
                               (num, False) := (if ep_in (endpoints s e) then None else reg))
             else ep_ctrls s)\<rparr>)"
  by (simp add: usb_endpoint_hw_init_def upd_ep_def usb_endpoint_stride_def Let_def)

lemma device_init:
  assumes "endpoints_open s"
  shows "\<exists>t. usb_device_init d c ifs g s = Some t \<and>
    endpoints t = (endpoints s)
      (Control_in := control_set_up True (endpoints s Control_in), Control_out := control_set_up False (endpoints s Control_out),
       Msc_in := (endpoints s Msc_in)\<lparr>dpram_buffer_offset := 0x180\<rparr>,
       Msc_out := (endpoints s Msc_out)\<lparr>dpram_buffer_offset := 0x200\<rparr>,
       Picoboot_out := (endpoints s Picoboot_out)\<lparr>dpram_buffer_offset := 0x280\<rparr>,
       Picoboot_in := (endpoints s Picoboot_in)\<lparr>dpram_buffer_offset := 0x300\<rparr>) \<and>
    ep_ctrls t (1, True) = Some \<lparr>ec_double = True, ec_offset = 0x180\<rparr> \<and>
    ep_ctrls t (2, False) = Some \<lparr>ec_double = True, ec_offset = 0x200\<rparr> \<and>
    ep_ctrls t (3, False) = Some \<lparr>ec_double = True, ec_offset = 0x280\<rparr> \<and>
    ep_ctrls t (4, True) = Some \<lparr>ec_double = True, ec_offset = 0x300\<rparr> \<and>
    device t = (device s)\<lparr>dev_descriptor := d, config_descriptor := c, config_interfaces := ifs, get_descriptor_string := g,
       next_buffer_offset := 0x380\<rparr> \<and>
    (transfers t, interfaces t, endpoint_array t, msc_one_time t, serial_number_string t, timerawl t, mem t) =
      (transfers s, interfaces s, endpoint_array s, msc_one_time s, serial_number_string s, timerawl s, mem s) \<and>
    buffer_sizes t = buffer_sizes s \<and> quiet_view am t = quiet_view am s"
  using assms
  by (simp add: quiet_view_def endpoints_open_def usb_device_init_def for_each_endpoint_def hw_init Let_def usb_endpoint_init_internal_def
      set_next_buffer_offset_def upd_ep_def control_set_up_def usb_endpoint_number_def buffer_sizes_def List.map_filter_simps
      cong: if_cong)

lemma foldM_total:
  "(\<And>x s. x \<in> set xs \<Longrightarrow> P s \<Longrightarrow> \<exists>t. f x s = Some t \<and> P t) \<Longrightarrow> P s \<Longrightarrow> \<exists>t. foldM f xs s = Some t \<and> P t"
proof (induction xs arbitrary: s)
  case (Cons x xs)
  then obtain t where "f x s = Some t" "P t" by force
  with Cons show ?case by simp
qed simp

lemma buffers_reset:
  "halt_state (endpoints (usb_reset_buffers e s) e') = halt_state (endpoints s e')"
  "device (usb_reset_buffers e s) = device s"
  by (simp_all add: usb_reset_buffers_def upd_ep_def set_buf_ctrl_wide_def buf_ctrl_wide_def Let_def)

definition unconfigured :: "'a usb_state_scheme \<Rightarrow> bool" where
  "unconfigured s \<longleftrightarrow> current_config_num (device s) = 0 \<and> (\<forall>e. halt_state (endpoints s e) = HS_NONE)"

lemma reset_unconfigured:
  "unconfigured s \<Longrightarrow> \<exists>t. usb_hard_reset_endpoint cb e s = Some t \<and> unconfigured t"
  by (simp add: unconfigured_def usb_hard_reset_endpoint_def usb_reset_endpoint_def Let_def buffers_reset invalidate_buffer_def)
    (simp add: upd_ep_def buffers_reset)

lemma bus_reset_unconfigured:
  assumes "\<forall>e. halt_state (endpoints s e) = HS_NONE" "wired s"
  shows "\<exists>t. usb_handle_bus_reset (run prog (Suc n)) s = Some t"
proof -
  define s1 where "s1 = s\<lparr>device := (device s)\<lparr>current_config_num := 0\<rparr>\<rparr>"
  have "unconfigured s1" using assms(1) by (simp add: s1_def unconfigured_def)
  then have "\<exists>u. for_each_endpoint (usb_hard_reset_endpoint (run prog (Suc n))) s1 = Some u \<and> unconfigured u"
    unfolding for_each_endpoint_def by (intro foldM_total reset_unconfigured)
  then obtain u where u: "for_each_endpoint (usb_hard_reset_endpoint (run prog (Suc n))) s1 = Some u" "unconfigured u"
    by blast
  have "wired s1" using assms(2) by (simp add: s1_def wired_def buffer_sizes_def commands_set_up_def)
  moreover have "view.ok wiring set_up (wiring s1) (for_each_endpoint (usb_hard_reset_endpoint (run prog (Suc n))) s1)"
    unfolding for_each_endpoint_def by (intro wires.ok_foldM wires.endpoint_ok) auto
  ultimately have "wired u" using wires.okD [OF _ wired_set_up u(1)] wired_wiring [of u s1] by blast
  then have "on_configure (device u) = Some Usb_boot_on_configure" by (simp add: wired_def)
  then show ?thesis
    using u by (simp add: usb_handle_bus_reset_def usb_handle_set_config_def s1_def [symmetric] call_void_def invoke_def void_def
        usb_boot_on_configure_def msc_on_configure_def Let_def)
qed

lemma bus_reset_keeps:
  assumes "usb_handle_bus_reset (run prog n) s = Some t" "wired s"
  shows "wiring t = wiring s" "quiet_view (prog_am prog) t = quiet_view (prog_am prog) s"
  using wires.okD [OF wires.bus_reset_ok [OF refl] wired_set_up [OF assms(2)] assms(1)]
    device.okD [OF device.bus_reset_ok [OF refl] _ assms(1)] by simp_all

lemma zero_endpoints: "endpoints (usb_boot_state wd gpio m now) = (\<lambda>_. zero_endpoint)"
  "transfers (usb_boot_state wd gpio m now) = (\<lambda>_. zero_transfer)"
  "endpoint_array (usb_boot_state wd gpio m now) = replicate 5 None"
  by (simp_all add: usb_boot_state_def USB_MAX_ENDPOINTS_def)

theorem boot_wires_device:
  assumes "disable_mask = 0 \<or> disable_mask AND 3 = 3" "0 < n"
  shows "\<exists>s. usb_boot prog n gitref git_rev gpio_mask disable_mask wd m frames now = Some s \<and> wired s \<and>
    serial_number_string s = six_hex_text gitref @ six_hex_text git_rev @ [0] \<and> timerawl s = now \<and>
    quiet_view (prog_am prog) s = quiet_view (prog_am prog) (usb_boot_state wd gpio_mask (m ++ frames) now)"
proof -
  let ?config = boot_device_config
  define s0 where "s0 = (usb_boot_state wd gpio_mask (m ++ frames) now)
    \<lparr>serial_number_string := six_hex_text gitref @ six_hex_text git_rev @ [0]\<rparr>"
  have s0: "endpoints s0 = (\<lambda>_. zero_endpoint)" "transfers s0 = (\<lambda>_. zero_transfer)" "endpoint_array s0 = replicate 5 None"
    "buffer_sizes s0 = (4096, 512, 256, 160, 5)" "\<not> msc_one_time s0" "timerawl s0 = now" "mem s0 = m ++ frames"
    by (simp_all add: s0_def usb_boot_state_def buffer_sizes_def USB_MAX_ENDPOINTS_def)
  have serial: "serial_number_string s0 = six_hex_text gitref @ six_hex_text git_rev @ [0]" by (simp add: s0_def)
  obtain s1 where s1: "init_msc_interface ?config 0 s0 = Some s1" by (simp add: init_msc s0)
  obtain s2 where s2: "init_picoboot_interface ?config 0 s1 = Some s2"
    using init_picoboot [of s1] s1 by (auto simp: init_msc s0)
  have fields: "endpoints s2 = (\<lambda>_. zero_endpoint)
      (Msc_in := ep_set_up (drop 18 ?config) 1 True zero_endpoint, Msc_out := ep_set_up (drop 25 ?config) 2 False zero_endpoint,
       Picoboot_out := (ep_set_up (drop 41 ?config) 3 False zero_endpoint)\<lparr>default_transfer := Some Picoboot_cmd_transfer\<rparr>,
       Picoboot_in := ep_set_up (drop 48 ?config) 4 True zero_endpoint)"
    "endpoint_array s2 = [None, Some Msc_in, Some Msc_out, Some Picoboot_out, Some Picoboot_in]"
    "tr_type (transfers s2 Picoboot_cmd_transfer) = Some Picoboot_cmd_type" "\<not> msc_one_time s2"
    "setup_request_handler (interfaces s2 Msd_interface) = Some Msc_setup_request_handler"
    "setup_request_handler (interfaces s2 Picoboot_interface) = Some Picoboot_setup_request_handler"
    "buffer_sizes s2 = (4096, 512, 256, 160, 5)" "timerawl s2 = now"
    "serial_number_string s2 = serial_number_string s0" "quiet_view (prog_am prog) s2 = quiet_view (prog_am prog) s0"
    using s1 s2 s0 by (auto simp: init_msc init_picoboot interface_set_up_def buffer_sizes_def quiet_view_def numeral_eq_Suc)
  have "endpoints_open s2"
    by (simp add: endpoints_open_def fields usb_endpoint_number_def ep_set_up_def descriptor_fields zero_endpoint_def)
  from device_init [OF this, of boot_device_descriptor ?config "[Msd_interface, Picoboot_interface]"
      "get_descriptor_string_fn (serial_number_string s0)" "prog_am prog"]
  obtain t where t: "usb_device_init boot_device_descriptor ?config [Msd_interface, Picoboot_interface]
      (get_descriptor_string_fn (serial_number_string s0)) s2 = Some t"
    and open': "endpoints t = (endpoints s2)
      (Control_in := control_set_up True (endpoints s2 Control_in), Control_out := control_set_up False (endpoints s2 Control_out),
       Msc_in := (endpoints s2 Msc_in)\<lparr>dpram_buffer_offset := 0x180\<rparr>,
       Msc_out := (endpoints s2 Msc_out)\<lparr>dpram_buffer_offset := 0x200\<rparr>,
       Picoboot_out := (endpoints s2 Picoboot_out)\<lparr>dpram_buffer_offset := 0x280\<rparr>,
       Picoboot_in := (endpoints s2 Picoboot_in)\<lparr>dpram_buffer_offset := 0x300\<rparr>)"
      "ep_ctrls t (1, True) = Some \<lparr>ec_double = True, ec_offset = 0x180\<rparr>"
      "ep_ctrls t (2, False) = Some \<lparr>ec_double = True, ec_offset = 0x200\<rparr>"
      "ep_ctrls t (3, False) = Some \<lparr>ec_double = True, ec_offset = 0x280\<rparr>"
      "ep_ctrls t (4, True) = Some \<lparr>ec_double = True, ec_offset = 0x300\<rparr>"
      "config_descriptor (device t) = ?config" "transfers t = transfers s2" "interfaces t = interfaces s2"
      "endpoint_array t = endpoint_array s2" "msc_one_time t = msc_one_time s2" "buffer_sizes t = buffer_sizes s2"
      "serial_number_string t = serial_number_string s2" "timerawl t = timerawl s2"
      "quiet_view (prog_am prog) t = quiet_view (prog_am prog) s2"
    by auto
  define u where "u = t\<lparr>device := (device t)\<lparr>on_configure := Some Usb_boot_on_configure\<rparr>, hw := zero_usb_hw\<lparr>controller_en := True\<rparr>\<rparr>"
  have "planned e (endpoints u e)" for e
    by (cases e) (simp_all add: u_def open' fields planned_def set_up_defs control_set_up_def zero_endpoint_def)
  moreover have "default_transfer (endpoints u Msc_out) = None" "on_stall_change (endpoints u Msc_in) = None"
    "\<forall>e. halt_state (endpoints u e) = HS_NONE"
    by (simp_all add: u_def open' fields set_up_defs control_set_up_def zero_endpoint_def)
  moreover have "buffer_sizes u = buffer_sizes t" by (simp add: u_def buffer_sizes_def)
  ultimately have wired: "wired u" and halt: "\<forall>e. halt_state (endpoints u e) = HS_NONE"
    by (simp_all add: wired_def commands_set_up_def open' fields) (simp_all add: u_def open' fields)
  obtain k where "n = Suc k" using assms(2) by (cases n) auto
  then obtain v where v: "usb_handle_bus_reset (run prog n) u = Some v"
    using bus_reset_unconfigured [OF halt wired] by blast
  define w where "w = v\<lparr>hw := (hw v)\<lparr>pullup_en := True, inte := True\<rparr>\<rparr>"
  have boot: "usb_boot prog n gitref git_rev gpio_mask disable_mask wd m frames now = Some w"
  proof -
    have mask: "(if disable_mask AND 3 = 3 then 0 else disable_mask) = 0" using assms(1) by auto
    have "serial_number_string (usb_boot_state wd gpio_mask (m ++ frames) now) = replicate 13 0" by (simp add: usb_boot_state_def)
    then have "set_serial_number_string gitref git_rev (serial_number_string (usb_boot_state wd gpio_mask (m ++ frames) now)) =
        Some (six_hex_text gitref @ six_hex_text git_rev @ [0])"
      by (simp add: set_serial_number_string_eq)
    then show ?thesis
      unfolding usb_boot_def usb_boot_device_init_def Let_def mask
      using s1 s2 t [unfolded serial] v
      by (simp add: s0_def [symmetric] usb_device_start_def u_def [symmetric] w_def Let_def del: run.simps)
  qed
  moreover have "wiring w = wiring v" by (simp add: w_def wiring_defs)
  moreover have "quiet_view (prog_am prog) w = quiet_view (prog_am prog) v"
    "quiet_view (prog_am prog) u = quiet_view (prog_am prog) t"
    by (simp_all add: w_def u_def quiet_view_def)
  moreover have "wiring v = wiring u" "quiet_view (prog_am prog) v = quiet_view (prog_am prog) u"
    using bus_reset_keeps [OF v wired] by simp_all
  ultimately have same: "wiring w = wiring u" "quiet_view (prog_am prog) w = quiet_view (prog_am prog) t" by simp_all
  then have "wired w" using wired wired_wiring by blast
  moreover have "serial_number_string w = serial_number_string u" "timerawl w = timerawl u"
    using same(1) unfolding wiring_def prod.inject by blast+
  then have "serial_number_string w = serial_number_string s0" "timerawl w = now"
    by (simp_all add: u_def open' fields)
  moreover have "quiet_view (prog_am prog) w = quiet_view (prog_am prog) s0" using same(2) open' fields by simp
  moreover have "quiet_view (prog_am prog) s0 = quiet_view (prog_am prog) (usb_boot_state wd gpio_mask (m ++ frames) now)"
    "serial_number_string s0 = six_hex_text gitref @ six_hex_text git_rev @ [0]"
    by (simp_all add: s0_def quiet_view_def)
  ultimately show ?thesis using boot by simp
qed

end
