(* ===== verification/Startup.thy ===== *)
theory Startup
  imports Platform
begin

text \<open>
  The first thing the reset entry \<open>_start\<close> of \<open>bootrom/bootrom_rt0.S\<close> does: a loop over registers that
  stores one word after the other into the whole RAM.  \<open>Reset_Path\<close> has the rest of the entry.  Also the
  place of the stack on which the code after the loop runs (\<open>bootrom/bootrom.ld\<close>).
\<close>

text \<open>
  \<open>r0\<close> holds the pattern, \<open>r1\<close> the address, \<open>r2\<close> the end; \<open>r3\<close> is the mask 0xFFFF and \<open>r4\<close> the low half
  of the address, moved up.  The loop may not end, if it never meets the end address.
\<close>

partial_function (option) start_fill :: "u32 \<Rightarrow> u32 \<Rightarrow> u32 \<Rightarrow> memory \<Rightarrow> memory option" where
  "start_fill r0 r1 r2 m =
     Option.bind (mem_write r1 (le32 (r0 AND 0xFFFF OR push_bit 16 r1 AND NOT 0xFFFF)) m)
       (\<lambda>m. if r1 + 4 = r2 then Some m
            else start_fill (r0 AND 0xFFFF OR push_bit 16 r1 AND NOT 0xFFFF) (r1 + 4) r2 m)"

definition start_set_memory :: "addressmap \<Rightarrow> memory \<Rightarrow> memory option" where
  "start_set_memory am = start_fill 0x0000CDAB (SRAM_BASE am) (SRAM_END am)"

subsection \<open>The stack of the boot code\<close>

text \<open>
  The first word of the vector table is \<open>_stacktop\<close>, 256 bytes below the end of the RAM.  \<open>main\<close> and \<open>_usb_boot\<close>
  run on the stack below it, in the RAM that the disk shows, and so do the interrupts until
  \<open>async_task_worker_thunk\<close> switches to a stack in the memory of the USB controller.  What the frames of the
  compiled code are, the source does not say: \<open>boot_stack\<close> is the area of \<open>depth\<close> bytes that they are in.
\<close>

definition stacktop :: "addressmap \<Rightarrow> u32" where
  "stacktop am = SRAM_END am - 256"

definition boot_stack :: "u32 \<Rightarrow> nat \<Rightarrow> u32 set" where
  "boot_stack sp depth = {a. unat sp \<le> unat a + depth \<and> unat a < unat sp}"

subsection \<open>What it stores\<close>

definition fill_word :: "u32 \<Rightarrow> u32" where
  "fill_word a = 0xCDAB OR push_bit 16 a"

definition fill_byte :: "u32 \<Rightarrow> u8" where
  "fill_byte x = (if x AND 3 = 0 then 0xAB else if x AND 3 = 1 then 0xCD
     else if x AND 3 = 2 then ucast (x - 2) else ucast (drop_bit 8 (x - 3)))"

lemma fill_word_step:
  assumes "r0 AND 0xFFFF = 0xCDAB"
  shows "r0 AND 0xFFFF OR push_bit 16 a AND NOT 0xFFFF = fill_word a"
    and "fill_word a AND 0xFFFF = 0xCDAB"
proof -
  have mask: "(0xFFFF :: u32) = mask 16" by (simp add: mask_eq_exp_minus_1)
  have "push_bit 16 a AND NOT (mask 16) = push_bit 16 a"
    by (rule bit_word_eqI) (auto simp: bit_simps)
  then show "r0 AND 0xFFFF OR push_bit 16 a AND NOT 0xFFFF = fill_word a"
    using assms by (simp add: fill_word_def mask)
  have "(0xCDAB :: u32) AND mask 16 = 0xCDAB" by (simp add: mask_eq_exp_minus_1)
  moreover have "push_bit 16 a AND mask 16 = (0 :: u32)"
    by (rule bit_word_eqI) (auto simp: bit_simps)
  ultimately show "fill_word a AND 0xFFFF = 0xCDAB"
    by (simp add: fill_word_def mask bit.conj_disj_distrib2)
qed

lemma ucast_or: "ucast (x OR y :: u32) = (ucast x OR ucast y :: u8)"
  by (rule bit_word_eqI) (simp add: bit_simps)

lemma fill_word_bytes: "le32 (fill_word a) = [0xAB, 0xCD, ucast a, ucast (drop_bit 8 a)]"
proof -
  have low: "ucast (push_bit 16 a) = (0 :: u8)" "ucast (drop_bit 8 (push_bit 16 a)) = (0 :: u8)"
    by (rule bit_word_eqI, auto simp: bit_simps)+
  have high: "ucast (drop_bit 16 (push_bit 16 a)) = (ucast a :: u8)"
    "ucast (drop_bit 24 (push_bit 16 a)) = (ucast (drop_bit 8 a) :: u8)"
    by (rule bit_word_eqI, auto simp: bit_simps)+
  show ?thesis
    by (simp add: le32_def fill_word_def ucast_or low high)
qed


lemma start_fill_words:
  assumes "r0 AND 0xFFFF = 0xCDAB" and "4 * Suc n < 2 ^ 32"
    and "\<And>k. k < 4 * Suc n \<Longrightarrow> m (a + of_nat k) \<noteq> None"
  shows "\<exists>m'. start_fill r0 a (a + of_nat (4 * Suc n)) m = Some m' \<and>
      (\<forall>i \<le> n. mem_read m' (a + of_nat (4 * i)) 4 = Some (le32 (fill_word (a + of_nat (4 * i))))) \<and>
      (\<forall>x. (\<forall>k < 4 * Suc n. x \<noteq> a + of_nat k) \<longrightarrow> m' x = m x)"
  using assms
proof (induction n arbitrary: r0 a m)
  case 0
  obtain m' where m': "mem_write a (le32 (fill_word a)) m = Some m'"
    using mem_write_total [of "le32 (fill_word a)" m a] "0.prems"(3) by auto
  then have "start_fill r0 a (a + of_nat (4 * Suc 0)) m = Some m'"
    by (subst start_fill.simps) (simp only: fill_word_step [OF "0.prems"(1)], simp)
  moreover have "mem_read m' a 4 = Some (le32 (fill_word a))"
    using mem_write_read [OF m'] by simp
  moreover have "m' x = m x" if "\<forall>k < 4 * Suc 0. x \<noteq> a + of_nat k" for x
    by (rule mem_write_outside [OF m']) (use that in auto)
  ultimately show ?case by auto
next
  case (Suc n)
  obtain m1 where m1: "mem_write a (le32 (fill_word a)) m = Some m1"
    using mem_write_total [of "le32 (fill_word a)" m a] Suc.prems(3) by auto
  have shift: "a + 4 + of_nat k = a + of_nat (4 + k)" for k by (simp add: add.assoc)
  have end_ne: "a + 4 \<noteq> a + of_nat (4 * Suc (Suc n))"
    using add_of_nat_neq [of 4 "4 * Suc (Suc n)" a] Suc.prems(2) by simp
  have "\<exists>m'. start_fill (fill_word a) (a + 4) (a + 4 + of_nat (4 * Suc n)) m1 = Some m' \<and>
      (\<forall>i \<le> n. mem_read m' (a + 4 + of_nat (4 * i)) 4 = Some (le32 (fill_word (a + 4 + of_nat (4 * i))))) \<and>
      (\<forall>x. (\<forall>k < 4 * Suc n. x \<noteq> a + 4 + of_nat k) \<longrightarrow> m' x = m1 x)"
  proof (rule Suc.IH)
    show "fill_word a AND 0xFFFF = 0xCDAB" by (rule fill_word_step(2) [OF Suc.prems(1)])
    show "4 * Suc n < 2 ^ 32" using Suc.prems(2) by simp
    show "m1 (a + 4 + of_nat k) \<noteq> None" if "k < 4 * Suc n" for k
      unfolding shift mem_write_dom [OF m1] using Suc.prems(3) [of "4 + k"] that by simp
  qed
  then obtain m' where m': "start_fill (fill_word a) (a + 4) (a + of_nat (4 * Suc (Suc n))) m1 = Some m'"
    and words: "\<And>i. i \<le> n \<Longrightarrow> mem_read m' (a + of_nat (4 * Suc i)) 4 = Some (le32 (fill_word (a + of_nat (4 * Suc i))))"
    and frame: "\<And>x. (\<And>k. k < 4 * Suc n \<Longrightarrow> x \<noteq> a + of_nat (4 + k)) \<Longrightarrow> m' x = m1 x"
    unfolding shift by auto
  have "start_fill r0 a (a + of_nat (4 * Suc (Suc n))) m = Some m'"
    using m1 m' end_ne by (subst start_fill.simps) (simp only: fill_word_step [OF Suc.prems(1)] bind.bind_lunit if_False)
  moreover have "mem_read m' (a + of_nat (4 * i)) 4 = Some (le32 (fill_word (a + of_nat (4 * i))))"
    if "i \<le> Suc n" for i
  proof (cases i)
    case 0
    have "m' (a + of_nat j) = m1 (a + of_nat j)" if "j < 4" for j
    proof (rule frame)
      fix k assume "k < 4 * Suc n"
      then show "a + of_nat j \<noteq> a + of_nat (4 + k)"
        using add_of_nat_neq [of j "4 + k" a] that Suc.prems(2) by simp
    qed
    moreover have "mem_read m1 a 4 = Some (le32 (fill_word a))" using mem_write_read [OF m1] by simp
    ultimately show ?thesis using 0 by (simp add: mem_read_eq)
  next
    case (Suc j)
    with words [of j] that show ?thesis by simp
  qed
  moreover have "m' x = m x" if "\<forall>k < 4 * Suc (Suc n). x \<noteq> a + of_nat k" for x
  proof -
    have "m' x = m1 x" by (rule frame) (rule that [rule_format], simp)
    also have "m1 x = m x" by (rule mem_write_outside [OF m1]) (rule that [rule_format], simp)
    finally show ?thesis .
  qed
  ultimately show ?case by blast
qed

text \<open>The byte at \<open>k\<close> of the RAM: one of the four of the word, which holds the low half of its address.\<close>

definition startup_byte :: "addressmap \<Rightarrow> nat \<Rightarrow> u8" where
  "startup_byte am k = le32 (fill_word (SRAM_BASE am + of_nat (4 * (k div 4)))) ! (k mod 4)"

lemma start_set_memory_fills:
  assumes "addressmap_ok am" and "sram_mapped am m"
  shows "\<exists>m'. start_set_memory am m = Some m' \<and>
      (\<forall>k < MEM_SIZE am. m' (SRAM_BASE am + of_nat k) = Some (startup_byte am k)) \<and>
      (\<forall>x. (\<forall>k < MEM_SIZE am. x \<noteq> SRAM_BASE am + of_nat k) \<longrightarrow> m' x = m x)"
proof -
  have dvd: "4096 dvd MEM_SIZE am" and size: "0 < MEM_SIZE am" "MEM_SIZE am < 2 ^ 20"
    using assms(1) MEM_SIZE_nat [OF assms(1)] by (auto simp: addressmap_ok_def)
  have "4 dvd MEM_SIZE am" by (rule dvd_trans [OF _ dvd]) simp
  then obtain i where "MEM_SIZE am = 4 * i" by (rule dvdE)
  then obtain n where n: "MEM_SIZE am = 4 * Suc n" using size(1) by (cases i) auto
  have end_addr: "SRAM_END am = SRAM_BASE am + of_nat (4 * Suc n)"
    unfolding n [symmetric] by (simp add: MEM_SIZE_def)
  obtain m' where m': "start_set_memory am m = Some m'"
    and words: "\<And>i. i \<le> n \<Longrightarrow> mem_read m' (SRAM_BASE am + of_nat (4 * i)) 4 =
        Some (le32 (fill_word (SRAM_BASE am + of_nat (4 * i))))"
    and frame: "\<And>x. (\<forall>k < 4 * Suc n. x \<noteq> SRAM_BASE am + of_nat k) \<Longrightarrow> m' x = m x"
    using start_fill_words [of "0xCDAB" n m "SRAM_BASE am"] assms(2) size(2)
    unfolding start_set_memory_def end_addr sram_mapped_def n by auto
  have "m' (SRAM_BASE am + of_nat k) = Some (startup_byte am k)" if "k < MEM_SIZE am" for k
  proof -
    have "k div 4 < Suc n" by (rule less_mult_imp_div_less) (use that n in simp)
    then have "k div 4 \<le> n" by simp
    then have "m' (SRAM_BASE am + of_nat (4 * (k div 4)) + of_nat (k mod 4)) =
        Some (le32 (fill_word (SRAM_BASE am + of_nat (4 * (k div 4)))) ! (k mod 4))"
      using words [of "k div 4"] by (simp add: mem_read_eq)
    moreover have "(of_nat (4 * (k div 4)) + of_nat (k mod 4) :: u32) = of_nat k"
      by (simp only: of_nat_add [symmetric]) simp
    ultimately show ?thesis by (simp add: startup_byte_def add.assoc)
  qed
  then show ?thesis using m' frame n by auto
qed


lemma zero_ram_sram: "sram_mapped rp2040 zero_ram"
proof -
  have "SRAM_BASE rp2040 \<le> SRAM_BASE rp2040 + of_nat k \<and> SRAM_BASE rp2040 + of_nat k < SRAM_END rp2040"
    if "k < 270336" for k
    using that by (simp add: rp2040_def word_le_nat_alt word_less_nat_alt unat_word_ariths unat_of_nat)
  then show ?thesis by (simp add: sram_mapped_def MEM_SIZE_rp2040 zero_ram_def)
qed

subsection \<open>Properties\<close>

text \<open>C23: The start-up code overwrites every byte of the RAM, from its first to its last, with a pattern
  that depends on the address only, ends, and leaves the other memory alone: what a crash left in the RAM
  is gone before the disk that shows the RAM exists.\<close>

theorem startup_overwrites_ram:
  assumes "addressmap_ok am" and "sram_mapped am m"
  shows "\<exists>m'. start_set_memory am m = Some m' \<and>
      (\<forall>k < MEM_SIZE am. m' (SRAM_BASE am + of_nat k) = Some (startup_byte am k)) \<and>
      (\<forall>x. (\<forall>k < MEM_SIZE am. x \<noteq> SRAM_BASE am + of_nat k) \<longrightarrow> m' x = m x)"
  using assms by (rule start_set_memory_fills)

theorem startup_overwrites_ram_witness:
  "\<exists>m'. start_set_memory rp2040 zero_ram = Some m' \<and>
     m' 0x20000000 = Some 0xAB \<and> m' 0x20001235 = Some 0xCD \<and> m' 0x20001236 = Some 0x34"
proof -
  obtain m' where m': "start_set_memory rp2040 zero_ram = Some m'"
    and bytes: "\<forall>k < 270336. m' (SRAM_BASE rp2040 + of_nat k) = Some (startup_byte rp2040 k)"
    using startup_overwrites_ram [OF rp2040_ok zero_ram_sram] by (auto simp: MEM_SIZE_rp2040)
  have "m' 0x20000000 = Some 0xAB" "m' 0x20001235 = Some 0xCD" "m' 0x20001236 = Some 0x34"
    using bytes [rule_format, of 0] bytes [rule_format, of "0x1235"] bytes [rule_format, of "0x1236"]
    by (simp_all add: startup_byte_def fill_word_bytes rp2040_def)
  then show ?thesis using m' by blast
qed

end
