(* ===== verification/Disk_Image.thy ===== *)
theory Disk_Image
  imports Virtual_Disk Startup
begin

text \<open>
  The contract of the disk: \<open>image_sector\<close> says, without buffers, stores or loops, what every sector
  holds, and \<open>vd_read_block_image\<close> that the handler of \<open>bootrom/virtual_disk.c\<close> implements it, for
  every sector but those of the one cluster behind the crash dump, where it reads behind the end of
  the RAM.
\<close>

subsection \<open>The sectors\<close>

definition mbr_text :: "u32 \<Rightarrow> bytes" where
  "mbr_text sn =
     replicate 440 0 @ le32 sn @ replicate 6 0 @ ptable_data4 @ replicate 49 0 @ [0x55, 0xaa]"

definition boot_text :: "u32 \<Rightarrow> bytes" where
  "boot_text sn =
     take 0x27 boot_sector @ le32 sn @ drop 0x2b boot_sector @ replicate 448 0"

definition root_text :: "addressmap \<Rightarrow> generated \<Rightarrow> bytes" where
  "root_text am gen = concat (map dir_entry_bytes (root_entries am gen)) @ replicate 384 0"

text \<open>The web page: the two placeholders of the version replaced.\<close>

definition patch :: "nat \<Rightarrow> bytes \<Rightarrow> bytes \<Rightarrow> bytes" where
  "patch off s xs = take off xs @ s @ drop (off + length s) xs"

definition index_text :: "generated \<Rightarrow> bytes \<Rightarrow> bytes \<Rightarrow> bytes" where
  "index_text gen html ser =
     patch (welcome_html_version_offset_2 gen) (take 12 ser)
       (patch (welcome_html_version_offset_1 gen) (take 12 ser) html)"

definition sector_of :: "bytes \<Rightarrow> bytes" where
  "sector_of file = file @ replicate (SECTOR_SIZE - length file) 0"

definition data_text ::
    "addressmap \<Rightarrow> generated \<Rightarrow> bytes \<Rightarrow> bytes \<Rightarrow> memory \<Rightarrow> nat \<Rightarrow> nat \<Rightarrow> bytes" where
  "data_text am gen html ser m cluster i =
     (if CLUS_CRASH_START \<le> cluster \<and> cluster < CLUS_CRASH_LAST am
      then xxd_text m (SRAM_BASE am + of_nat (1024 * (cluster - CLUS_CRASH_START) + 128 * i))
      else if cluster = CLUS_INDEX \<and> i = 0 then sector_of (index_text gen html ser)
      else if cluster = CLUS_INFO \<and> i = 0 then sector_of (info_uf2_txt gen)
      else replicate SECTOR_SIZE 0)"

definition image_sector ::
    "addressmap \<Rightarrow> generated \<Rightarrow> bytes \<Rightarrow> bytes \<Rightarrow> memory \<Rightarrow> u32 \<Rightarrow> nat \<Rightarrow> bytes" where
  "image_sector am gen html ser m sn lba =
     (if lba = 0 then mbr_text sn
      else if lba = 1 then boot_text sn
      else if lba < 260 then fat_text am ((lba - 2) mod SECTORS_PER_FAT)
      else if lba = 260 then root_text am gen
      else if lba < 292 then replicate SECTOR_SIZE 0
      else data_text am gen html ser m ((lba - 292) div 8 + FIRST_CLUSTER) ((lba - 292) mod 8))"

text \<open>What the disk is built from: the two files, the generated header, the serial number string.\<close>

definition disk_ok :: "addressmap \<Rightarrow> generated \<Rightarrow> bytes \<Rightarrow> bytes \<Rightarrow> memory \<Rightarrow> bool" where
  "disk_ok am gen html ser m \<longleftrightarrow>
     addressmap_ok am \<and> sram_mapped am m \<and> 12 \<le> length ser \<and> length html < SECTOR_SIZE \<and>
     length (info_uf2_txt gen) \<le> SECTOR_SIZE \<and> generator_main html (info_uf2_txt gen) = Some gen"

subsection \<open>The handler fills the buffer with the sector\<close>

lemma length_boot_sector: "length boot_sector = 64"
  by (simp add: boot_sector_def lsb_hword_def lsb_word_def)

lemma length_dir_entry_bytes [simp]:
  "length (de_name e) = 11 \<Longrightarrow> length (dir_entry_bytes e) = 32"
  by (simp add: dir_entry_bytes_def)

lemma length_root_entries:
  "length (concat (map dir_entry_bytes (root_entries am gen))) = 128"
  by (simp add: root_entries_def init_dir_entry_def zero_dir_entry_def length_boot_sector
      BOOT_OFFSET_LABEL_def)

lemma length_ptable_data4: "length ptable_data4 = 11"
  by (simp add: ptable_data4_def lsb_word_def)

lemma vd_read_mbr_text: "vd_read_mbr sn (replicate 512 0) = Some (mbr_text sn)"
proof -
  define pt where "pt = ptable_data4"
  have len: "length pt = 11" by (simp add: pt_def length_ptable_data4)
  then show ?thesis
    unfolding vd_read_mbr_def Let_def store_as_list pt_def [symmetric]
    by (simp add: store_list_def disk_sizes MBR_OFFSET_SERIAL_NUMBER_def mbr_text_def
        pt_def [symmetric] min_def take_replicate drop_replicate)
qed

lemma vd_read_boot_sector_text: "vd_read_boot_sector sn (replicate 512 0) = Some (boot_text sn)"
proof -
  define bs where "bs = boot_sector"
  have len: "length bs = 64" by (simp add: bs_def length_boot_sector)
  then show ?thesis
    unfolding vd_read_boot_sector_def bs_def [symmetric]
    by (simp add: store_list_def BOOT_OFFSET_SERIAL_NUMBER_def boot_text_def bs_def [symmetric])
qed

lemma vd_read_root_text:
  "vd_read_root am gen lba (replicate 512 0) =
   Some (if lba = 0 then root_text am gen else replicate 512 0)"
  by (simp add: vd_read_root_def root_text_def store_list_def length_root_entries)

lemma length_patch: "off + length s \<le> length xs \<Longrightarrow> length (patch off s xs) = length xs"
  by (simp add: patch_def)

lemma store_list_patch:
  "off + length s \<le> length xs \<Longrightarrow> store_list off s (xs @ ys) = Some (patch off s xs @ ys)"
  by (simp add: store_list_def patch_def)


lemma disk_okD:
  assumes "disk_ok am gen html ser m"
  shows "addressmap_ok am" "sram_mapped am m" "12 \<le> length ser" "length html < 512"
    "length (info_uf2_txt gen) \<le> 512" "compress html = Inr (welcome_html_z gen)" "html \<noteq> []"
    "welcome_html_len gen = length html"
    "welcome_html_version_offset_1 gen + 12 < length html"
    "welcome_html_version_offset_2 gen + 12 < length html"
  using assms generator_mainD [of html "info_uf2_txt gen" gen] by (auto simp: disk_ok_def disk_sizes)

lemma decompress_welcome:
  assumes "disk_ok am gen html ser m"
  shows "poor_mans_text_decompress (welcome_html_z gen) (replicate 512 0) = Some (sector_of html)"
  using disk_okD [OF assms]
  by (simp add: pmtd_compress [where src = html] sector_of_def disk_sizes)

lemma length_index_text: "disk_ok am gen html ser m \<Longrightarrow> length (index_text gen html ser) = length html"
  using disk_okD [of am gen html ser m] by (simp add: index_text_def length_patch min_def)

lemma vd_read_index_text:
  assumes "disk_ok am gen html ser m"
  shows "Option.bind (poor_mans_text_decompress (welcome_html_z gen) (replicate 512 0))
      (\<lambda>buf. Option.bind (store_list (welcome_html_version_offset_1 gen) (take 12 ser) buf)
        (store_list (welcome_html_version_offset_2 gen) (take 12 ser))) =
     Some (sector_of (index_text gen html ser))"
  using disk_okD [OF assms] length_index_text [OF assms] decompress_welcome [OF assms]
  by (simp add: sector_of_def store_list_patch length_patch min_def index_text_def)

lemma MEM_SIZE_clusters:
  assumes "addressmap_ok am"
  shows "MEM_SIZE am = 1024 * (CLUS_CRASH_LAST am - 4)" "4 < CLUS_CRASH_LAST am"
    "CLUS_CRASH_LAST am < 1028"
proof -
  have "4096 dvd MEM_SIZE am" "MEM_SIZE am < 2 ^ 20" "0 < MEM_SIZE am"
    using assms MEM_SIZE_nat [OF assms] by (auto simp: addressmap_ok_def)
  moreover from this(1) have "1024 dvd MEM_SIZE am" by (rule dvd_trans [rotated]) simp
  ultimately show "MEM_SIZE am = 1024 * (CLUS_CRASH_LAST am - 4)" "4 < CLUS_CRASH_LAST am"
    "CLUS_CRASH_LAST am < 1028"
    by (auto simp: CLUS_CRASH_LAST_def disk_sizes dvd_def)
qed

lemma crash_sector_mapped:
  assumes "disk_ok am gen html ser m" and "4 \<le> c" "c < CLUS_CRASH_LAST am" "i < 8" "k < 128"
  shows "m (SRAM_BASE am + of_nat (1024 * (c - 4) + 128 * i) + of_nat k) \<noteq> None"
proof -
  have "1024 * (c - 4) + 128 * i + k < 1024 * (CLUS_CRASH_LAST am - 4)"
    using assms(2-5) by linarith
  then have "1024 * (c - 4) + 128 * i + k < MEM_SIZE am"
    using MEM_SIZE_clusters(1) [OF disk_okD(1) [OF assms(1)]] by simp
  then have "m (SRAM_BASE am + of_nat (1024 * (c - 4) + 128 * i + k)) \<noteq> None"
    using disk_okD(2) [OF assms(1)] by (auto simp: sram_mapped_def)
  then show ?thesis by (simp add: add.assoc)
qed

lemma vd_read_data_text:
  assumes "disk_ok am gen html ser m" and "lba div 8 + 2 \<noteq> CLUS_CRASH_LAST am"
  shows "vd_read_data am gen ser m lba (replicate 512 0) =
         Some (data_text am gen html ser m (lba div 8 + 2) (lba mod 8))"
proof -
  define c i where "c = lba div 8 + 2" and "i = lba mod 8"
  have i: "i < 8" by (simp add: i_def)
  have c: "c \<noteq> CLUS_CRASH_LAST am" using assms(2) by (simp add: c_def)
  note L = MEM_SIZE_clusters(2) [OF disk_okD(1) [OF assms(1)]]
  have addr: "SRAM_BASE am + of_nat ((c - 4) * 1024) + of_nat (i * 128) =
      SRAM_BASE am + of_nat (1024 * (c - 4) + 128 * i)" by (simp add: ac_simps)
  have step: "vd_read_data am gen ser m lba (replicate 512 0) =
     Option.bind (if i = 0 then if c = 2 then Some (sector_of (index_text gen html ser))
         else if c = 3 then Some (sector_of (info_uf2_txt gen)) else Some (replicate 512 0)
       else Some (replicate 512 0))
     (\<lambda>buf. if 4 \<le> c \<and> c \<le> CLUS_CRASH_LAST am
        then xxd m (SRAM_BASE am + of_nat (1024 * (c - 4) + 128 * i)) buf else Some buf)"
    unfolding vd_read_data_def Let_def disk_sizes addr [symmetric]
    using vd_read_index_text [OF assms(1)] disk_okD(5) [OF assms(1)]
    by (simp add: c_def i_def store_list_def sector_of_def disk_sizes cong: if_cong)
  show ?thesis
  proof (cases "4 \<le> c \<and> c < CLUS_CRASH_LAST am")
    case True
    then have "xxd m (SRAM_BASE am + of_nat (1024 * (c - 4) + 128 * i)) (replicate 512 0) =
        Some (xxd_text m (SRAM_BASE am + of_nat (1024 * (c - 4) + 128 * i)))"
      using crash_sector_mapped [OF assms(1) _ _ i] by (intro xxd_refines) auto
    with True show ?thesis unfolding step c_def [symmetric] i_def [symmetric]
      by (cases "i = 0") (simp_all add: data_text_def disk_sizes del: of_nat_diff of_nat_add of_nat_mult)
  next
    case False
    with c L show ?thesis unfolding step c_def [symmetric] i_def [symmetric]
      by (auto simp: data_text_def disk_sizes)
  qed
qed

text \<open>The sector, and the volume serial number of the answer.\<close>

definition volume_serial :: "u32 \<Rightarrow> boot_device_state \<Rightarrow> u32" where
  "volume_serial now bds = fst (msc_get_serial_number32 now bds)"

definition serial_after :: "u32 \<Rightarrow> boot_device_state \<Rightarrow> nat \<Rightarrow> boot_device_state" where
  "serial_after now bds lba = (if lba < 2 then snd (msc_get_serial_number32 now bds) else bds)"

definition in_trailing_cluster :: "addressmap \<Rightarrow> nat \<Rightarrow> bool" where
  "in_trailing_cluster am lba \<longleftrightarrow> 292 \<le> lba \<and> (lba - 292) div 8 + FIRST_CLUSTER = CLUS_CRASH_LAST am"

lemma vd_read_block_image:
  assumes "disk_ok am gen html ser m" and "\<not> in_trailing_cluster am (unat lba)" and "length buf = 512"
  shows "vd_read_block am gen ser m now lba buf bds =
         Some (False, image_sector am gen html ser m (volume_serial now bds) (unat lba),
               serial_after now bds (unat lba))"
proof -
  define l where "l = unat lba"
  have clear: "store_list 0 (replicate SECTOR_SIZE 0) buf = Some (replicate 512 0)"
    using assms(3) by (simp add: store_list_def disk_sizes)
  have "l = 0 \<or> l = 1 \<or> 2 \<le> l \<and> l < 260 \<or> l = 260 \<or> 261 \<le> l \<and> l < 292 \<or> 292 \<le> l" by linarith
  then show ?thesis
    using assms(2) vd_read_fat_text [of "l - 2" am] vd_read_data_text [OF assms(1), of "l - 292"]
    unfolding vd_read_block_def clear l_def [symmetric]
    by (auto simp: Let_def vd_read_mbr_text vd_read_boot_sector_text vd_read_root_text disk_sizes
        image_sector_def volume_serial_def serial_after_def in_trailing_cluster_def split_beta
        diff_diff_eq)
qed

lemma length_image_sector:
  assumes "disk_ok am gen html ser m" shows "length (image_sector am gen html ser m sn lba) = 512"
  using length_index_text [OF assms] disk_okD [OF assms]
  by (simp add: image_sector_def mbr_text_def boot_text_def length_ptable_data4 length_boot_sector
      fat_text_def root_text_def length_root_entries data_text_def sector_of_def disk_sizes)


subsection \<open>The files of the repository\<close>

text \<open>\<open>bootrom/welcome.html\<close> and \<open>bootrom/info_uf2.txt\<close>, on an RP2040 whose RAM is all zero.\<close>

definition newline :: u8 where "newline = 0x0a"

definition repo_welcome :: bytes where
  "repo_welcome =
     ascii_bytes ''Test -- it works!'' @ [newline, newline] @
     ascii_bytes ''Version is aabbccddeeff because the generator/main.c requires this.'' @ [newline] @
     ascii_bytes ''Once more: aabbccddeeff'' @ [newline]"

definition repo_info :: bytes where
  "repo_info =
     ascii_bytes ''UF2 Bootloader v3.0'' @ [newline] @ ascii_bytes ''Model: Raspberry Pi RP2'' @ [newline] @
     ascii_bytes ''Board-ID: RPI-RP2'' @ [newline]"


definition repo_generated :: generated where
  "repo_generated =
     \<lparr> welcome_html_z = compress_from repo_welcome 0, welcome_html_len = 111,
       welcome_html_version_offset_1 = 30, welcome_html_version_offset_2 = 98,
       info_uf2_txt = repo_info,
       scsi_ir_z = compress_from (scsi_inquiry_bytes (scsi_ir\<lparr>ir_rmb := 0\<rparr>)) 0 \<rparr>"

lemma repo_texts:
  "length repo_welcome = 111" "length repo_info = 62" "ascii_text repo_welcome" "ascii_text repo_info"
  by (simp_all add: repo_welcome_def repo_info_def newline_def ascii_bytes_def ascii_text_def)

lemma repo_version_offsets: "version_offsets repo_welcome = [30, 98]"
  unfolding version_offsets_def repo_texts(1)
  by (simp add: repo_welcome_def newline_def ascii_bytes_def version_text_def upt_rec)

lemma scsi_ir_ascii: "ascii_text (scsi_inquiry_bytes (scsi_ir\<lparr>ir_rmb := 0\<rparr>))"
  "length (scsi_inquiry_bytes (scsi_ir\<lparr>ir_rmb := 0\<rparr>)) = 36"
  by (simp_all add: scsi_inquiry_bytes_def scsi_ir_def ascii_bytes_def ascii_text_def)

lemma repo_generator: "generator_main repo_welcome repo_info = Some repo_generated"
proof -
  have "repo_welcome \<noteq> []" "repo_info \<noteq> []" using repo_texts by auto
  then show ?thesis
    by (simp add: generator_main_def read_fully_def repo_texts compress_eq scsi_ir_ascii
        repo_version_offsets repo_generated_def)
qed

lemma repo_disk_ok: "disk_ok rp2040 repo_generated repo_welcome (replicate 12 0x30) zero_ram"
  by (simp add: disk_ok_def rp2040_ok zero_ram_sram repo_texts disk_sizes)
    (simp add: repo_generated_def repo_texts repo_generator [unfolded repo_generated_def])

subsection \<open>Sequences of reads\<close>

text \<open>A request is the time of it and the sector.\<close>

fun read_session ::
    "addressmap \<Rightarrow> generated \<Rightarrow> bytes \<Rightarrow> memory \<Rightarrow> (u32 \<times> u32) list \<Rightarrow> boot_device_state \<Rightarrow>
     (bytes list \<times> boot_device_state) option" where
  "read_session am gen ser m [] bds = Some ([], bds)"
| "read_session am gen ser m ((now, lba) # rs) bds = do {
     (_, buf, bds) \<leftarrow> vd_read_block am gen ser m now lba (replicate 512 0) bds;
     (bufs, bds) \<leftarrow> read_session am gen ser m rs bds;
     Some (buf # bufs, bds)
   }"

text \<open>What a read answers depends on time and state through the serial number only.\<close>

lemma vd_read_block_serial:
  assumes "vd_read_block am gen ser m now lba b bds = Some (r, buf, bds')"
    and "unat lba < 2 \<Longrightarrow> volume_serial now bds = volume_serial now' bds2"
  shows "\<exists>bds3. vd_read_block am gen ser m now' lba b bds2 = Some (r, buf, bds3)"
proof -
  have "unat lba = 0 \<or> unat lba = 1 \<or> 2 \<le> unat lba" by linarith
  then show ?thesis
    using assms by (auto simp: vd_read_block_def Let_def bind_eq_Some_conv volume_serial_def
        split_beta disk_sizes split: if_splits)
qed

lemma vd_read_block_state:
  assumes "vd_read_block am gen ser m now lba b bds = Some (r, buf, bds')"
  shows "bds' = serial_after now bds (unat lba)"
  using assms by (auto simp: vd_read_block_def Let_def bind_eq_Some_conv serial_after_def
      split_beta split: if_splits)

lemma serial_after_keeps:
  "serial_number_valid bds \<Longrightarrow> serial_after now bds l = bds"
  by (simp add: serial_after_def msc_get_serial_number32_def)

lemma read_session_valid:
  "read_session am gen ser m rs bds = Some (bufs, bds') \<Longrightarrow> serial_number_valid bds \<Longrightarrow> bds' = bds"
  by (induction rs arbitrary: bds bufs)
    (auto simp: bind_eq_Some_conv dest!: vd_read_block_state simp: serial_after_keeps)

lemma read_session_nth:
  assumes "read_session am gen ser m rs bds = Some (bufs, bds')" and "i < length rs"
  shows "\<exists>r now bds1 bds2.
      vd_read_block am gen ser m now (snd (rs ! i)) (replicate 512 0) bds1 = Some (r, bufs ! i, bds2) \<and>
      (unat (snd (rs ! i)) < 2 \<longrightarrow> volume_serial now bds1 = serial_number32 bds')"
  using assms
proof (induction rs arbitrary: bds bufs i)
  case (Cons nl rs)
  obtain now lba where nl: "nl = (now, lba)" by (cases nl)
  obtain r buf bds1 bufs1 where read: "vd_read_block am gen ser m now lba (replicate 512 0) bds = Some (r, buf, bds1)"
    "read_session am gen ser m rs bds1 = Some (bufs1, bds')" "bufs = buf # bufs1"
    using Cons.prems(1) nl by (auto simp: bind_eq_Some_conv)
  show ?case
  proof (cases i)
    case 0
    have "volume_serial now bds = serial_number32 bds'" if "unat lba < 2"
    proof -
      have "bds1 = snd (msc_get_serial_number32 now bds)"
        using vd_read_block_state [OF read(1)] that by (simp add: serial_after_def)
      then have "bds' = bds1" using read_session_valid [OF read(2)] by simp
      with \<open>bds1 = _\<close> show ?thesis
        by (simp add: volume_serial_def msc_get_serial_number32_def Let_def)
    qed
    then show ?thesis using 0 read nl by auto
  next
    case (Suc j)
    then show ?thesis using Cons.IH [OF read(2), of j] Cons.prems(2) read(3) by simp
  qed
qed simp

subsection \<open>Properties\<close>

text \<open>C5: The handler for reading a sector implements the contract: it stores nothing outside of the
  buffer, reads no unmapped memory, is never asynchronous, and leaves in the buffer, whatever was in it,
  exactly the 512 bytes of the image; only the MBR and the boot sector touch the serial number.  The
  exception is the cluster behind the crash dump.\<close>

theorem vd_read_block_implements_image:
  assumes "disk_ok am gen html ser m" and "\<not> in_trailing_cluster am (unat lba)" and "length buf = 512"
  shows "vd_read_block am gen ser m now lba buf bds =
         Some (False, image_sector am gen html ser m (volume_serial now bds) (unat lba),
               serial_after now bds (unat lba)) \<and>
         length (image_sector am gen html ser m (volume_serial now bds) (unat lba)) = 512"
  using vd_read_block_image [OF assms] length_image_sector [OF assms(1)] by simp

theorem vd_read_block_implements_image_witness:
  "vd_read_block rp2040 repo_generated (replicate 12 0x30) zero_ram 5 300 (replicate 512 1)
     \<lparr>serial_number32 = 3, serial_number_valid = True\<rparr> =
   Some (False, sector_of repo_info, \<lparr>serial_number32 = 3, serial_number_valid = True\<rparr>)"
  using vd_read_block_implements_image [OF repo_disk_ok, of 300 "replicate 512 1" 5
      "\<lparr>serial_number32 = 3, serial_number_valid = True\<rparr>"]
  by (simp add: in_trailing_cluster_def CLUS_CRASH_LAST_def MEM_SIZE_rp2040 disk_sizes
      image_sector_def data_text_def serial_after_def) (simp add: repo_generated_def)

text \<open>C9: The cluster behind the dump.  The test \<open>cluster <= CLUS_CRASH_LAST\<close> admits one cluster more than
  the RAM fills, and the handler reads behind the end of the RAM for it: where nothing is mapped
  there, this is a bus fault.\<close>

theorem trailing_cluster_bus_fault:
  assumes "disk_ok am gen html ser m" and "in_trailing_cluster am (unat lba)"
    and "m (SRAM_END am + of_nat (128 * ((unat lba - 292) mod 8))) = None"
  shows "vd_read_block am gen ser m now lba buf bds = None"
proof -
  define i where "i = (unat lba - 292) mod 8"
  note L = MEM_SIZE_clusters [OF disk_okD(1) [OF assms(1)]]
  have "(of_nat (MEM_SIZE am) :: u32) = SRAM_END am - SRAM_BASE am"
    by (simp add: MEM_SIZE_def)
  then have "SRAM_BASE am + of_nat ((CLUS_CRASH_LAST am - 4) * 1024) = SRAM_END am"
    using L(1) by (simp add: mult.commute)
  then have addr: "SRAM_BASE am + of_nat ((CLUS_CRASH_LAST am - 4) * 1024) + of_nat (i * 128) =
      SRAM_END am + of_nat (128 * i)"
    by (simp only: mult.commute)
  have xxd: "xxd m (SRAM_END am + of_nat (128 * i)) b = None" for b
    using assms(3) unfolding i_def [symmetric]
    by (simp add: xxd_def xxd_line_def xxd_hword_def upt_rec Let_def bind_eq_None_conv)
  have lba: "292 \<le> unat lba" "(unat lba - 292) div 8 + 2 = CLUS_CRASH_LAST am"
    using assms(2) by (simp_all add: in_trailing_cluster_def disk_sizes)
  have "vd_read_data am gen ser m (unat lba - 292) b = None" for b
    unfolding vd_read_data_def Let_def disk_sizes power_numeral
    using lba(2) L(2) xxd addr
    by (simp add: i_def [symmetric] bind_eq_None_conv del: of_nat_mult of_nat_diff)
  moreover have "unat lba \<noteq> 0" "unat lba - 1 \<noteq> 0" "\<not> unat lba - 2 < 258" "\<not> unat lba - 2 - 258 < 32"
      "unat lba - 2 - 258 - 32 = unat lba - 292"
    using lba(1) by linarith+
  ultimately show ?thesis
    by (simp only: vd_read_block_def disk_sizes Let_def if_False) (simp add: bind_eq_None_conv)
qed

theorem trailing_cluster_bus_fault_witness:
  "vd_read_block rp2040 repo_generated (replicate 12 0x30) zero_ram 5 2420 (replicate 512 1)
     \<lparr>serial_number32 = 3, serial_number_valid = True\<rparr> = None"
  by (rule trailing_cluster_bus_fault [OF repo_disk_ok])
    (simp_all add: in_trailing_cluster_def CLUS_CRASH_LAST_def MEM_SIZE_def disk_sizes zero_ram_def rp2040_def)

text \<open>C10: Reads are repeatable: in any sequence of reads, at whatever times, two reads of the same sector
  answer the same bytes; in particular the serial number in the MBR and the boot sector, which is the
  time of the first read of either, never changes.\<close>

theorem reads_repeatable:
  assumes "read_session am gen ser m rs bds = Some (bufs, bds')"
    and "i < length rs" "j < length rs" "snd (rs ! i) = snd (rs ! j)"
  shows "bufs ! i = bufs ! j"
proof -
  obtain r now b1 b2 where i: "vd_read_block am gen ser m now (snd (rs ! i)) (replicate 512 0) b1 = Some (r, bufs ! i, b2)"
    "unat (snd (rs ! i)) < 2 \<longrightarrow> volume_serial now b1 = serial_number32 bds'"
    using read_session_nth [OF assms(1,2)] by blast
  obtain r' now' b1' b2' where j: "vd_read_block am gen ser m now' (snd (rs ! j)) (replicate 512 0) b1' = Some (r', bufs ! j, b2')"
    "unat (snd (rs ! j)) < 2 \<longrightarrow> volume_serial now' b1' = serial_number32 bds'"
    using read_session_nth [OF assms(1,3)] by blast
  have "\<exists>b3. vd_read_block am gen ser m now' (snd (rs ! i)) (replicate 512 0) b1' = Some (r, bufs ! i, b3)"
    by (rule vd_read_block_serial [OF i(1)]) (use i(2) j(2) assms(4) in simp)
  with j(1) assms(4) show ?thesis by simp
qed

theorem reads_repeatable_witness:
  "boot_text 5 = (case read_session rp2040 repo_generated [] zero_ram [(5, 1), (9, 1)]
     \<lparr>serial_number32 = 3, serial_number_valid = False\<rparr> of Some (bufs, _) \<Rightarrow> bufs ! 1 | None \<Rightarrow> [])"
  using reads_repeatable [of rp2040 repo_generated "[]" zero_ram "[(5, 1), (9, 1)]"
      "\<lparr>serial_number32 = 3, serial_number_valid = False\<rparr>" "[boot_text 5, boot_text 5]" _ 0 1]
  by (simp add: vd_read_block_def store_list_def disk_sizes Let_def msc_get_serial_number32_def
      vd_read_boot_sector_text)

end
