(* ===== verification/Sector_Stream.thy ===== *)
theory Sector_Stream
  imports Usb_Frame Disk_Image
begin

text \<open>
  The stream of a read: the packets that the device has given to the controller of the IN endpoint, oldest
  first, as an abstract queue over its two buffers, and what the calls of the stream helper and of the
  mass storage class do to this queue.  The device keeps both buffers filled with the next packets of the
  sectors, in order and with alternating data toggles.
\<close>

subsection \<open>Packets that the controller owns\<close>

definition slot_at :: "usb_endpoint \<Rightarrow> u8 \<Rightarrow> nat" where
  "slot_at ep b = unat (dpram_buffer_offset ep) + (if b \<noteq> 0 then unat usb_endpoint_stride else 0)"

definition in_ep_ok :: "usb_endpoint \<Rightarrow> bool" where
  "in_ep_ok ep \<longleftrightarrow>
     ep_in ep \<and> double_buffered ep \<and> ep_num ep = 1 \<and> buffer_size ep = 64 \<and> halt_state ep = HS_NONE \<and>
     unat (dpram_buffer_offset ep) + 128 \<le> 4096 \<and> (current_give_buffer ep = 0 \<or> current_give_buffer ep = 1) \<and>
     (next_pid ep = 0 \<or> next_pid ep = 1)"

text \<open>The buffer and the data toggle of the oldest packet, or of the next one.\<close>

definition oldest :: "usb_endpoint \<Rightarrow> u8 \<times> bool" where
  "oldest ep =
     (if owned_buffer_count ep = 1 then (current_give_buffer ep XOR 1, next_pid ep = 0)
      else (current_give_buffer ep, next_pid ep \<noteq> 0))"

text \<open>Buffer \<open>b\<close> is to be sent as the packet \<open>bs\<close> with the data toggle \<open>pid\<close>.\<close>

definition holds :: "u8 \<Rightarrow> bool \<Rightarrow> bytes \<Rightarrow> 'a usb_state_scheme \<Rightarrow> bool" where
  "holds b pid bs s \<longleftrightarrow>
     (let ep = endpoints s Msc_in; c = (if b = 0 then fst else snd) (buf_ctrls s (1, True)) in
      bc_avail c \<and> bc_full c \<and> \<not> bc_stall c \<and> bc_data1 c = pid \<and> bc_len c = of_nat (length bs) \<and> length bs \<le> 64 \<and>
      take (length bs) (drop (slot_at ep b) (dpram s)) = bs)"

text \<open>The packets under way, the oldest first.\<close>

definition in_flight_packets :: "bytes list \<Rightarrow> 'a usb_state_scheme \<Rightarrow> bool" where
  "in_flight_packets q s \<longleftrightarrow>
     (let ep = endpoints s Msc_in; g = current_give_buffer ep; p = next_pid ep in
      owned_buffer_count ep = of_nat (2 - length q) \<and>
      (case q of
         [] \<Rightarrow> True
       | [x] \<Rightarrow> holds (g XOR 1) (p = 0) x s
       | [x, y] \<Rightarrow> holds g (p \<noteq> 0) x s \<and> holds (g XOR 1) (p = 0) y s
       | _ \<Rightarrow> False))"

lemma in_flight_length: "in_flight_packets q s \<Longrightarrow> length q \<le> 2"
  by (auto simp: in_flight_packets_def Let_def split: list.splits)

text \<open>One more packet is given to the controller.\<close>

lemma usb_give_buffer_in:
  assumes "in_ep_ok (endpoints s Msc_in)" "current_transfer (endpoints s Msc_in) = Some k"
    and "in_flight_packets q s" "length q < 2" "length bs \<le> 64"
    and "take (length bs) (drop (slot_at (endpoints s Msc_in) (current_give_buffer (endpoints s Msc_in))) (dpram s)) = bs"
  shows "\<exists>E B. usb_give_buffer Msc_in (of_nat (length bs)) s =
      Some (s\<lparr>endpoints := (endpoints s)(Msc_in := E),
              transfers := (transfers s)(k := (transfers s k)
                \<lparr>packets_to_submit := packets_to_submit (transfers s k) - 1\<rparr>),
              buf_ctrls := (buf_ctrls s)((1, True) := B)\<rparr>) \<and>
      in_ep_ok E \<and> current_transfer E = Some k \<and> \<not> buf_valid (current_hw_buffer E) \<and>
      dpram_buffer_offset E = dpram_buffer_offset (endpoints s Msc_in) \<and> oldest E = oldest (endpoints s Msc_in) \<and>
      in_flight_packets (q @ [bs]) (s\<lparr>endpoints := (endpoints s)(Msc_in := E), buf_ctrls := (buf_ctrls s)((1, True) := B)\<rparr>)"
proof -
  obtain ep where ep: "endpoints s Msc_in = ep" by simp
  define E where "E = ep\<lparr>halt_state := HS_NONE, first_buffer_after_reset := False, next_pid := next_pid ep XOR 1,
     current_hw_buffer := (current_hw_buffer ep)\<lparr>buf_valid := False\<rparr>, owned_buffer_count := owned_buffer_count ep - 1,
     current_give_buffer := current_give_buffer ep XOR 1\<rparr>"
  define val where "val = \<lparr> bc_avail = True, bc_full = True, bc_data1 = (next_pid ep \<noteq> 0),
     bc_sel = first_buffer_after_reset ep, bc_stall = False, bc_len = of_nat (length bs)\<rparr>"
  define w where "w = buf_ctrls s (1, True)"
  define B where "B = (if current_give_buffer ep = 0 then (val, snd w) else (fst w, val))"
  have len: "ucast (of_nat (length bs) :: u32) = (of_nat (length bs) :: 10 word)"
    by (rule bit_word_eqI) (simp add: bit_simps)
  note ok = assms(1,2) [unfolded ep in_ep_ok_def]
  have give: "usb_give_buffer Msc_in (of_nat (length bs)) s =
      Some (s\<lparr>endpoints := (endpoints s)(Msc_in := E),
              transfers := (transfers s)(k := (transfers s k)
                \<lparr>packets_to_submit := packets_to_submit (transfers s k) - 1\<rparr>),
              buf_ctrls := (buf_ctrls s)((1, True) := B)\<rparr>)"
    using ok by (cases ep; cases "transfers s k") (auto simp: usb_give_buffer_def ep upd_ep_def upd_tr_def set_buf_ctrl_narrow_def set_buf_ctrl_wide_def
        buf_ctrl_wide_def E_def B_def val_def w_def len Let_def)
  have E: "in_ep_ok E" "current_transfer E = Some k" "\<not> buf_valid (current_hw_buffer E)"
    "dpram_buffer_offset E = dpram_buffer_offset ep"
    using ok by (auto simp: in_ep_ok_def E_def)
  have "length q = 0 \<or> length q = 1" using assms(4) by linarith
  then have "owned_buffer_count ep = 2 \<or> owned_buffer_count ep = 1"
    using assms(3) by (auto simp: in_flight_packets_def ep Let_def)
  then have oldest: "oldest E = oldest ep" using ok by (auto simp: oldest_def E_def)
  have sent: "in_flight_packets (q @ [bs]) (s\<lparr>endpoints := (endpoints s)(Msc_in := E), buf_ctrls := (buf_ctrls s)((1, True) := B)\<rparr>)"
  proof (cases q)
    case Nil
    then show ?thesis using assms(3,5,6) ok
      by (auto simp: in_flight_packets_def holds_def slot_at_def ep E_def B_def val_def w_def Let_def)
  next
    case (Cons x q')
    then have q: "q = [x]" using assms(4) by simp
    show ?thesis using assms(3,5,6) ok
      by (auto simp: q in_flight_packets_def holds_def slot_at_def ep E_def B_def val_def w_def Let_def)
  qed
  show ?thesis using give E oldest sent ep by blast
qed


subsection \<open>The stream of a read\<close>

text \<open>Packet \<open>i\<close> of the sectors \<open>img\<close>.\<close>

definition packet :: "(nat \<Rightarrow> bytes) \<Rightarrow> nat \<Rightarrow> bytes" where
  "packet img i = take 64 (drop (64 * (i mod 8)) (img (i div 8)))"

text \<open>
  A read of \<open>N\<close> packets from \<open>lba\<close> on: \<open>k\<close> packets were given to the controller, \<open>c\<close> sectors were
  loaded, the packets \<open>q\<close> are under way, \<open>h\<close> packets are to be handled.
\<close>

definition streaming ::
    "(nat \<Rightarrow> bytes) \<Rightarrow> u32 \<Rightarrow> nat \<Rightarrow> nat \<Rightarrow> nat \<Rightarrow> bytes list \<Rightarrow> nat \<Rightarrow> bool \<Rightarrow> 'a usb_msc_state_scheme \<Rightarrow> bool" where
  "streaming img lba N k c q h out s \<longleftrightarrow>
     (let ep = endpoints s Msc_in; tr = transfers s Msc_sector_transfer; st = streams s Msc_sector_transfer in
      in_ep_ok ep \<and> \<not> buf_valid (current_hw_buffer ep) \<and> current_transfer ep = Some Msc_sector_transfer \<and>
      in_flight_packets q s \<and>
      tr_type tr = Some Usb_stream_type \<and> tr_on_complete tr = Some Tf_data_phase_complete \<and>
      packets_to_submit tr = of_nat (N - k) \<and> packets_to_handle tr = of_nat h \<and>
      outstanding_packet tr = out \<and> \<not> packet_queued tr \<and> \<not> completed tr \<and>
      st_offset st = of_nat (64 * k) \<and> transfer_length st = of_nat (64 * N) \<and> chunk_size st = 512 \<and>
      chunk_buffer st = SectorBuf 0 \<and> st_ep st = Some Msc_in \<and> st_funcs st = Some Msc_sector_funcs \<and>
      msc_lba s = lba + of_nat c \<and> length (sector_buf s) = 512 \<and> (0 < c \<longrightarrow> sector_buf s = img (c - 1)) \<and>
      length (dpram s) = 4096 \<and> residue (csw (msc s)) = of_nat (64 * (N - k)) \<and>
      csw_status (csw (msc s)) = CSW_STATUS_COMMAND_PASSED \<and> csw_sig (csw (msc s)) = CSW_SIG \<and>
      stall_direction_before_csw (msc s) = SCSI_DIR_NONE)"

text \<open>What a read does not change; and what the device does not change in an interrupt of it.\<close>

definition kept :: "'a usb_msc_state_scheme \<Rightarrow> _" where
  "kept s =
     (endpoints s Msc_out, transfers s Msc_cmd_transfer, buf_ctrls s (2, False), ep_ctrls s, endpoint_array s, mem s,
      timerawl s, serial_number_string s, length (sector_buf s), csw_tag (csw (msc s)), volume_serial (timerawl s) (boot_device s))"

definition background :: "'a usb_msc_state_scheme \<Rightarrow> _" where
  "background s = (oldest (endpoints s Msc_in), dpram_buffer_offset (endpoints s Msc_in), hw s, kept s)"

definition size_ok :: "nat \<Rightarrow> bool" where "size_ok N \<longleftrightarrow> N < 2 ^ 20"

lemma packet_offset:
  assumes "size_ok N" "k < N"
  shows "(of_nat (64 * k) :: u32) AND 511 = of_nat (64 * (k mod 8))"
    and "unat (of_nat (64 * (k mod 8)) :: u32) = 64 * (k mod 8)"
    and "unat (of_nat (64 * k) :: u32) = 64 * k" "unat (of_nat (64 * N) :: u32) = 64 * N"
proof -
  show u: "unat (of_nat (64 * k) :: u32) = 64 * k" "unat (of_nat (64 * N) :: u32) = 64 * N"
    using assms by (simp_all only: unat_of_nat size_ok_def) simp_all
  show m: "unat (of_nat (64 * (k mod 8)) :: u32) = 64 * (k mod 8)"
    by (simp only: unat_of_nat) (simp add: le_less_trans [OF mult_le_mono2 [OF less_imp_le [OF mod_less_divisor]]])
  have "(511 :: u32) = mask 9" by (simp add: mask_eq_exp_minus_1)
  then have "(of_nat (64 * k) :: u32) AND 511 = take_bit 9 (of_nat (64 * k))" by (simp add: take_bit_eq_mask)
  then have "unat ((of_nat (64 * k) :: u32) AND 511) = 64 * k mod 512"
    using u(1) by (simp only: unsigned_take_bit_eq) (simp add: take_bit_eq_mod)
  then show "(of_nat (64 * k) :: u32) AND 511 = of_nat (64 * (k mod 8))"
    using m by (simp only: word_unat_eq_iff) (simp add: mult_mod_right)
qed

lemma stream_lengths:
  assumes "size_ok N" "k < N" "st_offset st = of_nat (64 * k)" "transfer_length st = of_nat (64 * N)" "chunk_size st = 512"
  shows "stream_in_length st = 64" "usb_stream_chunk_offset st = of_nat (64 * (k mod 8))"
proof -
  note u = packet_offset [OF assms(1,2)]
  have "unat (of_nat (64 * k) + 64 :: u32) = 64 * k + 64"
    using unat_add_small [of "of_nat (64 * k)" 64] u(3) assms(1,2) by (simp add: size_ok_def)
  then show "stream_in_length st = 64"
    using u(3,4) assms by (simp add: stream_in_length_def word_less_nat_alt)
  show "usb_stream_chunk_offset st = of_nat (64 * (k mod 8))"
    using u(1) assms by (simp add: usb_stream_chunk_offset_def)
qed


text \<open>A store to the free buffer leaves the packets under way.\<close>

definition patched :: "nat \<Rightarrow> bytes \<Rightarrow> bytes \<Rightarrow> bytes" where
  "patched off bs d = take off d @ bs @ drop (off + length bs) d"

lemma patched_read: "off + length bs \<le> length d \<Longrightarrow> take (length bs) (drop off (patched off bs d)) = bs"
  by (simp add: patched_def)

lemma patched_other:
  assumes "off + length bs \<le> length d" "b + n \<le> off \<or> off + length bs \<le> b"
  shows "take n (drop b (patched off bs d)) = take n (drop b d)"
proof (cases "b + n \<le> off")
  case True
  then show ?thesis using assms(1) by (simp add: patched_def take_drop min_absorb1)
next
  case False
  then have "off + length bs \<le> b" using assms(2) by blast
  then have "drop b (patched off bs d) = drop b d"
    using assms(1) by (simp add: patched_def)
  then show ?thesis by simp
qed

lemma length_patched: "off + length bs \<le> length d \<Longrightarrow> length (patched off bs d) = length d"
  by (simp add: patched_def)

definition same_in_ep :: "usb_endpoint \<Rightarrow> usb_endpoint \<Rightarrow> bool" where
  "same_in_ep E ep \<longleftrightarrow>
     dpram_buffer_offset E = dpram_buffer_offset ep \<and> current_give_buffer E = current_give_buffer ep \<and>
     next_pid E = next_pid ep \<and> owned_buffer_count E = owned_buffer_count ep"

lemma in_flight_store:
  assumes "in_ep_ok (endpoints s Msc_in)" "in_flight_packets q s" "length q < 2" "length bs \<le> 64" "length (dpram s) = 4096"
    and "slot = slot_at (endpoints s Msc_in) (current_give_buffer (endpoints s Msc_in))"
    and "same_in_ep (endpoints t Msc_in) (endpoints s Msc_in)" "buf_ctrls t (1, True) = buf_ctrls s (1, True)"
    and "dpram t = patched slot bs (dpram s)"
  shows "in_flight_packets q t"
proof (cases q)
  case Nil
  then show ?thesis using assms by (simp add: in_flight_packets_def same_in_ep_def Let_def)
next
  case (Cons x q')
  then have q: "q = [x]" using assms(3) by simp
  let ?g = "current_give_buffer (endpoints s Msc_in)"
  have x: "holds (?g XOR 1) (next_pid (endpoints s Msc_in) = 0) x s"
    using assms(2) by (simp add: q in_flight_packets_def Let_def)
  then have "length x \<le> 64" by (simp add: holds_def Let_def)
  moreover have "slot + 64 \<le> slot_at (endpoints s Msc_in) (?g XOR 1) \<or> slot_at (endpoints s Msc_in) (?g XOR 1) + 64 \<le> slot"
    "slot + 64 \<le> 4096"
    using assms(1,6) by (auto simp: in_ep_ok_def slot_at_def usb_endpoint_stride_def)
  ultimately have "take (length x) (drop (slot_at (endpoints s Msc_in) (?g XOR 1)) (dpram t)) =
      take (length x) (drop (slot_at (endpoints s Msc_in) (?g XOR 1)) (dpram s))"
    unfolding assms(9) using assms(4,5) by (intro patched_other) auto
  then show ?thesis
    using x assms(2,7,8) by (simp add: q in_flight_packets_def same_in_ep_def holds_def slot_at_def Let_def)
qed


lemma in_flight_cong:
  assumes "in_flight_packets q s" "same_in_ep (endpoints t Msc_in) (endpoints s Msc_in)"
    and "buf_ctrls t (1, True) = buf_ctrls s (1, True)" "dpram t = dpram s"
  shows "in_flight_packets q t"
  using assms by (auto simp: in_flight_packets_def same_in_ep_def holds_def slot_at_def Let_def split: list.splits)

text \<open>The end of the handling of a packet that is to be sent, when more are to be handled.\<close>

definition filled :: "nat \<Rightarrow> usb_endpoint \<Rightarrow> bool" where
  "filled n ep \<longleftrightarrow>
     buf_data (current_hw_buffer ep) = slot_at ep (current_give_buffer ep) \<and>
     buf_data_len (current_hw_buffer ep) = of_nat n \<and> n \<le> 64"

definition after_give ::
    "usb_endpoint \<Rightarrow> buf_ctrl \<times> buf_ctrl \<Rightarrow> trid \<Rightarrow> 'a usb_state_scheme \<Rightarrow> 'a usb_state_scheme" where
  "after_give E B k s =
     s\<lparr>endpoints := (endpoints s)(Msc_in := E),
       transfers := (transfers s)(k := (transfers s k)
         \<lparr>outstanding_packet := False, packets_to_submit := packets_to_submit (transfers s k) - 1\<rparr>),
       buf_ctrls := (buf_ctrls s)((1, True) := B)\<rparr>"

lemma packet_done_in:
  assumes "in_ep_ok (endpoints s Msc_in)" "current_transfer (endpoints s Msc_in) = Some k"
    and "in_flight_packets q s" "length q < 2" "filled (length bs) (endpoints s Msc_in)"
    and "take (length bs) (drop (slot_at (endpoints s Msc_in) (current_give_buffer (endpoints s Msc_in))) (dpram s)) = bs"
    and "packets_to_handle (transfers s k) \<noteq> 0" "\<not> completed (transfers s k)" "\<not> packet_queued (transfers s k)"
  shows "\<exists>E B. usb_packet_done cb Msc_in s = give_as_many cb Msc_in (after_give E B k s) \<and>
      in_ep_ok E \<and> current_transfer E = Some k \<and> \<not> buf_valid (current_hw_buffer E) \<and>
      dpram_buffer_offset E = dpram_buffer_offset (endpoints s Msc_in) \<and> oldest E = oldest (endpoints s Msc_in) \<and>
      in_flight_packets (q @ [bs]) (after_give E B k s)"
proof -
  define s1 where "s1 = upd_tr k (outstanding_packet_update (\<lambda>_. False)) s"
  have len: "length bs \<le> 64" using assms(5) by (simp add: filled_def)
  have s1: "endpoints s1 = endpoints s" "buf_ctrls s1 = buf_ctrls s" "dpram s1 = dpram s"
    by (simp_all add: s1_def upd_tr_def)
  have flight: "in_flight_packets q s1"
    using s1 by (intro in_flight_cong [OF assms(3)]) (simp_all add: same_in_ep_def)
  obtain E B where give: "usb_give_buffer Msc_in (of_nat (length bs)) s1 =
      Some (s1\<lparr>endpoints := (endpoints s1)(Msc_in := E),
              transfers := (transfers s1)(k := (transfers s1 k)
                \<lparr>packets_to_submit := packets_to_submit (transfers s1 k) - 1\<rparr>),
              buf_ctrls := (buf_ctrls s1)((1, True) := B)\<rparr>)" (is "_ = Some ?s2")
    and E: "in_ep_ok E" "current_transfer E = Some k" "\<not> buf_valid (current_hw_buffer E)"
      "dpram_buffer_offset E = dpram_buffer_offset (endpoints s1 Msc_in)" "oldest E = oldest (endpoints s1 Msc_in)"
    and sent: "in_flight_packets (q @ [bs])
      (s1\<lparr>endpoints := (endpoints s1)(Msc_in := E), buf_ctrls := (buf_ctrls s1)((1, True) := B)\<rparr>)"
    using usb_give_buffer_in [of s1 k q bs] assms(1,2,4,6) len flight unfolding s1 by auto
  have u8: "ucast (of_nat (length bs) :: u8) = (of_nat (length bs) :: u32)"
    using len by (simp add: word_unat_eq_iff unsigned_ucast_eq unat_of_nat take_bit_nat_eq_self)
  let ?g = "the (usb_give_buffer Msc_in (of_nat (length bs)) s1)"
  have halt: "halt_state (endpoints s1 Msc_in) = HS_NONE" "ep_in (endpoints s1 Msc_in)" "current_transfer (endpoints s1 Msc_in) = Some k"
    using assms(1,2) by (simp_all add: in_ep_ok_def s1)
  have tr: "packets_to_handle (transfers s1 k) \<noteq> 0" "\<not> completed (transfers s1 k)" "\<not> packet_queued (transfers s1 k)"
    using assms(7-9) by (simp_all add: s1_def upd_tr_def)
  have len': "ucast (buf_data_len (current_buffer Msc_in s1)) = (of_nat (length bs) :: u32)"
    using assms(5) u8 by (simp add: current_buffer_def filled_def s1)
  have check: "check_for_transfer_completion cb Msc_in s1 = Some s1"
    using halt tr by (simp add: check_for_transfer_completion_def Let_def)
  have "usb_packet_done cb Msc_in s = give_as_many cb Msc_in (invalidate_buffer Msc_in ?s2)"
    using tr(3) unfolding usb_packet_done_def assms(2) Option.bind.bind_lunit s1_def [symmetric] Let_def
    by (simp add: check tr(2) halt(2) len' give invalidate_buffer_def upd_ep_def)
  moreover have "invalidate_buffer Msc_in ?s2 = after_give E B k s"
  proof -
    have "current_hw_buffer_update (buf_valid_update (\<lambda>_. False)) E = E"
      using E(3) by (cases E; cases "current_hw_buffer E") simp
    then show ?thesis by (cases s) (simp add: after_give_def invalidate_buffer_def upd_ep_def s1_def upd_tr_def)
  qed
  moreover have "in_flight_packets (q @ [bs]) (after_give E B k s)"
    using s1 by (intro in_flight_cong [OF sent]) (simp_all add: same_in_ep_def after_give_def)
  ultimately show ?thesis by (intro exI [of _ E] exI [of _ B] conjI) (use E s1 in simp_all)
qed


subsection \<open>One packet of a read\<close>

definition loaded ::
    "(nat \<Rightarrow> bytes) \<Rightarrow> nat \<Rightarrow> 'a usb_msc_state_scheme \<Rightarrow> 'a usb_msc_state_scheme" where
  "loaded img k s =
     (let ep = endpoints s Msc_in; slot = slot_at ep (current_give_buffer ep) in
      (reduce_residue 64 s)
       \<lparr>endpoints := (endpoints s)(Msc_in := ep\<lparr>current_hw_buffer :=
           \<lparr>buf_data = slot, buf_data_len = 64, buf_data_max = ucast (buffer_size ep), buf_valid = True\<rparr>\<rparr>),
        dpram := patched slot (packet img k) (dpram s),
        streams := (streams s)(Msc_sector_transfer := st_offset_update (\<lambda>n. n + 64) (streams s Msc_sector_transfer)),
        gpio_out := gpio_out s AND NOT (usb_activity_gpio_pin_mask s)\<rparr>)"

lemma length_packet: "length (img (k div 8)) = 512 \<Longrightarrow> length (packet img k) = 64"
  using mod_less_divisor [of 8 k] by (simp add: packet_def)

lemma store_list_patched: "off + length bs \<le> length d \<Longrightarrow> store_list off bs d = Some (patched off bs d)"
  by (simp add: store_list_def patched_def)

lemma chunk_packet:
  assumes "sector_buf s = img (k div 8)" "length (sector_buf s) = 512"
  shows "chunk_load (SectorBuf 0) (64 * (k mod 8)) 64 s = Some (packet img k)"
proof -
  have "k mod 8 \<le> 7" using mod_less_divisor [of 8 k] by simp
  then have "64 * (k mod 8) + 64 \<le> 512" by simp
  then show ?thesis
    using assms by (simp add: chunk_load_def load_data_def packet_def drop_take)
qed

lemma stream_loads:
  assumes st: "streaming img lba N k c q h out s" and "size_ok N" "k < N" "c = Suc (k div 8)"
    and cb: "\<And>u. cb (On_packet_complete Msc_sector_funcs) u = Some (False, reduce_residue 64 u)"
  shows "usb_stream_packet_handler_complete cb Msc_sector_transfer s = usb_packet_done cb Msc_in (loaded img k s)"
proof -
  note st = st [unfolded streaming_def Let_def in_ep_ok_def]
  have buf: "sector_buf s = img (k div 8)" "length (sector_buf s) = 512" using st unfolding assms(4) by auto
  note lens = stream_lengths [OF assms(2,3), of "streams s Msc_sector_transfer"]
  have n: "stream_in_length (streams s Msc_sector_transfer) = 64"
    "unat (usb_stream_chunk_offset (streams s Msc_sector_transfer)) = 64 * (k mod 8)"
    using lens packet_offset(2) [OF assms(2,3)] st by simp_all
  have len: "length (packet img k) = 64" using buf length_packet by metis
  have slot: "slot_at (endpoints s Msc_in) (current_give_buffer (endpoints s Msc_in)) + 64 \<le> 4096"
    using st by (auto simp: slot_at_def usb_endpoint_stride_def)
  define E where "E = (endpoints s Msc_in)\<lparr>current_hw_buffer :=
     \<lparr>buf_data = slot_at (endpoints s Msc_in) (current_give_buffer (endpoints s Msc_in)), buf_data_len = 64,
      buf_data_max = ucast (buffer_size (endpoints s Msc_in)), buf_valid = True\<rparr>\<rparr>"
  define s1 where "s1 = s\<lparr>endpoints := (endpoints s)(Msc_in := E)\<rparr>"
  have s1: "set_buffer_len Msc_in (ucast (stream_in_length (streams s Msc_sector_transfer)))
      (usb_current_packet_buffer Msc_in s) = s1"
    using st by (simp add: n usb_current_packet_buffer_def set_buffer_len_def upd_ep_def Let_def s1_def E_def slot_at_def comp_def)
  have load: "chunk_load (SectorBuf 0) (64 * (k mod 8)) 64 s1 = Some (packet img k)"
    using chunk_packet [of s1 img k] buf by (simp add: s1_def)
  define s2 where "s2 = s1\<lparr>dpram := patched (buf_data (current_buffer Msc_in s1)) (packet img k) (dpram s)\<rparr>"
  have store: "dpram_store (buf_data (current_buffer Msc_in s1)) (packet img k) s1 = Some s2"
    using slot len st by (simp add: dpram_store_def store_list_patched s2_def s1_def current_buffer_def E_def)
  have cur: "streams (usb_current_packet_buffer Msc_in s) = streams s" "ep_in (endpoints (usb_current_packet_buffer Msc_in s) Msc_in)"
    using st by (simp_all add: usb_current_packet_buffer_def upd_ep_def Let_def)
  have "st_ep (streams s Msc_sector_transfer) = Some Msc_in" "chunk_buffer (streams s Msc_sector_transfer) = SectorBuf 0"
    using st by simp_all
  then have "usb_stream_packet_handler_complete cb Msc_sector_transfer s =
      (let s3 = upd_st Msc_sector_transfer (st_offset_update (\<lambda>n. n + ucast (buf_data_len (current_buffer Msc_in s2)))) s2 in
       Option.bind (st_funcs (streams s3 Msc_sector_transfer)) (\<lambda>funcs.
       Option.bind (call_void cb (On_packet_complete funcs) s3) (\<lambda>s.
       usb_packet_done cb Msc_in (gpio_clr_mask (usb_activity_gpio_pin_mask s) s))))"
    unfolding usb_stream_packet_handler_complete_def Let_def by (simp add: cur s1 [unfolded n, simplified] n load store)
  moreover have "buf_data_len (current_buffer Msc_in s2) = 64" "st_funcs (streams s2 Msc_sector_transfer) = Some Msc_sector_funcs"
    using st by (simp_all add: s2_def s1_def current_buffer_def E_def)
  moreover have "gpio_clr_mask (usb_activity_gpio_pin_mask s)
      (reduce_residue 64 (upd_st Msc_sector_transfer (st_offset_update (\<lambda>n. n + 64)) s2)) = loaded img k s"
    by (cases s) (simp add: gpio_clr_mask_def reduce_residue_def upd_msc_def upd_st_def s2_def s1_def E_def loaded_def
        current_buffer_def Let_def)
  ultimately show ?thesis
    by (simp add: cb call_void_def upd_st_def) (simp add: reduce_residue_def upd_msc_def s2_def s1_def)
qed

lemma stream_numbers:
  assumes "k < N"
  shows "(of_nat (N - k) :: u32) - 1 = of_nat (N - Suc k)" "(of_nat (64 * (N - k)) :: u32) - 64 = of_nat (64 * (N - Suc k))"
    and "(of_nat (64 * k) :: u32) + 64 = of_nat (64 * Suc k)"
proof -
  have "(of_nat (N - k) :: u32) = of_nat (Suc (N - Suc k))" "(of_nat (64 * (N - k)) :: u32) = of_nat (64 * Suc (N - Suc k))"
    using assms by (simp_all only: Suc_diff_Suc)
  then show "(of_nat (N - k) :: u32) - 1 = of_nat (N - Suc k)" "(of_nat (64 * (N - k)) :: u32) - 64 = of_nat (64 * (N - Suc k))"
    by simp_all
qed simp

lemma of_nat_nonzero: "0 < h \<Longrightarrow> h \<le> N \<Longrightarrow> size_ok N \<Longrightarrow> (of_nat h :: u32) \<noteq> 0"
proof -
  assume "0 < h" "h \<le> N" "size_ok N"
  then have "unat (of_nat h :: u32) = h" by (simp add: unat_of_nat size_ok_def)
  then show ?thesis using \<open>0 < h\<close> by (metis unat_0 less_irrefl)
qed

lemma stream_complete:
  assumes st: "streaming img lba N k c q h out s" and "size_ok N" "k < N" "c = Suc (k div 8)" "length q < 2" "0 < h" "h \<le> N"
    and cb: "\<And>u. cb (On_packet_complete Msc_sector_funcs) u = Some (False, reduce_residue 64 u)"
  shows "\<exists>t. usb_stream_packet_handler_complete cb Msc_sector_transfer s = give_as_many cb Msc_in t \<and>
    streaming img lba N (Suc k) c (q @ [packet img k]) h False t \<and> background t = background s"
proof -
  let ?u = "loaded img k s" and ?ep = "endpoints s Msc_in" and ?k = Msc_sector_transfer
  define bs where "bs = packet img k"
  note st' = st [unfolded streaming_def Let_def]
  have ok: "in_ep_ok ?ep" and flight: "in_flight_packets q s" and dpram: "length (dpram s) = 4096"
    and cur: "current_transfer ?ep = Some ?k" using st' by simp_all
  have "sector_buf s = img (k div 8)" "length (sector_buf s) = 512" using st' unfolding assms(4) by auto
  then have len: "length bs = 64" using length_packet bs_def by metis
  have slot: "slot_at ?ep (current_give_buffer ?ep) + 64 \<le> 4096"
    using ok by (auto simp: in_ep_ok_def slot_at_def usb_endpoint_stride_def)
  have u: "endpoints ?u Msc_in = ?ep\<lparr>current_hw_buffer := \<lparr>buf_data = slot_at ?ep (current_give_buffer ?ep), buf_data_len = 64,
      buf_data_max = ucast (buffer_size ?ep), buf_valid = True\<rparr>\<rparr>" "transfers ?u = transfers s" "buf_ctrls ?u = buf_ctrls s"
    "dpram ?u = patched (slot_at ?ep (current_give_buffer ?ep)) bs (dpram s)"
    by (simp_all add: loaded_def reduce_residue_def upd_msc_def Let_def bs_def)
  have "in_flight_packets q ?u"
    by (rule in_flight_store [OF ok flight assms(5) _ dpram refl _ _ u(4)]) (simp_all add: len u same_in_ep_def)
  moreover have "take (length bs) (drop (slot_at (endpoints ?u Msc_in) (current_give_buffer (endpoints ?u Msc_in))) (dpram ?u)) = bs"
    using patched_read [of "slot_at ?ep (current_give_buffer ?ep)" bs "dpram s"] slot dpram by (simp add: u len slot_at_def)
  moreover have "filled (length bs) (endpoints ?u Msc_in)" "in_ep_ok (endpoints ?u Msc_in)"
    using ok by (simp_all add: filled_def u len slot_at_def in_ep_ok_def)
  moreover have "packets_to_handle (transfers ?u ?k) \<noteq> 0" "\<not> completed (transfers ?u ?k)" "\<not> packet_queued (transfers ?u ?k)"
    using st' of_nat_nonzero [OF assms(6,7,2)] by (simp_all add: u)
  moreover have "current_transfer (endpoints ?u Msc_in) = Some ?k" using cur by (simp add: u)
  ultimately obtain E B where give: "usb_packet_done cb Msc_in ?u = give_as_many cb Msc_in (after_give E B ?k ?u)"
    and E: "in_ep_ok E" "current_transfer E = Some ?k" "\<not> buf_valid (current_hw_buffer E)"
      "oldest E = oldest (endpoints ?u Msc_in)" "dpram_buffer_offset E = dpram_buffer_offset (endpoints ?u Msc_in)"
    and sent: "in_flight_packets (q @ [bs]) (after_give E B ?k ?u)"
    using packet_done_in [of ?u ?k q bs cb] assms(5) by blast
  let ?t = "after_give E B ?k ?u"
  have "length (dpram ?t) = 4096" using length_patched [of _ bs "dpram s"] slot dpram len by (simp add: after_give_def u)
  moreover have t: "endpoints ?t Msc_in = E" "transfers ?t ?k = (transfers s ?k)\<lparr>outstanding_packet := False,
      packets_to_submit := packets_to_submit (transfers s ?k) - 1\<rparr>"
    "streams ?t ?k = st_offset_update (\<lambda>n. n + 64) (streams s ?k)" "msc_lba ?t = msc_lba s" "sector_buf ?t = sector_buf s"
    "msc ?t = (msc s)\<lparr>csw := (csw (msc s))\<lparr>residue := residue (csw (msc s)) - 64\<rparr>\<rparr>"
    by (simp_all add: after_give_def u loaded_def reduce_residue_def upd_msc_def Let_def)
  ultimately have "streaming img lba N (Suc k) c (q @ [bs]) h False ?t"
    unfolding streaming_def Let_def t using E sent st' stream_numbers [OF assms(3)] by simp
  moreover have "background ?t = background s"
    using E(4,5) by (simp add: u oldest_def background_def kept_def after_give_def loaded_def reduce_residue_def upd_msc_def Let_def)
  ultimately show ?thesis
    using stream_loads [where cb = cb, OF st assms(2-4) cb] give unfolding bs_def by auto
qed

text \<open>The disk answers reads of \<open>M\<close> sectors from \<open>lba\<close> on with the sectors \<open>img\<close>.\<close>

definition serves :: "program \<Rightarrow> (nat \<Rightarrow> bytes) \<Rightarrow> u32 \<Rightarrow> nat \<Rightarrow> 'a usb_msc_state_scheme \<Rightarrow> bool" where
  "serves prog img lba M s \<longleftrightarrow>
     (\<forall>i < M. length (img i) = 512 \<and> (\<forall>buf bds.
        length buf = 512 \<and> volume_serial (timerawl s) bds = volume_serial (timerawl s) (boot_device s) \<longrightarrow>
        (\<exists>bds'. vd_read_block (prog_am prog) (prog_gen prog) (serial_number_string s) (mem s) (timerawl s)
            (lba + of_nat i) buf bds = Some (False, img i, bds') \<and>
          volume_serial (timerawl s) bds' = volume_serial (timerawl s) (boot_device s))))"

lemma serves_kept: "kept t = kept s \<Longrightarrow> serves prog img lba M t = serves prog img lba M s"
proof -
  assume "kept t = kept s"
  then have "timerawl t = timerawl s" "mem t = mem s" "serial_number_string t = serial_number_string s"
    and "volume_serial (timerawl t) (boot_device t) = volume_serial (timerawl s) (boot_device s)"
    unfolding kept_def prod.inject by blast+
  then show ?thesis by (simp add: serves_def)
qed

lemma serves_cong: "background t = background s \<Longrightarrow> serves prog img lba M t = serves prog img lba M s"
  by (rule serves_kept) (simp add: background_def)

lemma chunk_loaded:
  assumes st: "streaming img lba N k c q h out s" and sv: "serves prog img lba M s" and "c < M"
  shows "\<exists>t. msc_on_sector_stream_chunk prog s = Some (False, t) \<and> streaming img lba N k (Suc c) q h out t \<and>
    background t = background s"
proof -
  note st' = st [unfolded streaming_def Let_def]
  have s: "length (sector_buf s) = 512" "msc_lba s = lba + of_nat c" "st_ep (streams s Msc_sector_transfer) = Some Msc_in"
    "ep_in (endpoints s Msc_in)" using st' by (simp_all add: in_ep_ok_def)
  obtain bds where read: "vd_read_block (prog_am prog) (prog_gen prog) (serial_number_string s) (mem s) (timerawl s)
      (lba + of_nat c) (sector_buf s) (boot_device s) = Some (False, img c, bds)"
    "volume_serial (timerawl s) bds = volume_serial (timerawl s) (boot_device s)" "length (img c) = 512"
    using sv assms(3) s(1) unfolding serves_def by blast
  let ?t = "s\<lparr>msc_async_token := msc_async_token s + 1, msc_lba := lba + of_nat c + 1, sector_buf := img c, boot_device := bds\<rparr>"
  have "msc_on_sector_stream_chunk prog s = Some (False, ?t)"
    using s read(1) by (cases s) (simp add: msc_on_sector_stream_chunk_def Let_def)
  moreover have "streaming img lba N k (Suc c) q h out ?t"
    using st' read(3) in_flight_cong [of q s ?t] unfolding streaming_def Let_def
    by (simp add: same_in_ep_def add.commute add.left_commute)
  moreover have "background ?t = background s" using read(2,3) s(1) by (simp add: background_def kept_def)
  ultimately show ?thesis by blast
qed

lemma streaming_mark:
  assumes "streaming img lba N k c q h out s"
  shows "streaming img lba N k c q h True (gpio_set_mask m (upd_tr Msc_sector_transfer (outstanding_packet_update (\<lambda>_. True)) s))"
    and "background (gpio_set_mask m (upd_tr Msc_sector_transfer (outstanding_packet_update (\<lambda>_. True)) s)) = background s"
proof -
  let ?t = "gpio_set_mask m (upd_tr Msc_sector_transfer (outstanding_packet_update (\<lambda>_. True)) s)"
  show "streaming img lba N k c q h True ?t"
    using assms in_flight_cong [of q s ?t] unfolding streaming_def Let_def
    by (simp add: gpio_set_mask_def upd_tr_def same_in_ep_def)
  show "background ?t = background s" by (simp add: background_def kept_def gpio_set_mask_def upd_tr_def)
qed

text \<open>Sectors that are loaded when \<open>k\<close> packets were given.\<close>

definition loads :: "nat \<Rightarrow> nat" where "loads k = (k + 7) div 8"

lemma loads_Suc: "loads (Suc k) = Suc (k div 8)" "k mod 8 = 0 \<Longrightarrow> loads k = k div 8" "k mod 8 \<noteq> 0 \<Longrightarrow> loads k = Suc (k div 8)"
  unfolding loads_def by presburger+

lemma chunk_start:
  assumes "size_ok N" "k < N" "N = 8 * M"
    and "st_offset st = of_nat (64 * k)" "transfer_length st = of_nat (64 * N)" "chunk_size st = 512"
  shows "in_chunk_length st = (if k mod 8 = 0 then 512 else 0)"
proof -
  note u = packet_offset [OF assms(1,2)]
  have off: "usb_stream_chunk_offset st = of_nat (64 * (k mod 8))"
    using stream_lengths(2) [OF assms(1,2,4-6)] .
  show ?thesis
  proof (cases "k mod 8 = 0")
    case True
    then have "k + 8 \<le> N" using assms(2,3) by presburger
    moreover have "unat (of_nat (64 * k) + 512 :: u32) = 64 * k + 512"
      using unat_add_small [of "of_nat (64 * k)" 512] u(3) assms(1,2) by (simp add: size_ok_def)
    ultimately have "\<not> st_offset st + chunk_size st > transfer_length st"
      using u(4) by (simp add: assms(4-6) word_less_nat_alt)
    then show ?thesis using True off assms(6) by (simp add: in_chunk_length_def)
  next
    case False
    then have "of_nat (64 * (k mod 8)) \<noteq> (0 :: u32)" using u(2) by (metis unat_0 mult_eq_0_iff zero_neq_numeral)
    then show ?thesis using False off by (simp add: in_chunk_length_def)
  qed
qed

definition stream_calls :: "program \<Rightarrow> 'a usb_msc_state_scheme caller \<Rightarrow> bool" where
  "stream_calls prog cb \<longleftrightarrow>
     (\<forall>s. cb (On_packet_complete Msc_sector_funcs) s = Some (False, reduce_residue 64 s)) \<and>
     (\<forall>n s. cb (On_chunk Msc_sector_funcs n) s = msc_on_sector_stream_chunk prog s)"

lemma stream_calls_run: "stream_calls prog (run prog (Suc n))"
  by (simp add: stream_calls_def invoke_def void_def msc_on_sector_stream_packet_complete_def)

lemma handler_gives:
  assumes st: "streaming img lba N k (loads k) q h out s" and sv: "serves prog img lba M s" and cb: "stream_calls prog cb"
    and "size_ok N" "k < N" "N = 8 * M" "length q < 2" "0 < h" "h \<le> N"
  shows "\<exists>t. usb_stream_packet_packet_handler cb Msc_in (upd_tr Msc_sector_transfer (outstanding_packet_update (\<lambda>_. True)) s) =
      give_as_many cb Msc_in t \<and>
    streaming img lba N (Suc k) (loads (Suc k)) (q @ [packet img k]) h False t \<and> background t = background s"
proof -
  define s1 where "s1 = gpio_set_mask (usb_activity_gpio_pin_mask s) (upd_tr Msc_sector_transfer (outstanding_packet_update (\<lambda>_. True)) s)"
  note s1 = streaming_mark [OF st, of "usb_activity_gpio_pin_mask s", folded s1_def]
  have mark: "gpio_set_mask (usb_activity_gpio_pin_mask (upd_tr Msc_sector_transfer (outstanding_packet_update (\<lambda>_. True)) s))
      (upd_tr Msc_sector_transfer (outstanding_packet_update (\<lambda>_. True)) s) = s1"
    by (simp add: s1_def upd_tr_def)
  have st1: "current_transfer (endpoints s1 Msc_in) = Some Msc_sector_transfer" "ep_in (endpoints s1 Msc_in)"
    "st_funcs (streams s1 Msc_sector_transfer) = Some Msc_sector_funcs"
    "in_chunk_length (streams s1 Msc_sector_transfer) = (if k mod 8 = 0 then 512 else 0)"
    using s1(1) chunk_start [OF assms(4-6)] by (simp_all add: streaming_def Let_def in_ep_ok_def)
  have "\<exists>s2. (if k mod 8 = 0 then cb (On_chunk Msc_sector_funcs 512) s1 else Some (False, s1)) = Some (False, s2) \<and>
    streaming img lba N k (Suc (k div 8)) q h True s2 \<and> background s2 = background s1"
  proof (cases "k mod 8 = 0")
    case True
    moreover have "k div 8 < M" using assms(5,6) by presburger
    ultimately show ?thesis
      using chunk_loaded [OF s1(1), of prog M] serves_cong [OF s1(2)] sv cb by (simp add: loads_Suc stream_calls_def)
  next
    case False
    then show ?thesis using s1 by (simp add: loads_Suc)
  qed
  then obtain s2 where s2: "(if k mod 8 = 0 then cb (On_chunk Msc_sector_funcs 512) s1 else Some (False, s1)) = Some (False, s2)"
    "streaming img lba N k (Suc (k div 8)) q h True s2" "background s2 = background s1" by blast
  have "usb_stream_packet_packet_handler cb Msc_in (upd_tr Msc_sector_transfer (outstanding_packet_update (\<lambda>_. True)) s) =
      usb_stream_packet_handler_complete cb Msc_sector_transfer s2"
    using s2(1) st1 unfolding usb_stream_packet_packet_handler_def Let_def
    by (simp add: mark split: if_splits)
  then show ?thesis
    using stream_complete [OF s2(2) assms(4,5) refl assms(7-9), of cb] s2(3) s1(2) cb by (simp add: loads_Suc stream_calls_def)
qed

text \<open>The device keeps both buffers of the endpoint filled.\<close>

definition sent_by :: "nat \<Rightarrow> nat \<Rightarrow> bytes list \<Rightarrow> nat" where
  "sent_by N k q = min N (k + (2 - length q))"

definition queued :: "(nat \<Rightarrow> bytes) \<Rightarrow> nat \<Rightarrow> nat \<Rightarrow> bytes list \<Rightarrow> bytes list" where
  "queued img N k q = q @ map (packet img) [k ..< sent_by N k q]"

lemma may_give_streaming:
  assumes "streaming img lba N k c q h out s" "size_ok N" "k \<le> N"
  shows "may_give_buffer Msc_in s \<longleftrightarrow> k < N \<and> length q < 2"
proof -
  have "length q \<le> 2" "owned_buffer_count (endpoints s Msc_in) = of_nat (2 - length q)"
    using assms(1) in_flight_length by (auto simp: streaming_def in_flight_packets_def Let_def)
  then have "owned_buffer_count (endpoints s Msc_in) \<noteq> 0 \<longleftrightarrow> length q < 2"
    by (cases "length q"; cases "length q - 1") auto
  moreover have "(of_nat (N - k) :: u32) \<noteq> 0 \<longleftrightarrow> k < N"
    using of_nat_nonzero [of "N - k" N] assms(2,3) by (cases "k = N") simp_all
  ultimately show ?thesis
    using assms(1) by (auto simp: may_give_buffer_def streaming_def in_ep_ok_def Let_def)
qed

lemma buffers_owned:
  assumes "streaming img lba N k c q h out s" "streaming img lba' N' k' c' q' h' out' t" "length q < length q'"
  shows "owned_buffer_count (endpoints t Msc_in) \<noteq> owned_buffer_count (endpoints s Msc_in)"
proof -
  have "length q' \<le> 2" "owned_buffer_count (endpoints s Msc_in) = of_nat (2 - length q)"
    "owned_buffer_count (endpoints t Msc_in) = of_nat (2 - length q')"
    using assms(1,2) in_flight_length by (auto simp: streaming_def in_flight_packets_def Let_def)
  moreover have "(of_nat (2 - n) :: u8) \<noteq> of_nat (2 - m)" if "n < m" "m \<le> 2" for n m
  proof -
    have "n = 0 \<and> m = 1 \<or> n = 0 \<and> m = 2 \<or> n = 1 \<and> m = 2" using that by arith
    then show ?thesis by auto
  qed
  ultimately show ?thesis using assms(3) by metis
qed

lemma call_gives:
  assumes "streaming img lba N k (loads k) q h False s" "serves prog img lba M s" "size_ok N" "k < N" "N = 8 * M"
    and "length q < 2" "0 < h" "h \<le> N"
  shows "\<exists>t. usb_call_on_packet (run prog (Suc (Suc m))) Msc_in s = give_as_many (run prog (Suc m)) Msc_in t \<and>
      streaming img lba N (Suc k) (loads (Suc k)) (q @ [packet img k]) h False t \<and> background t = background s"
proof -
  let ?s = "upd_tr Msc_sector_transfer (outstanding_packet_update (\<lambda>_. True)) s"
  obtain t where t: "usb_stream_packet_packet_handler (run prog (Suc m)) Msc_in ?s = give_as_many (run prog (Suc m)) Msc_in t"
    "streaming img lba N (Suc k) (loads (Suc k)) (q @ [packet img k]) h False t" "background t = background s"
    using handler_gives [OF assms(1,2) stream_calls_run assms(3-8)] by blast
  have "usb_call_on_packet (run prog (Suc (Suc m))) Msc_in s = give_as_many (run prog (Suc m)) Msc_in t"
    using assms(1) t(1)
    by (simp add: usb_call_on_packet_def streaming_def Let_def call_void_def invoke_def void_def upd_tr_def option.map_comp comp_def
        option.map_ident)
  then show ?thesis using t by blast
qed

lemma sent_step:
  assumes "k < N" "length q < 2"
  shows "sent_by N (Suc k) (q @ [packet img k]) = sent_by N k q" "queued img N (Suc k) (q @ [packet img k]) = queued img N k q"
proof -
  show sent: "sent_by N (Suc k) (q @ [packet img k]) = sent_by N k q" using assms by (auto simp: sent_by_def)
  have "k < sent_by N k q" using assms by (auto simp: sent_by_def)
  then show "queued img N (Suc k) (q @ [packet img k]) = queued img N k q" using sent by (simp add: queued_def upt_conv_Cons)
qed

lemma fill_buffers:
  assumes "streaming img lba N k (loads k) q h False s" "serves prog img lba M s" "size_ok N" "k \<le> N" "N = 8 * M" "0 < h" "h \<le> N"
    and "2 - length q < n"
  shows "\<exists>t. give_as_many (run prog n) Msc_in s = Some t \<and>
      streaming img lba N (sent_by N k q) (loads (sent_by N k q)) (queued img N k q) h False t \<and> background t = background s"
  using assms
proof (induction "2 - length q" arbitrary: s k q n rule: less_induct)
  case less
  note may = may_give_streaming [OF less.prems(1,3,4)]
  show ?case
  proof (cases "k < N \<and> length q < 2")
    case False
    then have "sent_by N k q = k" using less.prems(4) by (auto simp: sent_by_def)
    moreover have "\<not> may_give_buffer Msc_in s" using False may by blast
    ultimately show ?thesis using less.prems(1) by (simp add: give_as_many.simps [of _ _ s] queued_def)
  next
    case True
    obtain m where n: "n = Suc (Suc m)" using less.prems(8) True by (cases n; cases "n - 1") auto
    obtain t where step: "usb_call_on_packet (run prog n) Msc_in s = give_as_many (run prog (Suc m)) Msc_in t"
      and t: "streaming img lba N (Suc k) (loads (Suc k)) (q @ [packet img k]) h False t" "background t = background s"
      using call_gives [OF less.prems(1-3) _ less.prems(5) _ less.prems(6,7)] True unfolding n by blast
    have less_q: "2 - length (q @ [packet img k]) < 2 - length q" using True by auto
    note sent = sent_step [OF conjunct1 [OF True] conjunct2 [OF True], of img]
    obtain u where u: "give_as_many (run prog (Suc m)) Msc_in t = Some u"
      "streaming img lba N (sent_by N k q) (loads (sent_by N k q)) (queued img N k q) h False u" "background u = background t"
    proof -
      have "serves prog img lba M t" "Suc k \<le> N" "2 - length (q @ [packet img k]) < Suc m"
        using serves_cong [OF t(2)] less.prems(2,8) True n less_q by auto
      from less.hyps [OF less_q t(1) this(1) less.prems(3) this(2) less.prems(5-7) this(3)] that show ?thesis
        unfolding sent by blast
    qed
    have "owned_buffer_count (endpoints u Msc_in) \<noteq> owned_buffer_count (endpoints s Msc_in)"
      using True by (intro buffers_owned [OF less.prems(1) u(2)]) (auto simp: queued_def sent_by_def)
    moreover have "give_as_many (run prog n) Msc_in u = Some u"
      using may_give_streaming [OF u(2) less.prems(3)] True
      by (auto simp: give_as_many.simps [of _ _ u] sent_by_def queued_def)
    ultimately have "give_as_many (run prog n) Msc_in s = Some u"
      using may True step u(1) less.prems(1)
      by (simp add: give_as_many.simps [of _ _ s] streaming_def in_ep_ok_def Let_def)
    then show ?thesis using u t(2) by auto
  qed
qed

lemma on_packet_fills:
  assumes "streaming img lba N k (loads k) q h False s" "serves prog img lba M s" "size_ok N" "k < N" "N = 8 * M" "0 < h" "h \<le> N"
    and "length q < 2" "4 \<le> n"
  shows "\<exists>t. usb_call_on_packet (run prog n) Msc_in s = Some t \<and>
      streaming img lba N (sent_by N k q) (loads (sent_by N k q)) (queued img N k q) h False t \<and> background t = background s"
proof -
  obtain m where n: "n = Suc (Suc m)" "2 \<le> m" using assms(9) by (intro that [of "n - 2"]) auto
  obtain t where step: "usb_call_on_packet (run prog n) Msc_in s = give_as_many (run prog (Suc m)) Msc_in t"
    and t: "streaming img lba N (Suc k) (loads (Suc k)) (q @ [packet img k]) h False t" "background t = background s"
    using call_gives [OF assms(1-5,8,6,7)] unfolding n(1) by blast
  have "serves prog img lba M t" "Suc k \<le> N" "2 - length (q @ [packet img k]) < Suc m"
    using serves_cong [OF t(2)] assms(2,4) n(2) by auto
  from fill_buffers [OF t(1) this(1) assms(3) this(2) assms(5-7) this(3)] show ?thesis
    unfolding sent_step [OF assms(4,8)] step t(2) .
qed

end
