(* ===== verification/Data_Phase.thy ===== *)
theory Data_Phase
  imports Sector_Stream
begin

text \<open>
  The host takes the packets that the device offers on its IN endpoint, one interrupt for each, and then the
  status.  The controller is the environment: it uses its two buffers and the data toggles in turn, and only
  sees its registers and its memory.
\<close>

subsection \<open>The controller and the host\<close>

text \<open>The host takes the packet in buffer \<open>sel\<close> of the IN endpoint 1; it discards it if the toggle is wrong.\<close>

definition take_packet :: "u8 \<Rightarrow> bool \<Rightarrow> 'a usb_state_scheme \<Rightarrow> (bytes \<times> 'a usb_state_scheme) option" where
  "take_packet sel toggle s =
     (case ep_ctrls s (1, True) of
        None \<Rightarrow> None
      | Some ec \<Rightarrow>
          let w = buf_ctrls s (1, True); c = (if sel = 0 then fst w else snd w);
              c' = c\<lparr>bc_avail := False, bc_full := False\<rparr>
          in if bc_avail c \<and> bc_full c \<and> \<not> bc_stall c \<and> bc_data1 c = toggle then
               Some (take (unat (bc_len c)) (drop (unat (ec_offset ec) + (if sel \<noteq> 0 then 64 else 0)) (dpram s)),
                 s\<lparr>hw := (hw s)\<lparr>buf_status := buf_status (hw s) OR 4, ints_buff_status := True,
                      buf_cpu_should_handle := (if sel \<noteq> 0 then buf_cpu_should_handle (hw s) OR 4
                                                else buf_cpu_should_handle (hw s) AND NOT 4)\<rparr>,
                    buf_ctrls := (buf_ctrls s)((1, True) := if sel = 0 then (c', snd w) else (fst w, c'))\<rparr>)
             else None)"

text \<open>One packet and its interrupt; then \<open>n\<close> packets.\<close>

definition host_takes :: "program \<Rightarrow> nat \<Rightarrow> u8 \<times> bool \<Rightarrow> 'a boot_state_scheme \<Rightarrow> (bytes \<times> 'a boot_state_scheme) option" where
  "host_takes prog n pos s = do {
     (bs, s) \<leftarrow> take_packet (fst pos) (snd pos) s;
     s \<leftarrow> device_interrupt prog n s;
     Some (bs, s)
   }"

definition next_pos :: "u8 \<times> bool \<Rightarrow> u8 \<times> bool" where
  "next_pos pos = (fst pos XOR 1, \<not> snd pos)"

primrec host_reads ::
    "program \<Rightarrow> nat \<Rightarrow> nat \<Rightarrow> u8 \<times> bool \<Rightarrow> 'a boot_state_scheme \<Rightarrow> (bytes list \<times> (u8 \<times> bool) \<times> 'a boot_state_scheme) option" where
  "host_reads prog n 0 pos s = Some ([], pos, s)"
| "host_reads prog n (Suc k) pos s = do {
     (bs, s) \<leftarrow> host_takes prog n pos s;
     (rest, pos, s) \<leftarrow> host_reads prog n k (next_pos pos) s;
     Some (bs # rest, pos, s)
   }"

definition quiet_hw :: "usb_hw \<Rightarrow> bool" where
  "quiet_hw h \<longleftrightarrow> \<not> ints_setup_req h \<and> \<not> ints_bus_reset h \<and> \<not> ints_error h \<and> buf_status h = 0"

lemma handle_buffer_single:
  assumes "buf_status (hw s) = push_bit i 1" "i < 10"
  shows "usb_handle_buffer cb s = handle_buffer_bit cb i s"
proof -
  have "bit (push_bit i 1 :: u32) j \<longleftrightarrow> j = i" if "j < 10" for j
    using that assms(2) by (auto simp: bit_exp_iff)
  then have step: "foldM (\<lambda>j s. if bit (push_bit i 1 :: u32) j then handle_buffer_bit cb j s else Some s) js s =
      (if i \<in> set js then handle_buffer_bit cb i s else Some s)" if "distinct js" "\<forall>j \<in> set js. j < 10" for js s
    using that
  proof (induction js arbitrary: s)
    case (Cons j js)
    then show ?case by (cases "handle_buffer_bit cb i s") auto
  qed simp
  have "drop_bit 10 (push_bit i 1 :: u32) = 0"
    using assms(2) by (intro bit_eqI) (auto simp: bit_drop_bit_eq bit_exp_iff)
  then show ?thesis
    using assms step [of "[0..<10]" s]
    by (cases "handle_buffer_bit cb i s") (simp_all add: usb_handle_buffer_def USB_MAX_ENDPOINTS_def Let_def)
qed

lemma interrupt_buffer:
  assumes "\<not> ints_setup_req (hw s)" "ints_buff_status (hw s)" "\<not> ints_bus_reset (hw s)" "\<not> ints_error (hw s)"
    and "buf_status (hw s) = push_bit i 1" "i < 10"
  shows "device_interrupt prog n s = handle_buffer_bit (run prog n) i s"
  using handle_buffer_single [OF assms(5,6)] assms(1-4)
  by (cases "handle_buffer_bit (run prog n) i s") (simp_all add: device_interrupt_def isr_usbctrl_def Let_def)

subsection \<open>A packet is taken\<close>

definition ep_registers :: "'a usb_state_scheme \<Rightarrow> bool" where
  "ep_registers s \<longleftrightarrow>
     map_option ec_offset (ep_ctrls s (1, True)) = Some (dpram_buffer_offset (endpoints s Msc_in)) \<and>
     1 < length (endpoint_array s) \<and> endpoint_array s ! 1 = Some Msc_in"

definition after_take :: "u8 \<Rightarrow> usb_hw \<Rightarrow> buf_ctrl \<times> buf_ctrl \<Rightarrow> 'a usb_state_scheme \<Rightarrow> 'a usb_state_scheme" where
  "after_take sel h w s =
     upd_ep Msc_in (current_take_buffer_update (\<lambda>_. sel)) (upd_ep Msc_in (owned_buffer_count_update (\<lambda>n. n + 1))
       (s\<lparr>buf_ctrls := (buf_ctrls s)((1, True) := w), hw := h\<rparr>))"

text \<open>The rest of \<open>usb_handle_transfer\<close>.\<close>

definition handle_rest :: "'a usb_state_scheme caller \<Rightarrow> trid \<Rightarrow> 'a usb_state_scheme \<Rightarrow> 'a usb_state_scheme option" where
  "handle_rest cb k s = do {
     s \<leftarrow> (if packets_to_submit (transfers s k) \<noteq> 0 then usb_call_on_packet cb Msc_in s else Some s);
     if completed (transfers s k) then Some s
     else check_for_transfer_completion cb Msc_in (upd_tr k (packets_to_handle_update (\<lambda>n. n - 1)) s)
   }"

lemma oldest_packet:
  assumes "in_flight_packets (x # q) s" "in_ep_ok (endpoints s Msc_in)" "oldest (endpoints s Msc_in) = pos"
  shows "holds (fst pos) (snd pos) x s" "fst pos = 0 \<or> fst pos = 1"
proof -
  have "q = [] \<or> length q = 1" using in_flight_length [OF assms(1)] by (cases q) simp_all
  then have "q = [] \<or> (\<exists>y. q = [y])" by (auto simp: length_Suc_conv)
  then show "holds (fst pos) (snd pos) x s"
    using assms(1,3) by (auto simp: in_flight_packets_def oldest_def Let_def)
  show "fst pos = 0 \<or> fst pos = 1" using assms(2,3) by (auto simp: in_ep_ok_def oldest_def split: if_splits)
qed

lemma take_packet_oldest:
  assumes "in_flight_packets (x # q) s" "in_ep_ok (endpoints s Msc_in)" "oldest (endpoints s Msc_in) = pos"
    and "ep_registers s" "length (dpram s) = 4096" "quiet_hw (hw s)"
  shows "\<exists>h w. take_packet (fst pos) (snd pos) s = Some (x, s\<lparr>hw := h, buf_ctrls := (buf_ctrls s)((1, True) := w)\<rparr>) \<and>
      buf_status h = push_bit 2 1 \<and> ints_buff_status h \<and> \<not> ints_setup_req h \<and> \<not> ints_bus_reset h \<and> \<not> ints_error h \<and>
      (bit (buf_cpu_should_handle h) 2 \<longleftrightarrow> fst pos = 1) \<and>
      (if fst pos = 0 then snd w = snd (buf_ctrls s (1, True)) else fst w = fst (buf_ctrls s (1, True)))"
proof -
  obtain ec where ec: "ep_ctrls s (1, True) = Some ec" "ec_offset ec = dpram_buffer_offset (endpoints s Msc_in)"
    using assms(4) by (auto simp: ep_registers_def)
  note old = oldest_packet [OF assms(1-3)]
  define c where "c = (if fst pos = 0 then fst else snd) (buf_ctrls s (1, True))"
  have c: "bc_avail c" "bc_full c" "\<not> bc_stall c" "bc_data1 c = snd pos" "bc_len c = of_nat (length x)" "length x \<le> 64"
    "take (length x) (drop (slot_at (endpoints s Msc_in) (fst pos)) (dpram s)) = x"
    using old(1) by (simp_all add: holds_def Let_def c_def)
  have n: "unat (bc_len c) = length x" using c(5,6) by (simp add: unat_of_nat)
  define h where "h = (hw s)\<lparr>buf_status := buf_status (hw s) OR 4, ints_buff_status := True,
      buf_cpu_should_handle := (if fst pos \<noteq> 0 then buf_cpu_should_handle (hw s) OR 4 else buf_cpu_should_handle (hw s) AND NOT 4)\<rparr>"
  define w where "w = (let c' = c\<lparr>bc_avail := False, bc_full := False\<rparr>; v = buf_ctrls s (1, True) in
      if fst pos = 0 then (c', snd v) else (fst v, c'))"
  have "take_packet (fst pos) (snd pos) s = Some (x, s\<lparr>hw := h, buf_ctrls := (buf_ctrls s)((1, True) := w)\<rparr>)"
    using c n by (auto simp: take_packet_def ec c_def h_def w_def Let_def slot_at_def usb_endpoint_stride_def split: if_splits)
  moreover have "bit (4 :: u32) 2" using bit_exp_iff [of 2 2, where ?'a = u32] by simp
  then have "bit (buf_cpu_should_handle h) 2 \<longleftrightarrow> fst pos = 1"
    using old(2) by (auto simp: h_def bit_simps)
  ultimately show ?thesis using assms(6) by (intro exI [of _ h] exI [of _ w]) (auto simp: h_def w_def quiet_hw_def)
qed

lemma host_takes_step:
  assumes "in_flight_packets (x # q) s" "in_ep_ok (endpoints s Msc_in)" "oldest (endpoints s Msc_in) = pos"
    and "ep_registers s" "length (dpram s) = 4096" "quiet_hw (hw s)"
    and "current_transfer (endpoints s Msc_in) = Some k" "\<not> outstanding_packet (transfers s k)"
  shows "\<exists>h w. host_takes prog n pos s =
      Option.bind (handle_rest (run prog n) k (after_take (fst pos) h w s)) (\<lambda>t. Some (x, t)) \<and>
    quiet_hw h \<and> in_flight_packets q (after_take (fst pos) h w s) \<and>
    in_ep_ok (endpoints (after_take (fst pos) h w s) Msc_in) \<and>
    oldest (endpoints (after_take (fst pos) h w s) Msc_in) = next_pos pos"
proof -
  obtain h w where hw: "take_packet (fst pos) (snd pos) s = Some (x, s\<lparr>hw := h, buf_ctrls := (buf_ctrls s)((1, True) := w)\<rparr>)"
    "buf_status h = push_bit 2 1" "ints_buff_status h" "\<not> ints_setup_req h" "\<not> ints_bus_reset h" "\<not> ints_error h"
    "bit (buf_cpu_should_handle h) 2 \<longleftrightarrow> fst pos = 1"
    "if fst pos = 0 then snd w = snd (buf_ctrls s (1, True)) else fst w = fst (buf_ctrls s (1, True))"
    using take_packet_oldest [OF assms(1-6)] by blast
  note old = oldest_packet [OF assms(1-3)]
  let ?s = "s\<lparr>hw := h, buf_ctrls := (buf_ctrls s)((1, True) := w)\<rparr>" and ?h = "h\<lparr>buf_status := 0\<rparr>"
  let ?t = "after_take (fst pos) ?h w s"
  have "device_interrupt prog n ?s = handle_buffer_bit (run prog n) 2 ?s"
    using interrupt_buffer [of ?s 2] hw by simp
  also have "\<dots> = usb_handle_transfer (run prog n) 1 True (fst pos) (?s\<lparr>hw := ?h\<rparr>)"
    using hw(2,7) old(2) by (auto simp: handle_buffer_bit_def hw_clear_buf_status_def Let_def)
  also have "\<dots> = handle_rest (run prog n) k ?t"
    using assms(2,4,7,8) by (simp add: usb_handle_transfer_def handle_endpoint_def ep_registers_def upd_ep_def handle_rest_def
        after_take_def in_ep_ok_def Let_def)
  finally have "host_takes prog n pos s = Option.bind (handle_rest (run prog n) k ?t) (\<lambda>t. Some (x, t))"
    by (simp add: host_takes_def hw(1))
  moreover have "q = [] \<or> (\<exists>y. q = [y])"
    using in_flight_length [OF assms(1)] by (cases q) auto
  then have "in_flight_packets q ?t \<and> oldest (endpoints ?t Msc_in) = next_pos pos"
  proof (elim disjE exE)
    assume "q = []"
    then show ?thesis using assms(1-3)
      by (auto simp: in_flight_packets_def after_take_def upd_ep_def oldest_def next_pos_def in_ep_ok_def Let_def)
  next
    fix y assume q: "q = [y]"
    then show ?thesis using assms(1-3) hw(8)
      by (auto simp: in_flight_packets_def holds_def slot_at_def after_take_def upd_ep_def oldest_def next_pos_def in_ep_ok_def Let_def)
  qed
  moreover have "in_ep_ok (endpoints ?t Msc_in)" using assms(2) by (simp add: after_take_def upd_ep_def in_ep_ok_def)
  moreover have "quiet_hw ?h" using hw by (simp add: quiet_hw_def)
  ultimately show ?thesis by blast
qed

subsection \<open>The data phase\<close>

definition host_sees :: "u8 \<times> bool \<Rightarrow> 'a usb_state_scheme \<Rightarrow> bool" where
  "host_sees pos s \<longleftrightarrow> oldest (endpoints s Msc_in) = pos \<and> ep_registers s \<and> quiet_hw (hw s)"

lemma host_sees_background:
  assumes "background t = background s" shows "host_sees pos t = host_sees pos s"
proof -
  have "oldest (endpoints t Msc_in) = oldest (endpoints s Msc_in)" "hw t = hw s" "ep_ctrls t = ep_ctrls s"
    "endpoint_array t = endpoint_array s" "dpram_buffer_offset (endpoints t Msc_in) = dpram_buffer_offset (endpoints s Msc_in)"
    using assms unfolding background_def kept_def prod.inject by blast+
  then show ?thesis by (simp add: host_sees_def ep_registers_def)
qed

lemma after_take_streaming:
  assumes "streaming img lba N k c (x # q) h out s" "host_sees pos s"
    and "in_flight_packets q (after_take sel hw' w s)" "in_ep_ok (endpoints (after_take sel hw' w s) Msc_in)"
    and "oldest (endpoints (after_take sel hw' w s) Msc_in) = next_pos pos" "quiet_hw hw'"
  shows "streaming img lba N k c q h out (after_take sel hw' w s)" "host_sees (next_pos pos) (after_take sel hw' w s)"
    and "kept (after_take sel hw' w s) = kept s"
proof -
  let ?t = "after_take sel hw' w s"
  have t: "transfers ?t = transfers s" "streams ?t = streams s" "msc_lba ?t = msc_lba s" "sector_buf ?t = sector_buf s" "msc ?t = msc s"
    "dpram ?t = dpram s" "hw ?t = hw'" "ep_ctrls ?t = ep_ctrls s" "endpoint_array ?t = endpoint_array s"
    "current_hw_buffer (endpoints ?t Msc_in) = current_hw_buffer (endpoints s Msc_in)"
    "current_transfer (endpoints ?t Msc_in) = current_transfer (endpoints s Msc_in)"
    "dpram_buffer_offset (endpoints ?t Msc_in) = dpram_buffer_offset (endpoints s Msc_in)"
    by (simp_all add: after_take_def upd_ep_def)
  show "streaming img lba N k c q h out ?t"
    using assms(1,3,4) by (simp add: streaming_def Let_def t)
  show "host_sees (next_pos pos) ?t" using assms(2,5,6) by (simp add: host_sees_def ep_registers_def t)
  show "kept ?t = kept s" by (simp add: kept_def after_take_def upd_ep_def)
qed

lemma streaming_handled:
  assumes "streaming img lba N k c q (Suc h) out s"
  shows "streaming img lba N k c q h out (upd_tr Msc_sector_transfer (packets_to_handle_update (\<lambda>n. n - 1)) s)"
    and "background (upd_tr Msc_sector_transfer (packets_to_handle_update (\<lambda>n. n - 1)) s) = background s"
proof -
  let ?t = "upd_tr Msc_sector_transfer (packets_to_handle_update (\<lambda>n. n - 1)) s"
  show "streaming img lba N k c q h out ?t"
    using assms in_flight_cong [of q s ?t] unfolding streaming_def Let_def by (simp add: upd_tr_def same_in_ep_def)
  show "background ?t = background s" by (simp add: background_def kept_def upd_tr_def)
qed

text \<open>All buffers are filled again before the packet counts as handled.\<close>

lemma handle_rest_stream:
  assumes st: "streaming img lba N k (loads k) q (Suc h) False s" and sv: "serves prog img lba M s"
    and "size_ok N" "k \<le> N" "N = 8 * M" "Suc h \<le> N" "4 \<le> n" "length q < 2"
  shows "\<exists>t. handle_rest (run prog n) Msc_sector_transfer s = check_for_transfer_completion (run prog n) Msc_in t \<and>
    streaming img lba N (sent_by N k q) (loads (sent_by N k q)) (queued img N k q) h False t \<and> background t = background s"
proof (cases "k < N")
  case False
  then have "packets_to_submit (transfers s Msc_sector_transfer) = 0" "\<not> completed (transfers s Msc_sector_transfer)"
    "sent_by N k q = k" "queued img N k q = q"
    using st assms(4) by (simp_all add: streaming_def Let_def sent_by_def queued_def)
  then show ?thesis using streaming_handled [OF st] st by (auto simp: handle_rest_def)
next
  case True
  have submit: "packets_to_submit (transfers s Msc_sector_transfer) \<noteq> 0"
    using st of_nat_nonzero [of "N - k" N] True assms(3) by (simp add: streaming_def Let_def)
  obtain u where u: "usb_call_on_packet (run prog n) Msc_in s = Some u"
    "streaming img lba N (sent_by N k q) (loads (sent_by N k q)) (queued img N k q) (Suc h) False u" "background u = background s"
    using on_packet_fills [OF st sv assms(3) True assms(5) _ assms(6,8,7)] by blast
  then have "\<not> completed (transfers u Msc_sector_transfer)" by (simp add: streaming_def Let_def)
  then have "handle_rest (run prog n) Msc_sector_transfer s =
      check_for_transfer_completion (run prog n) Msc_in (upd_tr Msc_sector_transfer (packets_to_handle_update (\<lambda>n. n - 1)) u)"
    using submit u(1) by (simp add: handle_rest_def)
  then show ?thesis using streaming_handled [OF u(2)] u(3) by metis
qed

text \<open>\<open>j\<close> packets of \<open>N\<close> were taken: the next two are in the buffers.\<close>

definition reading :: "(nat \<Rightarrow> bytes) \<Rightarrow> u32 \<Rightarrow> nat \<Rightarrow> nat \<Rightarrow> 'a usb_msc_state_scheme \<Rightarrow> bool" where
  "reading img lba N j s \<longleftrightarrow>
     streaming img lba N (min N (j + 2)) (loads (min N (j + 2))) (map (packet img) [j ..< min N (j + 2)]) (N - j) False s"

lemma take_reading:
  assumes rd: "reading img lba N j s" and "host_sees pos s" "serves prog img lba M s" "size_ok N" "N = 8 * M" "j < N" "4 \<le> n"
  shows "\<exists>t. host_takes prog n pos s =
      Option.bind (check_for_transfer_completion (run prog n) Msc_in t) (\<lambda>t. Some (packet img j, t)) \<and>
    reading img lba N (Suc j) t \<and> host_sees (next_pos pos) t \<and> kept t = kept s"
proof -
  let ?k = "min N (j + 2)" and ?q = "map (packet img) [Suc j ..< min N (j + 2)]"
  have "[j ..< ?k] = j # [Suc j ..< ?k]" using assms(6) by (simp add: upt_conv_Cons)
  then have st: "streaming img lba N ?k (loads ?k) (packet img j # ?q) (Suc (N - Suc j)) False s"
    using rd assms(6) by (simp add: reading_def Suc_diff_Suc)
  note sees = assms(2) [unfolded host_sees_def]
  obtain h w where take: "host_takes prog n pos s =
      Option.bind (handle_rest (run prog n) Msc_sector_transfer (after_take (fst pos) h w s)) (\<lambda>t. Some (packet img j, t))"
    and u: "quiet_hw h" "in_flight_packets ?q (after_take (fst pos) h w s)"
      "in_ep_ok (endpoints (after_take (fst pos) h w s) Msc_in)"
      "oldest (endpoints (after_take (fst pos) h w s) Msc_in) = next_pos pos"
    using host_takes_step [of "packet img j" ?q s pos Msc_sector_transfer prog n] st sees
    unfolding streaming_def Let_def by blast
  note u = after_take_streaming [OF st assms(2) u(2,3,4,1)]
  obtain t where t: "handle_rest (run prog n) Msc_sector_transfer (after_take (fst pos) h w s) =
      check_for_transfer_completion (run prog n) Msc_in t"
    "streaming img lba N (sent_by N ?k ?q) (loads (sent_by N ?k ?q)) (queued img N ?k ?q) (N - Suc j) False t"
    "background t = background (after_take (fst pos) h w s)"
  proof -
    have "serves prog img lba M (after_take (fst pos) h w s)" "?k \<le> N" "Suc (N - Suc j) \<le> N" "length ?q < 2"
      using serves_kept [OF u(3)] assms(3,6) by auto
    from handle_rest_stream [OF u(1) this(1) assms(4) this(2) assms(5) this(3) assms(7) this(4)] that show ?thesis by blast
  qed
  have k: "sent_by N ?k ?q = min N (Suc j + 2)" using assms(6) by (auto simp: sent_by_def)
  then have "queued img N ?k ?q = map (packet img) [Suc j ..< min N (Suc j + 2)]"
    using assms(6) upt_add_eq_append [of "Suc j" ?k "min N (Suc j + 2) - ?k"] by (simp add: queued_def map_append [symmetric] del: map_append)
  then have "reading img lba N (Suc j) t" using t(2) k by (simp add: reading_def)
  moreover have "host_sees (next_pos pos) t" "kept t = kept s"
    using host_sees_background [OF t(3)] u(2,3) t(3) by (simp_all add: background_def)
  ultimately show ?thesis using take t(1) by auto
qed

lemma reading_continues:
  assumes "reading img lba N j s" "j < N" "size_ok N"
  shows "check_for_transfer_completion cb Msc_in s = Some s"
proof -
  have "packets_to_handle (transfers s Msc_sector_transfer) \<noteq> 0"
    using assms of_nat_nonzero [of "N - j" N] by (simp add: reading_def streaming_def Let_def)
  then show ?thesis
    using assms(1) by (simp add: reading_def streaming_def in_ep_ok_def check_for_transfer_completion_def Let_def)
qed

lemma host_reads_packets:
  assumes "reading img lba N j s" "host_sees pos s" "serves prog img lba M s" "size_ok N" "N = 8 * M" "j + i < N" "4 \<le> n"
  shows "\<exists>t. host_reads prog n i pos s = Some (map (packet img) [j ..< j + i], (next_pos ^^ i) pos, t) \<and>
    reading img lba N (j + i) t \<and> host_sees ((next_pos ^^ i) pos) t \<and> kept t = kept s"
  using assms
proof (induction i arbitrary: j pos s)
  case (Suc i)
  have j: "j < N" "Suc j < N" "Suc j + i < N" using Suc.prems(6) by simp_all
  obtain u where u: "host_takes prog n pos s =
      Option.bind (check_for_transfer_completion (run prog n) Msc_in u) (\<lambda>t. Some (packet img j, t))"
    "reading img lba N (Suc j) u" "host_sees (next_pos pos) u" "kept u = kept s"
    using take_reading [OF Suc.prems(1-5) j(1) Suc.prems(7)] by blast
  have step: "host_takes prog n pos s = Some (packet img j, u)"
    using u(1) reading_continues [OF u(2) j(2) Suc.prems(4)] by simp
  have "serves prog img lba M u" using serves_kept [OF u(4)] Suc.prems(3) by blast
  from Suc.IH [OF u(2,3) this Suc.prems(4,5) j(3) Suc.prems(7)] obtain t where t:
    "host_reads prog n i (next_pos pos) u = Some (map (packet img) [Suc j ..< Suc j + i], (next_pos ^^ i) (next_pos pos), t)"
    "reading img lba N (Suc j + i) t" "host_sees ((next_pos ^^ i) (next_pos pos)) t" "kept t = kept u" by blast
  have "map (packet img) [j ..< j + Suc i] = packet img j # map (packet img) [Suc j ..< Suc j + i]"
    by (subst upt_conv_Cons) simp_all
  then show ?case using t step u(4) by (simp add: funpow_swap1)
qed simp

subsection \<open>The status phase\<close>

text \<open>The status is in a buffer and nothing else.\<close>

definition status_given :: "bytes \<Rightarrow> 'a usb_msc_state_scheme \<Rightarrow> bool" where
  "status_given bs s \<longleftrightarrow>
     (let ep = endpoints s Msc_in; tr = transfers s Msc_cmd_response_transfer in
      in_ep_ok ep \<and> \<not> buf_valid (current_hw_buffer ep) \<and> current_transfer ep = Some Msc_cmd_response_transfer \<and>
      in_flight_packets [bs] s \<and> tr_on_complete tr = Some Tf_wait_command \<and> packets_to_submit tr = 0 \<and>
      packets_to_handle tr = 1 \<and> \<not> outstanding_packet tr \<and> \<not> packet_queued tr \<and> \<not> completed tr \<and>
      length (dpram s) = 4096)"

definition idle_in :: "'a usb_msc_state_scheme \<Rightarrow> bool" where
  "idle_in s \<longleftrightarrow>
     in_ep_ok (endpoints s Msc_in) \<and> \<not> buf_valid (current_hw_buffer (endpoints s Msc_in)) \<and> in_flight_packets [] s \<and>
     length (dpram s) = 4096"

lemma length_csw_bytes: "length (csw_bytes c) = 13"
  by (simp add: csw_bytes_def le32_def)

definition responding :: "bytes \<Rightarrow> 'a usb_state_scheme \<Rightarrow> 'a usb_state_scheme" where
  "responding bs s =
     (let ep = endpoints s Msc_in; slot = slot_at ep (current_give_buffer ep) in
      s\<lparr>endpoints := (endpoints s)(Msc_in := ep\<lparr>current_hw_buffer :=
           \<lparr>buf_data = slot, buf_data_len = of_nat (length bs), buf_data_max = ucast (buffer_size ep), buf_valid = True\<rparr>\<rparr>),
        dpram := patched slot bs (dpram s)\<rparr>)"

lemma patched_twice:
  assumes "length as = length bs" "off + length bs \<le> length d"
  shows "patched off bs (patched off as d) = patched off bs d"
  using assms by (simp add: patched_def)

lemma respond_in:
  assumes "idle_in s" "length bs \<le> 64"
  shows "respond Msc_in bs s = Some (responding bs s)"
proof -
  let ?slot = "slot_at (endpoints s Msc_in) (current_give_buffer (endpoints s Msc_in))"
  define E where "E = (endpoints s Msc_in)\<lparr>current_hw_buffer :=
     \<lparr>buf_data = ?slot, buf_data_len = 0, buf_data_max = ucast (buffer_size (endpoints s Msc_in)), buf_valid = True\<rparr>\<rparr>"
  have slot: "?slot + length bs \<le> length (dpram s)"
    using assms by (auto simp: idle_in_def in_ep_ok_def slot_at_def usb_endpoint_stride_def)
  have cur: "usb_current_packet_buffer Msc_in s = s\<lparr>endpoints := (endpoints s)(Msc_in := E)\<rparr>"
    using assms(1) by (simp add: usb_current_packet_buffer_def upd_ep_def Let_def E_def slot_at_def idle_in_def in_ep_ok_def)
  have one: "usb_get_single_packet_response_buffer Msc_in (length bs) s =
      Some (set_buffer_len Msc_in (of_nat (length bs)) (s\<lparr>endpoints := (endpoints s)(Msc_in := E), dpram := patched ?slot (replicate (length bs) 0) (dpram s)\<rparr>))"
    using slot by (simp add: usb_get_single_packet_response_buffer_def cur dpram_store_def store_list_patched current_buffer_def E_def)
  show ?thesis
    using slot
    by (simp add: respond_def one dpram_store_def store_list_patched current_buffer_def set_buffer_len_def upd_ep_def length_patched
        E_def patched_twice responding_def Let_def comp_def)
qed

text \<open>The transfer of one packet that is in the buffer already.\<close>

definition single_packet :: "trid \<Rightarrow> completed_func \<Rightarrow> 'a usb_state_scheme \<Rightarrow> 'a usb_state_scheme" where
  "single_packet k f s =
     upd_tr k (\<lambda>_. \<lparr>tr_type = Some Current_packet_only, tr_on_complete = Some f, packets_to_submit = 1, packets_to_handle = 1,
                    outstanding_packet = True, packet_queued = False, started = True, completed = False\<rparr>)
       (upd_ep Msc_in (\<lambda>ep. ep\<lparr>current_transfer := Some k, chain_transfer := None\<rparr>) s)"

lemma start_single_packet:
  assumes "in_ep_ok (endpoints s Msc_in)" "owned_buffer_count (endpoints s Msc_in) = 2"
    and "usb_packet_done (run prog m) Msc_in (single_packet k f s) = Some t"
    and "owned_buffer_count (endpoints t Msc_in) = 1" "\<not> may_give_buffer Msc_in t"
  shows "usb_reset_and_start_transfer (run prog (Suc m)) Msc_in k Current_packet_only (Some f) s = Some t"
proof -
  let ?v = "upd_tr k (\<lambda>_. \<lparr>tr_type = Some Current_packet_only, tr_on_complete = Some f, packets_to_submit = 1, packets_to_handle = 1,
                    outstanding_packet = False, packet_queued = False, started = True, completed = False\<rparr>)
       (upd_ep Msc_in (\<lambda>ep. ep\<lparr>current_transfer := Some k, chain_transfer := None\<rparr>) s)"
  have v: "may_give_buffer Msc_in ?v" "ep_in (endpoints ?v Msc_in)" "owned_buffer_count (endpoints ?v Msc_in) = 2"
    "current_transfer (endpoints ?v Msc_in) = Some k"
    using assms(1,2) by (simp_all add: may_give_buffer_def upd_tr_def upd_ep_def in_ep_ok_def)
  have mark: "upd_tr k (outstanding_packet_update (\<lambda>_. True)) ?v = single_packet k f s"
    by (simp add: single_packet_def upd_tr_def)
  have "tr_type (transfers (single_packet k f s) k) = Some Current_packet_only"
    by (simp add: single_packet_def upd_tr_def)
  then have "usb_call_on_packet (run prog (Suc m)) Msc_in ?v = Some t"
    unfolding usb_call_on_packet_def v(4) Option.bind.bind_lunit Let_def mark
    using assms(3) by (simp add: call_void_def invoke_def void_def usb_transfer_current_packet_only_def)
  then have "give_as_many (run prog (Suc m)) Msc_in ?v = give_as_many (run prog (Suc m)) Msc_in t"
    using v assms(4) by (simp add: give_as_many.simps [of _ _ ?v])
  moreover have "usb_reset_and_start_transfer (run prog (Suc m)) Msc_in k Current_packet_only (Some f) s =
      give_as_many (run prog (Suc m)) Msc_in ?v"
    by (simp add: usb_reset_and_start_transfer_def usb_start_transfer_def usb_reset_transfer_def upd_tr_def upd_ep_def Let_def
        del: run.simps)
  ultimately show ?thesis using assms(5) by (simp add: give_as_many.simps [of _ _ t])
qed

lemma csw_given:
  assumes "idle_in s"
  shows "\<exists>t. msc_send_csw (run prog (Suc m)) s = Some t \<and> status_given (csw_bytes (csw (msc s))) t \<and> background t = background s \<and>
    device t = device s \<and> (\<forall>e. e \<noteq> Msc_in \<longrightarrow> endpoints t e = endpoints s e)"
proof -
  define s1 where "s1 = upd_msc (send_csw_on_unstall_update (\<lambda>_. False)) s"
  define bs where "bs = csw_bytes (csw (msc s))"
  let ?k = Msc_cmd_response_transfer
  let ?r = "responding bs s1"
  let ?v = "single_packet ?k Tf_wait_command ?r"
  have len: "length bs = 13" by (simp add: bs_def length_csw_bytes)
  note idle = assms [unfolded idle_in_def]
  have s1: "endpoints s1 = endpoints s" "buf_ctrls s1 = buf_ctrls s" "dpram s1 = dpram s" "csw (msc s1) = csw (msc s)"
    by (simp_all add: s1_def upd_msc_def)
  have "idle_in s1"
    using idle s1 in_flight_cong [of "[]" s s1] by (simp add: idle_in_def same_in_ep_def)
  then have resp: "respond Msc_in bs s1 = Some ?r" by (rule respond_in) (simp add: len)
  have slot: "slot_at (endpoints s Msc_in) (current_give_buffer (endpoints s Msc_in)) + 13 \<le> 4096"
    using idle by (auto simp: in_ep_ok_def slot_at_def usb_endpoint_stride_def)
  have v: "endpoints ?v Msc_in = (endpoints s Msc_in)\<lparr>current_hw_buffer := \<lparr>buf_data =
        slot_at (endpoints s Msc_in) (current_give_buffer (endpoints s Msc_in)), buf_data_len = 13,
        buf_data_max = ucast (buffer_size (endpoints s Msc_in)), buf_valid = True\<rparr>, current_transfer := Some ?k, chain_transfer := None\<rparr>"
    "buf_ctrls ?v = buf_ctrls s" "dpram ?v = patched (slot_at (endpoints s Msc_in) (current_give_buffer (endpoints s Msc_in))) bs (dpram s)"
    by (simp_all add: single_packet_def upd_tr_def upd_ep_def responding_def Let_def s1 len)
  have "in_flight_packets [] ?v" "in_ep_ok (endpoints ?v Msc_in)" "filled (length bs) (endpoints ?v Msc_in)"
    "current_transfer (endpoints ?v Msc_in) = Some ?k" "packets_to_handle (transfers ?v ?k) \<noteq> 0"
    "\<not> completed (transfers ?v ?k)" "\<not> packet_queued (transfers ?v ?k)"
    using idle by (simp_all add: v in_flight_packets_def in_ep_ok_def filled_def len slot_at_def Let_def)
      (simp_all add: single_packet_def upd_tr_def)
  moreover have "take (length bs) (drop (slot_at (endpoints ?v Msc_in) (current_give_buffer (endpoints ?v Msc_in))) (dpram ?v)) = bs"
    using patched_read [of "slot_at (endpoints s Msc_in) (current_give_buffer (endpoints s Msc_in))" bs "dpram s"] slot idle
    by (simp add: v len slot_at_def)
  ultimately obtain E B where step: "usb_packet_done (run prog m) Msc_in ?v = give_as_many (run prog m) Msc_in (after_give E B ?k ?v)"
    and E: "in_ep_ok E" "current_transfer E = Some ?k" "\<not> buf_valid (current_hw_buffer E)"
      "dpram_buffer_offset E = dpram_buffer_offset (endpoints ?v Msc_in)" "oldest E = oldest (endpoints ?v Msc_in)"
    and sent: "in_flight_packets [bs] (after_give E B ?k ?v)"
    using packet_done_in [of ?v ?k "[]" bs "run prog m"] by (metis append_Nil list.size(3) zero_less_numeral)
  let ?t = "after_give E B ?k ?v"
  have t: "endpoints ?t Msc_in = E" "transfers ?t ?k = (transfers ?v ?k)\<lparr>outstanding_packet := False, packets_to_submit := 0\<rparr>"
    by (simp_all add: after_give_def single_packet_def upd_tr_def)
  have count: "owned_buffer_count E = 1" using sent t(1) by (simp add: in_flight_packets_def Let_def)
  have no: "\<not> may_give_buffer Msc_in ?t" using E(2) by (simp add: may_give_buffer_def t)
  have done': "usb_packet_done (run prog m) Msc_in ?v = Some ?t"
    using no step by (simp add: give_as_many.simps [of _ _ ?t])
  have r: "in_ep_ok (endpoints ?r Msc_in)" "owned_buffer_count (endpoints ?r Msc_in) = 2"
    using idle by (simp_all add: responding_def s1 in_ep_ok_def in_flight_packets_def Let_def)
  have "msc_send_csw (run prog (Suc m)) s = Some ?t"
    using start_single_packet [OF r done' _ no] count
    by (simp add: msc_send_csw_def s1_def [symmetric] bs_def [symmetric] s1 resp t(1) msc_reset_and_start_cmd_response_transfer_def
        del: run.simps)
  moreover have "length (dpram ?t) = 4096"
    using length_patched [of _ bs "dpram s"] slot len idle by (simp add: after_give_def v)
  then have "status_given bs ?t"
    using E(1-3) sent by (simp add: status_given_def t) (simp add: single_packet_def upd_tr_def)
  moreover have "background ?t = background s" "device ?t = device s" "\<forall>e. e \<noteq> Msc_in \<longrightarrow> endpoints ?t e = endpoints s e"
    using E(4,5) by (simp_all add: v oldest_def background_def kept_def after_give_def single_packet_def responding_def upd_tr_def
        upd_ep_def s1_def upd_msc_def Let_def)
  ultimately show ?thesis unfolding bs_def by blast
qed

definition passed :: "u32 \<Rightarrow> bytes" where
  "passed tag = csw_bytes \<lparr>csw_sig = CSW_SIG, csw_tag = tag, residue = 0, csw_status = CSW_STATUS_COMMAND_PASSED\<rparr>"

lemma data_phase_ends:
  assumes "reading img lba N N s" "csw_tag (csw (msc s)) = tag"
  shows "\<exists>t. check_for_transfer_completion (run prog (Suc (Suc m))) Msc_in s = Some t \<and> status_given (passed tag) t \<and>
    background t = background s"
proof -
  note st = assms(1) [unfolded reading_def streaming_def Let_def, simplified]
  let ?s = "upd_ep Msc_in (current_transfer_update (\<lambda>_. None)) (upd_tr Msc_sector_transfer (completed_update (\<lambda>_. True)) s)"
  have s: "endpoints ?s Msc_in = (endpoints s Msc_in)\<lparr>current_transfer := None\<rparr>" "buf_ctrls ?s = buf_ctrls s" "dpram ?s = dpram s"
    "msc ?s = msc s"
    by (simp_all add: upd_ep_def upd_tr_def)
  have idle: "idle_in ?s"
    using st in_flight_cong [of "[]" s ?s] by (simp add: idle_in_def s same_in_ep_def in_ep_ok_def)
  obtain t where t: "msc_send_csw (run prog (Suc m)) ?s = Some t" "status_given (csw_bytes (csw (msc ?s))) t" "background t = background ?s"
    using csw_given [OF idle] by blast
  have "csw (msc s) = \<lparr>csw_sig = CSW_SIG, csw_tag = tag, residue = 0, csw_status = CSW_STATUS_COMMAND_PASSED\<rparr>"
    using st assms(2) by (cases "csw (msc s)") simp
  then have "status_given (passed tag) t" using t(2) by (simp add: s passed_def)
  moreover have "background ?s = background s" by (simp add: background_def kept_def s oldest_def) (simp add: upd_ep_def upd_tr_def)
  moreover have "check_for_transfer_completion (run prog (Suc (Suc m))) Msc_in s =
      call_void (run prog (Suc (Suc m))) (On_complete Tf_data_phase_complete Msc_in Msc_sector_transfer) ?s"
    using st by (simp add: check_for_transfer_completion_def in_ep_ok_def Let_def upd_tr_def del: run.simps)
  then have "check_for_transfer_completion (run prog (Suc (Suc m))) Msc_in s = Some t"
    using st t(1) by (simp add: call_void_def invoke_def void_def msc_data_phase_complete_def s)
  ultimately show ?thesis using t(3) by metis
qed

lemma host_reads_Suc_end:
  "host_reads prog n (Suc i) p w = Option.bind (host_reads prog n i p w) (\<lambda>(bss, p, w).
     Option.bind (host_takes prog n p w) (\<lambda>(bs, w). Some (bss @ [bs], next_pos p, w)))"
proof (induction i arbitrary: p w)
  case 0
  show ?case by (cases "host_takes prog n p w") auto
next
  case (Suc i)
  note unfold = host_reads.simps(2) [of prog n "Suc i"] host_reads.simps(2) [of prog n i p]
  show ?case
  proof (cases "host_takes prog n p w")
    case (Some r)
    then show ?thesis unfolding unfold
      by (cases r) (auto simp: Suc.IH bind_assoc split_beta simp del: host_reads.simps intro!: Option.bind_cong)
  qed (simp add: unfold del: host_reads.simps)
qed

lemma host_reads_all:
  assumes "reading img lba N 0 s" "host_sees pos s" "serves prog img lba M s" "size_ok N" "N = 8 * M" "0 < M" "4 \<le> n"
    and "csw_tag (csw (msc s)) = tag"
  shows "\<exists>t. host_reads prog n N pos s = Some (map (packet img) [0 ..< N], (next_pos ^^ N) pos, t) \<and>
    status_given (passed tag) t \<and> host_sees ((next_pos ^^ N) pos) t \<and> kept t = kept s"
proof -
  obtain j where N: "N = Suc j" using assms(5,6) by (intro that [of "N - 1"]) simp
  obtain u where u: "host_reads prog n j pos s = Some (map (packet img) [0 ..< 0 + j], (next_pos ^^ j) pos, u)"
    "reading img lba N (0 + j) u" "host_sees ((next_pos ^^ j) pos) u" "kept u = kept s"
    using host_reads_packets [OF assms(1-5) _ assms(7), of j] N by auto
  have "serves prog img lba M u" "j < N" "reading img lba N j u" using serves_kept [OF u(4)] assms(3) N u(2) by simp_all
  from take_reading [OF this(3) u(3) this(1) assms(4,5) this(2) assms(7)] obtain v where v:
    "host_takes prog n ((next_pos ^^ j) pos) u =
      Option.bind (check_for_transfer_completion (run prog n) Msc_in v) (\<lambda>t. Some (packet img j, t))"
    "reading img lba N N v" "host_sees (next_pos ((next_pos ^^ j) pos)) v" "kept v = kept u"
    unfolding N by blast
  have "csw_tag (csw (msc v)) = tag" using u(4) v(4) assms(8) unfolding kept_def by simp
  moreover obtain m where n: "n = Suc (Suc m)" using assms(7) by (intro that [of "n - 2"]) auto
  ultimately obtain t where t: "check_for_transfer_completion (run prog n) Msc_in v = Some t" "status_given (passed tag) t"
    "background t = background v"
    using data_phase_ends [OF v(2)] unfolding n by blast
  have "host_reads prog n N pos s = Some (map (packet img) [0 ..< N], (next_pos ^^ N) pos, t)"
    using u(1) v(1) t(1) unfolding N host_reads_Suc_end by simp
  moreover have "host_sees ((next_pos ^^ N) pos) t" "kept t = kept s"
    using host_sees_background [OF t(3)] v(3,4) u(4) t(3) by (simp_all add: N background_def)
  ultimately show ?thesis using t(2) by blast
qed

end
