(* ===== verification/Usb_Read.thy ===== *)
theory Usb_Read
  imports Data_Phase
begin

text \<open>
  A read of sectors on the wire: the host sends a command block with READ(10) to the OUT endpoint, takes the
  packets of the data phase and the status, and the device waits for the next command.
\<close>

subsection \<open>Waiting for a command\<close>

definition out_ep_ok :: "usb_endpoint \<Rightarrow> bool" where
  "out_ep_ok ep \<longleftrightarrow>
     \<not> ep_in ep \<and> double_buffered ep \<and> ep_num ep = 2 \<and> buffer_size ep = 64 \<and> halt_state ep = HS_NONE \<and>
     unat (dpram_buffer_offset ep) + 128 \<le> 4096 \<and> (current_give_buffer ep = 0 \<or> current_give_buffer ep = 1) \<and>
     (next_pid ep = 0 \<or> next_pid ep = 1) \<and> default_transfer ep = Some Msc_cmd_transfer \<and> chain_transfer ep = None \<and>
     \<not> buf_valid (current_hw_buffer ep)"

text \<open>No buffer is open for a command; or one is.\<close>

definition closed_out :: "'a usb_state_scheme \<Rightarrow> bool" where
  "closed_out s \<longleftrightarrow>
     (let ep = endpoints s Msc_out in
      out_ep_ok ep \<and> current_transfer ep = None \<and> owned_buffer_count ep = 2 \<and>
      tr_type (transfers s Msc_cmd_transfer) = Some Msc_cmd_type)"

definition listening :: "'a usb_state_scheme \<Rightarrow> bool" where
  "listening s \<longleftrightarrow>
     (let ep = endpoints s Msc_out; tr = transfers s Msc_cmd_transfer;
          c = (if fst (oldest ep) = 0 then fst else snd) (buf_ctrls s (2, False)) in
      out_ep_ok ep \<and> current_transfer ep = Some Msc_cmd_transfer \<and> owned_buffer_count ep = 1 \<and>
      tr_type tr = Some Msc_cmd_type \<and> tr_on_complete tr = None \<and> packets_to_submit tr = 0 \<and> packets_to_handle tr = 1 \<and>
      \<not> outstanding_packet tr \<and> \<not> packet_queued tr \<and> \<not> completed tr \<and>
      bc_avail c \<and> \<not> bc_full c \<and> \<not> bc_stall c \<and> bc_data1 c = snd (oldest ep))"

definition open_buffer :: "usb_endpoint \<Rightarrow> buf_ctrl \<times> buf_ctrl \<Rightarrow> buf_ctrl \<times> buf_ctrl" where
  "open_buffer ep w =
     (let val = \<lparr>bc_avail = True, bc_full = False, bc_data1 = (next_pid ep \<noteq> 0), bc_sel = first_buffer_after_reset ep,
                 bc_stall = False, bc_len = 64\<rparr>
      in if current_give_buffer ep = 0 then (val, snd w) else (fst w, val))"

definition opened :: "usb_endpoint \<Rightarrow> usb_endpoint" where
  "opened ep = ep\<lparr>halt_state := HS_NONE, first_buffer_after_reset := False, next_pid := next_pid ep XOR 1,
      current_hw_buffer := (current_hw_buffer ep)\<lparr>buf_valid := False\<rparr>, owned_buffer_count := owned_buffer_count ep - 1,
      current_give_buffer := current_give_buffer ep XOR 1\<rparr>"

lemma usb_give_buffer_out:
  assumes "\<not> ep_in (endpoints s e)" "double_buffered (endpoints s e)" "current_transfer (endpoints s e) = Some k"
  shows "usb_give_buffer e 64 s =
    Some (s\<lparr>endpoints := (endpoints s)(e := opened (endpoints s e)),
            transfers := (transfers s)(k := packets_to_submit_update (\<lambda>n. n - 1) (transfers s k)),
            buf_ctrls := (buf_ctrls s)((ep_num (endpoints s e), False) :=
              open_buffer (endpoints s e) (buf_ctrls s (ep_num (endpoints s e), False)))\<rparr>)"
proof -
  obtain ep where ep: "endpoints s e = ep" by simp
  show ?thesis
    using assms by (cases ep) (auto simp: usb_give_buffer_def set_buf_ctrl_narrow_def buf_ctrl_wide_def set_buf_ctrl_wide_def
        upd_tr_def upd_ep_def ep open_buffer_def opened_def Let_def)
qed

text \<open>An OUT endpoint opens one buffer for its default transfer.\<close>

definition waiting_transfer :: "transfer_type \<Rightarrow> usb_transfer" where
  "waiting_transfer ty = \<lparr>tr_type = Some ty, tr_on_complete = None, packets_to_submit = 0, packets_to_handle = 1,
      outstanding_packet = False, packet_queued = False, started = True, completed = False\<rparr>"

definition default_started :: "epid \<Rightarrow> trid \<Rightarrow> transfer_type \<Rightarrow> 'a usb_state_scheme \<Rightarrow> 'a usb_state_scheme" where
  "default_started e k ty s =
     (let ep = (endpoints s e)\<lparr>current_transfer := Some k, chain_transfer := None\<rparr>
      in s\<lparr>endpoints := (endpoints s)(e := opened ep), transfers := (transfers s)(k := waiting_transfer ty),
           buf_ctrls := (buf_ctrls s)((ep_num ep, False) := open_buffer ep (buf_ctrls s (ep_num ep, False)))\<rparr>)"

lemma start_default_out:
  assumes "\<not> ep_in (endpoints s e)" "double_buffered (endpoints s e)" "buffer_size (endpoints s e) = 64"
    and "halt_state (endpoints s e) = HS_NONE" "owned_buffer_count (endpoints s e) = 2"
    and "default_transfer (endpoints s e) = Some k" "tr_type (transfers s k) = Some ty" "initial_packet_count ty = 1"
  shows "start_default_transfer cb e s = Some (default_started e k ty s)"
proof -
  obtain ep where ep: "endpoints s e = ep" by simp
  define ep1 where "ep1 = ep\<lparr>current_transfer := Some k, chain_transfer := None\<rparr>"
  let ?t = "default_started e k ty s"
  define v where "v = s\<lparr>endpoints := (endpoints s)(e := ep1),
      transfers := (transfers s)(k := (waiting_transfer ty)\<lparr>packets_to_submit := 1\<rparr>)\<rparr>"
  have v: "endpoints v e = ep1" "transfers v k = (waiting_transfer ty)\<lparr>packets_to_submit := 1\<rparr>" "buf_ctrls v = buf_ctrls s"
    by (simp_all add: v_def)
  have ep1: "\<not> ep_in ep1" "double_buffered ep1" "current_transfer ep1 = Some k"
    "buffer_size ep1 = 64" "halt_state ep1 = HS_NONE" "owned_buffer_count ep1 = 2"
    using assms by (simp_all add: ep1_def ep)
  have "start_default_transfer cb e s = give_as_many cb e v"
    using assms by (simp add: start_default_transfer_def usb_reset_and_start_transfer_def usb_start_transfer_def usb_reset_transfer_def
        upd_tr_def upd_ep_def ep waiting_transfer_def v_def ep1_def Let_def)
  moreover have "may_give_buffer e v" using ep1 by (simp add: may_give_buffer_def v)
  moreover have "usb_give_buffer e 64 v = Some ?t"
    using usb_give_buffer_out [of v e k] ep1 by (simp add: v)
      (simp add: v_def waiting_transfer_def default_started_def ep ep1_def Let_def)
  moreover have "\<not> may_give_buffer e ?t"
    by (simp add: may_give_buffer_def default_started_def waiting_transfer_def opened_def Let_def)
  ultimately show ?thesis
    by (simp add: give_as_many.simps [of _ _ v] give_as_many.simps [of _ _ ?t] v ep1)
qed

lemma start_listening:
  assumes "closed_out s"
  shows "\<exists>E T B. start_default_transfer cb Msc_out s =
      Some (s\<lparr>endpoints := (endpoints s)(Msc_out := E), transfers := (transfers s)(Msc_cmd_transfer := T),
              buf_ctrls := (buf_ctrls s)((2, False) := B)\<rparr>) \<and>
    listening (s\<lparr>endpoints := (endpoints s)(Msc_out := E), transfers := (transfers s)(Msc_cmd_transfer := T),
              buf_ctrls := (buf_ctrls s)((2, False) := B)\<rparr>) \<and>
    oldest E = oldest (endpoints s Msc_out) \<and> dpram_buffer_offset E = dpram_buffer_offset (endpoints s Msc_out)"
proof -
  obtain ep where ep: "endpoints s Msc_out = ep" by simp
  define ep1 where "ep1 = ep\<lparr>current_transfer := Some Msc_cmd_transfer, chain_transfer := None\<rparr>"
  define E where "E = opened ep1"
  define B where "B = open_buffer ep1 (buf_ctrls s (2, False))"
  let ?t = "s\<lparr>endpoints := (endpoints s)(Msc_out := E), transfers := (transfers s)(Msc_cmd_transfer := waiting_transfer Msc_cmd_type),
              buf_ctrls := (buf_ctrls s)((2, False) := B)\<rparr>"
  note out = assms [unfolded closed_out_def ep Let_def out_ep_ok_def]
  have "start_default_transfer cb Msc_out s = Some ?t"
    using start_default_out [of s Msc_out Msc_cmd_transfer Msc_cmd_type cb] out
    by (simp add: ep default_started_def E_def B_def ep1_def Let_def)
  moreover have "oldest E = oldest ep" "dpram_buffer_offset E = dpram_buffer_offset ep"
    using out by (auto simp: oldest_def E_def opened_def ep1_def)
  moreover have "listening ?t"
    using out by (auto simp: listening_def Let_def oldest_def out_ep_ok_def E_def waiting_transfer_def B_def opened_def ep1_def
        open_buffer_def)
  ultimately show ?thesis unfolding ep by blast
qed

definition out_registers :: "'a usb_state_scheme \<Rightarrow> bool" where
  "out_registers s \<longleftrightarrow>
     map_option ec_offset (ep_ctrls s (2, False)) = Some (dpram_buffer_offset (endpoints s Msc_out)) \<and>
     2 < length (endpoint_array s) \<and> endpoint_array s ! 2 = Some Msc_out"

text \<open>What a whole command leaves alone.\<close>

definition surroundings :: "'a usb_msc_state_scheme \<Rightarrow> _" where
  "surroundings s = (ep_ctrls s, endpoint_array s, mem s, timerawl s, serial_number_string s,
     length (sector_buf s), volume_serial (timerawl s) (boot_device s))"

lemma kept_surroundings: "kept t = kept s \<Longrightarrow> surroundings t = surroundings s"
  unfolding kept_def surroundings_def prod.inject by blast

text \<open>The device waits for a command; the host's next positions are \<open>pos\<close> (IN) and \<open>opos\<close> (OUT).\<close>

definition ready :: "u8 \<times> bool \<Rightarrow> u8 \<times> bool \<Rightarrow> 'a usb_msc_state_scheme \<Rightarrow> bool" where
  "ready pos opos s \<longleftrightarrow>
     idle_in s \<and> host_sees pos s \<and> listening s \<and> oldest (endpoints s Msc_out) = opos \<and> out_registers s"

lemma status_taken:
  assumes st: "status_given bs s" and "host_sees pos s" "closed_out s" "out_registers s"
  shows "\<exists>t. host_takes prog (Suc (Suc m)) pos s = Some (bs, t) \<and>
    ready (next_pos pos) (oldest (endpoints s Msc_out)) t \<and> surroundings t = surroundings s"
proof -
  let ?R = Msc_cmd_response_transfer and ?n = "Suc (Suc m)"
  note st = st [unfolded status_given_def Let_def]
  obtain h w where take: "host_takes prog ?n pos s =
      Option.bind (handle_rest (run prog ?n) ?R (after_take (fst pos) h w s)) (\<lambda>t. Some (bs, t))"
    and hw: "quiet_hw h" "in_flight_packets [] (after_take (fst pos) h w s)"
      "in_ep_ok (endpoints (after_take (fst pos) h w s) Msc_in)"
      "oldest (endpoints (after_take (fst pos) h w s) Msc_in) = next_pos pos"
    using host_takes_step [of bs "[]" s pos ?R prog ?n] st assms(2) unfolding host_sees_def by blast
  define u where "u = after_take (fst pos) h w s"
  have u: "transfers u = transfers s" "endpoints u Msc_out = endpoints s Msc_out" "hw u = h" "dpram u = dpram s"
    "current_transfer (endpoints u Msc_in) = Some ?R" "current_hw_buffer (endpoints u Msc_in) = current_hw_buffer (endpoints s Msc_in)"
    "dpram_buffer_offset (endpoints u Msc_in) = dpram_buffer_offset (endpoints s Msc_in)"
    "surroundings u = surroundings s"
    using st by (simp_all add: u_def after_take_def upd_ep_def surroundings_def)
  define v where "v = upd_ep Msc_in (current_transfer_update (\<lambda>_. None)) (upd_tr ?R (completed_update (\<lambda>_. True))
      (upd_tr ?R (packets_to_handle_update (\<lambda>n. n - 1)) u))"
  have "surroundings v = surroundings u" by (simp add: v_def upd_ep_def upd_tr_def surroundings_def)
  then have v: "endpoints v Msc_out = endpoints s Msc_out" "endpoints v Msc_in = (endpoints u Msc_in)\<lparr>current_transfer := None\<rparr>"
    "transfers v Msc_cmd_transfer = transfers s Msc_cmd_transfer" "hw v = h" "dpram v = dpram s" "buf_ctrls v = buf_ctrls u"
    "surroundings v = surroundings s"
    using u by (simp_all add: v_def upd_ep_def upd_tr_def)
  have "handle_rest (run prog ?n) ?R u = call_void (run prog ?n) (On_complete Tf_wait_command Msc_in ?R) v"
    using st hw(3) [folded u_def] by (simp add: handle_rest_def u check_for_transfer_completion_def Let_def v_def in_ep_ok_def upd_tr_def u(1)
        del: run.simps)
  also have "\<dots> = start_default_transfer (run prog (Suc m)) Msc_out v"
    using assms(3) by (simp add: call_void_def invoke_def void_def tf_wait_command_def closed_out_def Let_def out_ep_ok_def v
        usb_start_default_transfer_if_not_already_running_or_halted_def option.map_comp comp_def option.map_ident)
  finally have rest: "handle_rest (run prog ?n) ?R u = start_default_transfer (run prog (Suc m)) Msc_out v" .
  have "closed_out v" using assms(3) by (simp add: closed_out_def v)
  from start_listening [OF this, of "run prog (Suc m)"] obtain E T B t where t_eq:
    "t = v\<lparr>endpoints := (endpoints v)(Msc_out := E), transfers := (transfers v)(Msc_cmd_transfer := T),
        buf_ctrls := (buf_ctrls v)((2, False) := B)\<rparr>"
    and t: "start_default_transfer (run prog (Suc m)) Msc_out v = Some t" "listening t"
      "oldest E = oldest (endpoints v Msc_out)" "dpram_buffer_offset E = dpram_buffer_offset (endpoints v Msc_out)"
    by blast
  have t_in: "endpoints t Msc_in = (endpoints u Msc_in)\<lparr>current_transfer := None\<rparr>" "buf_ctrls t (1, True) = buf_ctrls u (1, True)"
    "dpram t = dpram s" "hw t = h" "surroundings t = surroundings v"
    using v(2,4-6) by (simp_all add: t_eq surroundings_def)
  have "in_flight_packets [] t"
    using hw(2) [folded u_def] t_in by (simp add: in_flight_packets_def Let_def)
  then have "idle_in t" using st hw(3) [folded u_def] by (simp add: idle_in_def t_in u in_ep_ok_def)
  moreover have "host_sees (next_pos pos) t"
    using assms(2) hw(1,4) [folded u_def] v(7) u(7) t_in(5) by (auto simp: host_sees_def ep_registers_def t_in(1-4) oldest_def surroundings_def)
  moreover have "out_registers t" "oldest (endpoints t Msc_out) = oldest (endpoints s Msc_out)"
    using assms(4) t(3,4) v(1,7) t_in(5) by (auto simp: t_eq out_registers_def surroundings_def)
  ultimately have "ready (next_pos pos) (oldest (endpoints s Msc_out)) t" using t(2) by (simp add: ready_def)
  then show ?thesis using take rest t(1) t_in(5) v(7) by (simp add: u_def [symmetric] del: run.simps)
qed

subsection \<open>The command\<close>

text \<open>The host sends a packet into buffer \<open>sel\<close> of the OUT endpoint 2.\<close>

definition send_packet :: "u8 \<Rightarrow> bool \<Rightarrow> bytes \<Rightarrow> 'a usb_state_scheme \<Rightarrow> 'a usb_state_scheme option" where
  "send_packet sel toggle bs s =
     (case ep_ctrls s (2, False) of
        None \<Rightarrow> None
      | Some ec \<Rightarrow>
          let w = buf_ctrls s (2, False); c = (if sel = 0 then fst w else snd w);
              c' = c\<lparr>bc_avail := False, bc_full := True, bc_len := of_nat (length bs)\<rparr>
          in if bc_avail c \<and> \<not> bc_full c \<and> \<not> bc_stall c \<and> bc_data1 c = toggle then
               Some (s\<lparr>buf_ctrls := (buf_ctrls s)((2, False) := if sel = 0 then (c', snd w) else (fst w, c')),
                    hw := (hw s)\<lparr>buf_status := buf_status (hw s) OR 32, ints_buff_status := True,
                      buf_cpu_should_handle := (if sel \<noteq> 0 then buf_cpu_should_handle (hw s) OR 32
                                                else buf_cpu_should_handle (hw s) AND NOT 32)\<rparr>,
                    dpram := patched (unat (ec_offset ec) + (if sel \<noteq> 0 then 64 else 0)) bs (dpram s)\<rparr>)
             else None)"

definition host_sends :: "program \<Rightarrow> nat \<Rightarrow> u8 \<times> bool \<Rightarrow> bytes \<Rightarrow> 'a boot_state_scheme \<Rightarrow> 'a boot_state_scheme option" where
  "host_sends prog n pos bs s = do {
     s \<leftarrow> send_packet (fst pos) (snd pos) bs s;
     device_interrupt prog n s
   }"

text \<open>The command block wrapper of READ(10).\<close>

definition read10 :: "u32 \<Rightarrow> u32 \<Rightarrow> u16 \<Rightarrow> bytes" where
  "read10 tag lba blocks =
     le32 CBW_SIG @ le32 tag @ le32 (ucast blocks * 512) @ [0x80, 0, 10] @
     [READ_10, 0] @ be32 lba @ [0] @ rev (le16 blocks) @ replicate 7 0"

definition read10_cbw :: "u32 \<Rightarrow> u32 \<Rightarrow> u16 \<Rightarrow> scsi_cbw" where
  "read10_cbw tag lba blocks =
     \<lparr>cbw_sig = CBW_SIG, cbw_tag = tag, data_transfer_length = ucast blocks * 512, cbw_flags = 0x80, cbw_lun = 0,
      cb_length = 10, cbw_cb = [READ_10, 0] @ be32 lba @ [0] @ rev (le16 blocks) @ replicate 7 0\<rparr>"

lemma read10_parse: "parse_cbw (read10 tag lba blocks) = read10_cbw tag lba blocks" "length (read10 tag lba blocks) = 31"
  by (simp_all add: parse_cbw_def read10_def read10_cbw_def be32_def length_le32 length_le16 nth_append)

lemma read10_fields:
  "cbw_valid (read10_cbw tag lba blocks)" "cbw_cb (read10_cbw tag lba blocks) ! 0 = READ_10"
  "cb_lba (read10_cbw tag lba blocks) = lba" "cb_blocks (read10_cbw tag lba blocks) = blocks"
  "data_transfer_length (read10_cbw tag lba blocks) = ucast blocks * 512" "scsi_dir (read10_cbw tag lba blocks) = SCSI_DIR_IN"
  "cbw_tag (read10_cbw tag lba blocks) = tag"
  by (simp_all add: read10_cbw_def cbw_valid_def cb_lba_def cb_blocks_def scsi_dir_def be32_def USB_DIR_IN_def
      of_le32_le32 [of lba "[]", simplified] of_le16_le16 [of blocks "[]", simplified])

lemma sector_numbers:
  fixes B :: nat
  assumes "B < 65536"
  shows "(of_nat (512 * B) :: u32) div 64 = of_nat (8 * B)" "(of_nat (64 * (8 * B)) + 63 :: u32) div 64 = of_nat (8 * B)"
    and "0 < B \<Longrightarrow> (of_nat (512 * B) :: u32) \<noteq> 0" "0 < B \<Longrightarrow> (of_nat (8 * B) :: u32) \<noteq> 0"
proof -
  have u: "unat (of_nat (512 * B) :: u32) = 512 * B" "unat (of_nat (8 * B) :: u32) = 8 * B"
    using assms by (simp_all only: unat_of_nat) simp_all
  then show "(of_nat (512 * B) :: u32) div 64 = of_nat (8 * B)"
    by (simp only: word_unat_eq_iff unat_div) simp
  have "unat (of_nat (512 * B) + 63 :: u32) = 512 * B + 63"
    using unat_add_small [of "of_nat (512 * B)" 63] u(1) assms by simp
  then show "(of_nat (64 * (8 * B)) + 63 :: u32) div 64 = of_nat (8 * B)"
    using u(2) by (simp only: word_unat_eq_iff unat_div) simp
  show "0 < B \<Longrightarrow> (of_nat (512 * B) :: u32) \<noteq> 0" "0 < B \<Longrightarrow> (of_nat (8 * B) :: u32) \<noteq> 0"
    using u by (metis unat_0 mult_eq_0_iff less_irrefl zero_neq_numeral)+
qed

lemma ucast_blocks: "(ucast (blocks :: u16) :: u32) = of_nat (unat blocks)"
  by (simp add: word_unat_eq_iff unat_of_nat unsigned_ucast_eq)

text \<open>The stream before the first packet.\<close>

definition stream_ready :: "u32 \<Rightarrow> nat \<Rightarrow> 'a usb_msc_state_scheme \<Rightarrow> 'a usb_msc_state_scheme" where
  "stream_ready lba N s =
     s\<lparr>endpoints := (endpoints s)(Msc_in := (endpoints s Msc_in)\<lparr>current_transfer := Some Msc_sector_transfer, chain_transfer := None\<rparr>),
       transfers := (transfers s)(Msc_sector_transfer := \<lparr>tr_type = Some Usb_stream_type, tr_on_complete = Some Tf_data_phase_complete,
         packets_to_submit = of_nat N, packets_to_handle = of_nat N, outstanding_packet = False, packet_queued = False,
         started = True, completed = False\<rparr>),
       streams := (streams s)(Msc_sector_transfer := \<lparr>st_offset = 0, transfer_length = of_nat (64 * N), chunk_size = 512,
         chunk_buffer = SectorBuf 0, st_ep = Some Msc_in, st_funcs = Some Msc_sector_funcs\<rparr>),
       msc := (msc s)\<lparr>stall_direction_before_csw := SCSI_DIR_NONE, data_phase_length := of_nat (64 * N)\<rparr>,
       msc_async_token := msc_async_token s + 1, msc_lba := lba\<rparr>"

lemma read_command_starts:
  assumes "0 < unat blocks"
  shows "scsi_read_or_write_blocks cb (read10_cbw tag lba blocks) lba (ucast blocks) SCSI_DIR_IN s =
    give_as_many cb Msc_in (stream_ready lba (8 * unat blocks) s)"
proof -
  define B where "B = unat blocks"
  have B: "B < 65536" "0 < B" using unsigned_less [of blocks] assms by (simp_all add: B_def)
  have e: "(ucast blocks :: u32) * 512 = of_nat (512 * B)" by (simp only: ucast_blocks B_def of_nat_mult of_nat_numeral mult.commute)
  define s1 where "s1 = (upd_st Msc_sector_transfer (st_ep_update (\<lambda>_. Some Msc_in)) s)\<lparr>msc_lba := lba\<rparr>"
  define s2 where "s2 = upd_msc (\<lambda>m. m\<lparr>stall_direction_before_csw := SCSI_DIR_NONE, data_phase_length := of_nat (512 * B)\<rparr>) s1"
  have "di_or_do_decision (read10_cbw tag lba blocks) (of_nat (512 * B)) SCSI_DIR_IN s1 = s2"
    by (simp add: di_or_do_decision_def read10_fields e Let_def set_stall_direction_def upd_msc_def s2_def)
  moreover have "data_phase_length (msc s2) = of_nat (512 * B)" by (simp add: s2_def upd_msc_def)
  ultimately have init: "msc_init_for_di_or_do cb (read10_cbw tag lba blocks) (of_nat (512 * B)) SCSI_DIR_IN s1 = Some (True, s2)"
    using sector_numbers(3) [OF B] unfolding msc_init_for_di_or_do_def Let_def by simp
  have packets: "data_phase_length (msc s2) div 64 = of_nat (8 * B)" "data_phase_length (msc s2) div 64 \<noteq> 0"
    using sector_numbers(1,4) [OF B(1)] B(2) by (simp_all add: s2_def upd_msc_def)
  define s3 where "s3 = s2\<lparr>msc_async_token := msc_async_token s2 + 1\<rparr>"
  define s4 where "s4 = usb_stream_setup_transfer Msc_sector_transfer Msc_sector_funcs (SectorBuf 0) 512
      (of_nat (8 * B) * 64) (Some Tf_data_phase_complete) s3"
  have "scsi_read_or_write_blocks cb (read10_cbw tag lba blocks) lba (ucast blocks) SCSI_DIR_IN s =
      usb_start_transfer cb Msc_in Msc_sector_transfer s4"
    using init packets unfolding scsi_read_or_write_blocks_def Let_def
    by (simp add: e SECTOR_SIZE_def s1_def [symmetric] s3_def [symmetric] s4_def [symmetric] del: of_nat_mult)
  also have "\<dots> = give_as_many cb Msc_in (upd_tr Msc_sector_transfer (started_update (\<lambda>_. True))
      (upd_ep Msc_in (\<lambda>ep. ep\<lparr>current_transfer := Some Msc_sector_transfer, chain_transfer := None\<rparr>) s4))"
    by (simp add: usb_start_transfer_def Let_def)
  also have "upd_tr Msc_sector_transfer (started_update (\<lambda>_. True))
      (upd_ep Msc_in (\<lambda>ep. ep\<lparr>current_transfer := Some Msc_sector_transfer, chain_transfer := None\<rparr>) s4) =
      stream_ready lba (8 * B) s"
  proof -
    have "of_nat (8 * B) * 64 = (of_nat (64 * (8 * B)) :: u32)" by simp
    then have "s4 = usb_stream_setup_transfer Msc_sector_transfer Msc_sector_funcs (SectorBuf 0) 512
      (of_nat (64 * (8 * B))) (Some Tf_data_phase_complete) s3" by (simp only: s4_def)
    then show ?thesis using sector_numbers(2) [OF B(1)]
      by (cases "streams s Msc_sector_transfer"; cases s)
        (simp add: usb_stream_setup_transfer_def usb_reset_transfer_def usb_grow_transfer_def upd_tr_def upd_st_def upd_ep_def upd_msc_def
          s3_def s2_def s1_def stream_ready_def Let_def del: of_nat_mult)
  qed
  finally show ?thesis by (simp only: B_def)
qed

lemma stream_ready_streaming:
  assumes "idle_in s" "csw_sig (csw (msc s)) = CSW_SIG" "csw_status (csw (msc s)) = CSW_STATUS_COMMAND_PASSED"
    and "residue (csw (msc s)) = of_nat (64 * N)" "length (sector_buf s) = 512"
  shows "streaming img lba N 0 (loads 0) [] N False (stream_ready lba N s)" "background (stream_ready lba N s) = background s"
proof -
  let ?t = "stream_ready lba N s"
  have "in_flight_packets [] ?t"
    using assms(1) in_flight_cong [of "[]" s ?t] by (simp add: idle_in_def same_in_ep_def stream_ready_def)
  then show "streaming img lba N 0 (loads 0) [] N False ?t"
    using assms by (simp add: streaming_def Let_def idle_in_def loads_def) (simp add: stream_ready_def in_ep_ok_def)
  show "background ?t = background s" by (simp add: background_def kept_def stream_ready_def oldest_def)
qed

text \<open>The end of the handling of a command packet.\<close>

definition command_done :: "'a usb_state_scheme \<Rightarrow> 'a usb_state_scheme" where
  "command_done s =
     upd_tr Msc_cmd_transfer (\<lambda>tr. completed_update (\<lambda>_. True) (packets_to_handle_update (\<lambda>n. n - 1)
         (outstanding_packet_update (\<lambda>_. False) tr)))
       (upd_ep Msc_out (\<lambda>ep. current_transfer_update (\<lambda>_. None) (current_hw_buffer_update (buf_valid_update (\<lambda>_. False)) ep)) s)"

lemma send_packet_listening:
  assumes "listening s" "out_registers s" "quiet_hw (hw s)" "oldest (endpoints s Msc_out) = pos" "length bs \<le> 64"
  shows "\<exists>h w. send_packet (fst pos) (snd pos) bs s = Some (s\<lparr>buf_ctrls := (buf_ctrls s)((2, False) := w), hw := h,
        dpram := patched (slot_at (endpoints s Msc_out) (fst pos)) bs (dpram s)\<rparr>) \<and>
      buf_status h = push_bit 5 1 \<and> ints_buff_status h \<and> \<not> ints_setup_req h \<and> \<not> ints_bus_reset h \<and> \<not> ints_error h \<and>
      (bit (buf_cpu_should_handle h) 5 \<longleftrightarrow> fst pos = 1) \<and> (fst pos = 0 \<or> fst pos = 1) \<and>
      unat (bc_len ((if fst pos = 0 then fst else snd) w)) = length bs"
proof -
  obtain ec where ec: "ep_ctrls s (2, False) = Some ec" "ec_offset ec = dpram_buffer_offset (endpoints s Msc_out)"
    using assms(2) by (auto simp: out_registers_def)
  note l = assms(1) [unfolded listening_def Let_def assms(4)]
  define c where "c = (if fst pos = 0 then fst else snd) (buf_ctrls s (2, False))"
  define h where "h = (hw s)\<lparr>buf_status := buf_status (hw s) OR 32, ints_buff_status := True,
      buf_cpu_should_handle := (if fst pos \<noteq> 0 then buf_cpu_should_handle (hw s) OR 32 else buf_cpu_should_handle (hw s) AND NOT 32)\<rparr>"
  define w where "w = (let c' = c\<lparr>bc_avail := False, bc_full := True, bc_len := of_nat (length bs)\<rparr>; v = buf_ctrls s (2, False) in
      if fst pos = 0 then (c', snd v) else (fst v, c'))"
  have pos: "fst pos = 0 \<or> fst pos = 1" using l assms(4) by (auto simp: out_ep_ok_def oldest_def split: if_splits)
  have "send_packet (fst pos) (snd pos) bs s = Some (s\<lparr>buf_ctrls := (buf_ctrls s)((2, False) := w), hw := h,
        dpram := patched (slot_at (endpoints s Msc_out) (fst pos)) bs (dpram s)\<rparr>)"
    using l by (auto simp: send_packet_def ec c_def h_def w_def Let_def slot_at_def usb_endpoint_stride_def split: if_splits)
  moreover have "bit (32 :: u32) 5" using bit_exp_iff [of 5 5, where ?'a = u32] by simp
  then have "bit (buf_cpu_should_handle h) 5 \<longleftrightarrow> fst pos = 1" using pos by (auto simp: h_def bit_simps)
  moreover have "unat (bc_len ((if fst pos = 0 then fst else snd) w)) = length bs"
    using assms(5) by (auto simp: w_def Let_def unat_of_nat)
  ultimately show ?thesis using assms(3) pos by (intro exI [of _ h] exI [of _ w]) (auto simp: h_def quiet_hw_def)
qed

definition command_running :: "'a usb_state_scheme \<Rightarrow> bool" where
  "command_running s \<longleftrightarrow>
     (let ep = endpoints s Msc_out; tr = transfers s Msc_cmd_transfer in
      current_transfer ep = Some Msc_cmd_transfer \<and> \<not> ep_in ep \<and> halt_state ep = HS_NONE \<and> chain_transfer ep = None \<and>
      packets_to_handle tr = 1 \<and> packets_to_submit tr = 0 \<and> \<not> completed tr \<and> \<not> packet_queued tr \<and> tr_on_complete tr = None)"

lemma command_ends:
  assumes "command_running s"
  shows "\<exists>t. usb_packet_done cb Msc_out s = Some t \<and> \<not> completed (transfers t Msc_cmd_transfer) \<and>
    check_for_transfer_completion cb' Msc_out (upd_tr Msc_cmd_transfer (packets_to_handle_update (\<lambda>n. n - 1)) t) = Some (command_done s)"
proof -
  note r = assms [unfolded command_running_def Let_def]
  define s1 where "s1 = upd_tr Msc_cmd_transfer (outstanding_packet_update (\<lambda>_. False)) s"
  have s1: "endpoints s1 = endpoints s" "transfers s1 Msc_cmd_transfer = (transfers s Msc_cmd_transfer)\<lparr>outstanding_packet := False\<rparr>"
    by (simp_all add: s1_def upd_tr_def)
  have check: "check_for_transfer_completion cb Msc_out s1 = Some s1"
    using r by (simp add: check_for_transfer_completion_def s1 Let_def)
  let ?t = "invalidate_buffer Msc_out s1"
  have t: "transfers ?t = transfers s1" "current_transfer (endpoints ?t Msc_out) = Some Msc_cmd_transfer"
    "halt_state (endpoints ?t Msc_out) = HS_NONE" "chain_transfer (endpoints ?t Msc_out) = None"
    using r by (simp_all add: invalidate_buffer_def upd_ep_def s1)
  have "\<not> may_give_buffer Msc_out ?t" using r by (simp add: may_give_buffer_def t s1)
  then have "give_as_many cb Msc_out ?t = Some ?t" by (simp add: give_as_many.simps [of _ _ ?t])
  then have packet_end: "usb_packet_done cb Msc_out s = Some ?t"
    using r unfolding usb_packet_done_def Let_def by (simp add: s1_def [symmetric] check s1 t)
  moreover have "check_for_transfer_completion cb' Msc_out (upd_tr Msc_cmd_transfer (packets_to_handle_update (\<lambda>n. n - 1)) ?t) = Some (command_done s)"
  proof -
    let ?u = "upd_tr Msc_cmd_transfer (packets_to_handle_update (\<lambda>n. n - 1)) ?t"
    have u: "endpoints ?u = endpoints ?t" "transfers ?u Msc_cmd_transfer = (transfers s1 Msc_cmd_transfer)\<lparr>packets_to_handle := 0\<rparr>"
      using r by (simp_all add: upd_tr_def t s1)
    have chain: "chain_transfer (endpoints (upd_ep Msc_out (current_transfer_update (\<lambda>_. None)) x) Msc_out) = chain_transfer (endpoints x Msc_out)"
      for x :: "'a usb_state_scheme" by (simp add: upd_ep_def)
    have "check_for_transfer_completion cb' Msc_out ?u =
        Some (upd_ep Msc_out (current_transfer_update (\<lambda>_. None)) (upd_tr Msc_cmd_transfer (completed_update (\<lambda>_. True)) ?u))"
      using r by (simp add: check_for_transfer_completion_def u t s1 Let_def) (simp add: chain upd_tr_def u t s1)
    also have "upd_ep Msc_out (current_transfer_update (\<lambda>_. None)) (upd_tr Msc_cmd_transfer (completed_update (\<lambda>_. True)) ?u) = command_done s"
      using r by (cases s) (simp add: command_done_def upd_ep_def upd_tr_def invalidate_buffer_def s1_def)
    finally show ?thesis .
  qed
  ultimately show ?thesis using r by (auto simp: t s1)
qed

lemma reading_command_done:
  assumes "reading img lba N j s"
  shows "reading img lba N j (command_done s)"
  using assms in_flight_cong [of _ s "command_done s"] unfolding reading_def streaming_def Let_def
  by (simp add: same_in_ep_def) (simp add: command_done_def upd_ep_def upd_tr_def)

definition command_seen :: "u8 \<Rightarrow> usb_hw \<Rightarrow> bytes \<Rightarrow> 'a usb_msc_state_scheme \<Rightarrow> 'a usb_msc_state_scheme \<Rightarrow> bool" where
  "command_seen sel h bs s t \<longleftrightarrow>
     endpoints t Msc_in = endpoints s Msc_in \<and> buf_ctrls t (1, True) = buf_ctrls s (1, True) \<and> hw t = h \<and>
     length (dpram t) = 4096 \<and> sector_buf t = sector_buf s \<and> surroundings t = surroundings s \<and>
     endpoints t Msc_out = (endpoints s Msc_out)\<lparr>owned_buffer_count := 2, current_take_buffer := sel, current_hw_buffer :=
       \<lparr>buf_data = slot_at (endpoints s Msc_out) sel, buf_data_len = of_nat (length bs), buf_data_max = 64, buf_valid = True\<rparr>\<rparr> \<and>
     transfers t Msc_cmd_transfer = (transfers s Msc_cmd_transfer)\<lparr>outstanding_packet := True\<rparr> \<and>
     dpram_load (slot_at (endpoints s Msc_out) sel) (length bs) t = Some bs"

lemma command_arrives:
  assumes "ready pos opos s" "length bs \<le> 64"
  shows "\<exists>h t. host_sends prog (Suc m) opos bs s =
      Option.bind (msc_cmd_packet prog (run prog m) Msc_out (upd_tr Msc_cmd_transfer (outstanding_packet_update (\<lambda>_. True)) t))
        (\<lambda>s. if completed (transfers s Msc_cmd_transfer) then Some s
          else check_for_transfer_completion (run prog (Suc m)) Msc_out (upd_tr Msc_cmd_transfer (packets_to_handle_update (\<lambda>n. n - 1)) s)) \<and>
    quiet_hw h \<and>
    command_seen (fst opos) h bs s (usb_current_packet_buffer Msc_out (upd_tr Msc_cmd_transfer (outstanding_packet_update (\<lambda>_. True)) t))"
proof -
  note r = assms(1) [unfolded ready_def host_sees_def]
  obtain h w where send: "send_packet (fst opos) (snd opos) bs s = Some (s\<lparr>buf_ctrls := (buf_ctrls s)((2, False) := w), hw := h,
        dpram := patched (slot_at (endpoints s Msc_out) (fst opos)) bs (dpram s)\<rparr>)" (is "_ = Some ?s")
    and hw: "buf_status h = push_bit 5 1" "ints_buff_status h" "\<not> ints_setup_req h" "\<not> ints_bus_reset h" "\<not> ints_error h"
      "bit (buf_cpu_should_handle h) 5 \<longleftrightarrow> fst opos = 1" "fst opos = 0 \<or> fst opos = 1"
      "unat (bc_len ((if fst opos = 0 then fst else snd) w)) = length bs"
    using send_packet_listening [of s opos bs] r assms(2) by blast
  note l = r [unfolded listening_def out_ep_ok_def Let_def]
  let ?h = "h\<lparr>buf_status := 0\<rparr>"
  define t where "t = upd_ep Msc_out (current_take_buffer_update (\<lambda>_. fst opos)) (upd_ep Msc_out (owned_buffer_count_update (\<lambda>n. n + 1))
      (?s\<lparr>hw := ?h\<rparr>))"
  have "device_interrupt prog (Suc m) ?s = handle_buffer_bit (run prog (Suc m)) 5 ?s"
    using interrupt_buffer [of ?s 5] hw by simp
  also have "\<dots> = usb_handle_transfer (run prog (Suc m)) 2 False (fst opos) (?s\<lparr>hw := ?h\<rparr>)"
    using hw(1,6,7) by (auto simp: handle_buffer_bit_def hw_clear_buf_status_def Let_def simp del: run.simps)
  also have "\<dots> = Option.bind (usb_call_on_packet (run prog (Suc m)) Msc_out t) (\<lambda>s. if completed (transfers s Msc_cmd_transfer) then Some s
          else check_for_transfer_completion (run prog (Suc m)) Msc_out (upd_tr Msc_cmd_transfer (packets_to_handle_update (\<lambda>n. n - 1)) s))"
    using l by (simp add: usb_handle_transfer_def handle_endpoint_def out_registers_def upd_ep_def t_def Let_def del: run.simps)
  also have "usb_call_on_packet (run prog (Suc m)) Msc_out t =
      msc_cmd_packet prog (run prog m) Msc_out (upd_tr Msc_cmd_transfer (outstanding_packet_update (\<lambda>_. True)) t)"
    using l by (simp add: usb_call_on_packet_def call_void_def t_def upd_ep_def upd_tr_def invoke_def void_def Let_def
        option.map_comp comp_def option.map_ident)
  finally have step: "host_sends prog (Suc m) opos bs s =
      Option.bind (msc_cmd_packet prog (run prog m) Msc_out (upd_tr Msc_cmd_transfer (outstanding_packet_update (\<lambda>_. True)) t))
        (\<lambda>s. if completed (transfers s Msc_cmd_transfer) then Some s
          else check_for_transfer_completion (run prog (Suc m)) Msc_out (upd_tr Msc_cmd_transfer (packets_to_handle_update (\<lambda>n. n - 1)) s))"
    unfolding host_sends_def send Option.bind.bind_lunit .
  define u where "u = usb_current_packet_buffer Msc_out (upd_tr Msc_cmd_transfer (outstanding_packet_update (\<lambda>_. True)) t)"
  have slot: "slot_at (endpoints s Msc_out) (fst opos) + length bs \<le> 4096" and d: "length (dpram s) = 4096"
    using l assms(2) by (auto simp: slot_at_def usb_endpoint_stride_def idle_in_def)
  have u: "dpram u = patched (slot_at (endpoints s Msc_out) (fst opos)) bs (dpram s)" "hw u = ?h" "sector_buf u = sector_buf s"
    "endpoints u Msc_in = endpoints s Msc_in" "buf_ctrls u (1, True) = buf_ctrls s (1, True)"
    "transfers u Msc_cmd_transfer = (transfers s Msc_cmd_transfer)\<lparr>outstanding_packet := True\<rparr>"
    "surroundings u = surroundings s"
    by (simp_all add: u_def t_def usb_current_packet_buffer_def upd_ep_def upd_tr_def surroundings_def Let_def)
  have n: "ucast (bc_len ((if fst opos = 0 then fst else snd) w)) = (of_nat (length bs) :: u8)"
    using hw(8) assms(2) by (simp only: word_unat_eq_iff) (simp add: unsigned_ucast_eq unat_of_nat take_bit_nat_eq_self)
  have "endpoints u Msc_out = (endpoints s Msc_out)\<lparr>owned_buffer_count := 2, current_take_buffer := fst opos, current_hw_buffer :=
       \<lparr>buf_data = slot_at (endpoints s Msc_out) (fst opos), buf_data_len = of_nat (length bs), buf_data_max = 64, buf_valid = True\<rparr>\<rparr>"
    using l n hw(7) by (auto simp: u_def t_def usb_current_packet_buffer_def upd_ep_def upd_tr_def Let_def buf_ctrl_narrow_def buf_ctrl_wide_def
        slot_at_def)
  moreover have "dpram_load (slot_at (endpoints s Msc_out) (fst opos)) (length bs) u = Some bs"
    using slot d patched_read [of "slot_at (endpoints s Msc_out) (fst opos)" bs "dpram s"] by (simp add: dpram_load_def u length_patched)
  ultimately have "command_seen (fst opos) ?h bs s u"
    using u slot d by (simp add: command_seen_def length_patched)
  moreover have "quiet_hw ?h" using hw by (simp add: quiet_hw_def)
  ultimately show ?thesis using step unfolding u_def by blast
qed

lemma surroundings_serves: "surroundings t = surroundings s \<Longrightarrow> serves prog img lba M t = serves prog img lba M s"
proof -
  assume "surroundings t = surroundings s"
  then have "timerawl t = timerawl s" "mem t = mem s" "serial_number_string t = serial_number_string s"
    and "volume_serial (timerawl t) (boot_device t) = volume_serial (timerawl s) (boot_device s)"
    unfolding surroundings_def prod.inject by blast+
  then show ?thesis by (simp add: serves_def)
qed

lemma execute_read:
  assumes "command_seen sel h (read10 tag lba blocks) s u" "idle_in s" "serves prog img lba (unat blocks) s" "0 < unat blocks"
    and "length (sector_buf s) = 512" "4 \<le> n"
  shows "\<exists>t. msc_execute prog (run prog n) (read10_cbw tag lba blocks) (msc_accept_command (read10_cbw tag lba blocks) u) = Some t \<and>
    reading img lba (8 * unat blocks) 0 t \<and> background t = background (msc_accept_command (read10_cbw tag lba blocks) u)"
proof -
  let ?c = "read10_cbw tag lba blocks" and ?N = "8 * unat blocks"
  define A where "A = msc_accept_command ?c u"
  note seen = assms(1) [unfolded command_seen_def]
  have A: "csw (msc A) = \<lparr>csw_sig = CSW_SIG, csw_tag = tag, residue = ucast blocks * 512, csw_status = CSW_STATUS_COMMAND_PASSED\<rparr>"
    "endpoints A = endpoints u" "buf_ctrls A = buf_ctrls u" "dpram A = dpram u" "sector_buf A = sector_buf u" "surroundings A = surroundings u"
    by (cases "csw (msc u)"; simp add: A_def msc_accept_command_def upd_msc_def read10_fields set_sense_def set_csw_status_def
        surroundings_def Let_def)+
  have "(ucast blocks :: u32) * 512 = of_nat (64 * ?N)"
    by (simp only: ucast_blocks of_nat_mult of_nat_numeral) simp
  moreover have "idle_in A"
    using assms(2) seen by (simp add: idle_in_def A in_flight_packets_def Let_def)
  ultimately have "streaming img lba ?N 0 (loads 0) [] ?N False (stream_ready lba ?N A)"
    and bg: "background (stream_ready lba ?N A) = background A"
    using stream_ready_streaming(1) [of A ?N img lba] stream_ready_streaming(2) [of A ?N lba] A assms(5) seen by auto
  moreover have "serves prog img lba (unat blocks) (stream_ready lba ?N A)"
    using surroundings_serves [OF A(6)] surroundings_serves [of u s] serves_cong [OF bg] seen assms(3) by simp
  moreover have "size_ok ?N" proof -
    have "unat blocks < 65536" by (rule unsigned_less [of blocks, simplified])
    then show ?thesis by (simp add: size_ok_def)
  qed
  ultimately obtain t where "give_as_many (run prog n) Msc_in (stream_ready lba ?N A) = Some t"
    "streaming img lba ?N (sent_by ?N 0 []) (loads (sent_by ?N 0 [])) (queued img ?N 0 []) ?N False t" "background t = background (stream_ready lba ?N A)"
    using fill_buffers [where N = ?N and k = 0 and q = "[]" and h = ?N and M = "unat blocks" and n = n and
      s = "stream_ready lba ?N A" and prog = prog and img = img and lba = lba] assms(4,6) by auto
  moreover have "msc_execute prog (run prog n) ?c A = give_as_many (run prog n) Msc_in (stream_ready lba ?N A)"
    using read_command_starts [OF assms(4), of "run prog n" tag lba A]
    by (simp add: msc_execute_def read10_fields scsi_cmds scsi_handle_read_or_write_command_def Let_def)
  moreover have "sent_by ?N 0 [] = min ?N (0 + 2)" "queued img ?N 0 [] = map (packet img) [0 ..< min ?N (0 + 2)]"
    by (simp_all add: sent_by_def queued_def)
  ultimately show ?thesis using bg unfolding reading_def A_def by auto
qed

lemma command_starts_read:
  assumes rd: "ready pos opos s" and "serves prog img lba (unat blocks) s" "0 < unat blocks" "length (sector_buf s) = 512" "4 \<le> m"
  shows "\<exists>t. host_sends prog (Suc m) opos (read10 tag lba blocks) s = Some t \<and> reading img lba (8 * unat blocks) 0 t \<and>
    host_sees pos t \<and> csw_tag (csw (msc t)) = tag \<and> closed_out t \<and> out_registers t \<and>
    oldest (endpoints t Msc_out) = next_pos opos \<and> surroundings t = surroundings s"
proof -
  let ?bs = "read10 tag lba blocks" and ?c = "read10_cbw tag lba blocks"
  note r = rd [unfolded ready_def host_sees_def]
  obtain h x where send: "host_sends prog (Suc m) opos ?bs s =
      Option.bind (msc_cmd_packet prog (run prog m) Msc_out (upd_tr Msc_cmd_transfer (outstanding_packet_update (\<lambda>_. True)) x))
        (\<lambda>s. if completed (transfers s Msc_cmd_transfer) then Some s
          else check_for_transfer_completion (run prog (Suc m)) Msc_out (upd_tr Msc_cmd_transfer (packets_to_handle_update (\<lambda>n. n - 1)) s))"
    and h: "quiet_hw h"
    and seen: "command_seen (fst opos) h ?bs s (usb_current_packet_buffer Msc_out (upd_tr Msc_cmd_transfer (outstanding_packet_update (\<lambda>_. True)) x))"
  proof -
    have "length ?bs \<le> 64" using read10_parse(2) [of tag lba blocks] by simp
    from command_arrives [OF rd this, where prog = prog and m = m] that show ?thesis by blast
  qed
  define u where "u = usb_current_packet_buffer Msc_out (upd_tr Msc_cmd_transfer (outstanding_packet_update (\<lambda>_. True)) x)"
  note seen = seen [folded u_def]
  note seen' = seen [unfolded command_seen_def]
  obtain t where t: "msc_execute prog (run prog m) ?c (msc_accept_command ?c u) = Some t" "reading img lba (8 * unat blocks) 0 t"
    "background t = background (msc_accept_command ?c u)"
    using execute_read [OF seen _ assms(2-5)] r by blast
  have "msc_cmd_packet_internal prog (run prog m) Msc_out (upd_tr Msc_cmd_transfer (outstanding_packet_update (\<lambda>_. True)) x) = Some t"
    using seen' t(1) by (simp add: msc_cmd_packet_internal_def u_def [symmetric] current_buffer_def read10_parse read10_fields Let_def)
  moreover have kept: "kept t = kept (msc_accept_command ?c u)" using t(3) by (simp add: background_def)
  have acc: "endpoints (msc_accept_command ?c u) = endpoints u" "transfers (msc_accept_command ?c u) = transfers u"
    "hw (msc_accept_command ?c u) = hw u" "csw_tag (csw (msc (msc_accept_command ?c u))) = tag"
    "surroundings (msc_accept_command ?c u) = surroundings u"
    by (simp_all add: msc_accept_command_def upd_msc_def set_sense_def set_csw_status_def read10_fields surroundings_def Let_def)
  have tu: "endpoints t Msc_out = endpoints u Msc_out" "transfers t Msc_cmd_transfer = transfers u Msc_cmd_transfer"
    "csw_tag (csw (msc t)) = tag"
    using kept acc unfolding kept_def prod.inject by metis+
  have running: "command_running t"
    using r seen' by (simp add: command_running_def tu listening_def out_ep_ok_def Let_def)
  obtain v where v: "usb_packet_done (run prog m) Msc_out t = Some v" "\<not> completed (transfers v Msc_cmd_transfer)"
    "check_for_transfer_completion (run prog (Suc m)) Msc_out (upd_tr Msc_cmd_transfer (packets_to_handle_update (\<lambda>n. n - 1)) v) =
      Some (command_done t)"
    using command_ends [OF running] by blast
  ultimately have "host_sends prog (Suc m) opos ?bs s = Some (command_done t)"
    unfolding send msc_cmd_packet_def by simp
  moreover have d: "endpoints (command_done t) Msc_in = endpoints t Msc_in" "hw (command_done t) = hw t" "msc (command_done t) = msc t"
    "surroundings (command_done t) = surroundings t"
    by (simp_all add: command_done_def upd_ep_def upd_tr_def surroundings_def)
  have all: "surroundings t = surroundings s"
    using kept_surroundings [OF kept] acc(5) seen' by simp
  have hosts: "hw t = h" "oldest (endpoints t Msc_in) = oldest (endpoints s Msc_in)"
    "dpram_buffer_offset (endpoints t Msc_in) = dpram_buffer_offset (endpoints s Msc_in)"
    using t(3) acc seen' unfolding background_def prod.inject by metis+
  have "host_sees pos (command_done t)"
    using r h all d(4) by (simp add: host_sees_def ep_registers_def hosts d(1,2)) (simp add: surroundings_def)
  moreover have "closed_out (command_done t)" "oldest (endpoints (command_done t) Msc_out) = next_pos opos" "out_registers (command_done t)"
  proof -
    have out: "endpoints (command_done t) Msc_out = (endpoints u Msc_out)\<lparr>current_transfer := None,
        current_hw_buffer := (current_hw_buffer (endpoints u Msc_out))\<lparr>buf_valid := False\<rparr>\<rparr>"
      "tr_type (transfers (command_done t) Msc_cmd_transfer) = Some Msc_cmd_type"
      using r seen' by (simp_all add: command_done_def upd_ep_def upd_tr_def tu listening_def Let_def)
    show "closed_out (command_done t)"
      using r seen' by (simp add: closed_out_def Let_def out) (simp add: listening_def out_ep_ok_def Let_def)
    show "oldest (endpoints (command_done t) Msc_out) = next_pos opos"
      using r seen' by (auto simp: out oldest_def next_pos_def listening_def out_ep_ok_def Let_def)
    show "out_registers (command_done t)"
      using r seen' all d(4) by (simp add: out_registers_def out) (simp add: surroundings_def)
  qed
  ultimately show ?thesis using reading_command_done [OF t(2)] d(3,4) tu(3) all by auto
qed

subsection \<open>A whole command\<close>

text \<open>The host sends the command block, takes \<open>k\<close> packets, and then the status.\<close>

definition host_command ::
    "program \<Rightarrow> nat \<Rightarrow> u8 \<times> bool \<Rightarrow> u8 \<times> bool \<Rightarrow> bytes \<Rightarrow> nat \<Rightarrow> 'a boot_state_scheme \<Rightarrow> (bytes \<times> bytes \<times> 'a boot_state_scheme) option" where
  "host_command prog n pos opos cbw k s = do {
     s \<leftarrow> host_sends prog n opos cbw s;
     (packets, pos, s) \<leftarrow> host_reads prog n k pos s;
     (status, s) \<leftarrow> host_takes prog n pos s;
     Some (concat packets, status, s)
   }"

lemma concat_packets:
  assumes "\<forall>i < M. length (img i) = 512"
  shows "concat (map (packet img) [0 ..< 8 * M]) = concat (map img [0 ..< M])"
  using assms
proof (induction M)
  case (Suc M)
  have sector: "concat (map (\<lambda>j. take 64 (drop (64 * j) x)) [0 ..< 8]) = x" if "length x = 512" for x :: bytes
  proof -
    have "concat (map (\<lambda>j. take 64 (drop (64 * j) x)) [0 ..< m]) = take (64 * m) x" for m
    proof (induction m)
      case (Suc m)
      then show ?case using take_add [of "64 * m" 64 x] by (simp add: add.commute)
    qed simp
    from this [of 8] show ?thesis using that by simp
  qed
  have "map (packet img) [8 * M ..< 8 * M + 8] = map (\<lambda>j. take 64 (drop (64 * j) (img M))) [0 ..< 8]"
    by (intro nth_equalityI) (simp_all add: packet_def)
  moreover have "[0 ..< 8 * Suc M] = [0 ..< 8 * M] @ [8 * M ..< 8 * M + 8]"
    using upt_add_eq_append [of 0 "8 * M" 8] by (simp add: add.commute)
  ultimately show ?case using Suc sector [of "img M"] by simp
qed simp

lemma serves_image:
  assumes "disk_ok (prog_am prog) (prog_gen prog) html (serial_number_string s) (mem s)"
    and "\<forall>i < M. \<not> in_trailing_cluster (prog_am prog) (unat (lba + of_nat i))"
  shows "serves prog (\<lambda>i. image_sector (prog_am prog) (prog_gen prog) html (serial_number_string s) (mem s)
      (volume_serial (timerawl s) (boot_device s)) (unat (lba + of_nat i))) lba M s"
proof -
  have "volume_serial now (serial_after now bds l) = volume_serial now bds" for now bds l
    by (simp add: volume_serial_def serial_after_def msc_get_serial_number32_def)
  then show ?thesis
    using vd_read_block_image [OF assms(1)] length_image_sector [OF assms(1)] assms(2) by (auto simp: serves_def)
qed

lemma read10_completes:
  assumes "ready pos opos s" "serves prog img lba (unat blocks) s" "0 < unat blocks" "length (sector_buf s) = 512" "5 \<le> n"
  shows "\<exists>t. host_command prog n pos opos (read10 tag lba blocks) (8 * unat blocks) s =
      Some (concat (map img [0 ..< unat blocks]), passed tag, t) \<and>
    ready ((next_pos ^^ Suc (8 * unat blocks)) pos) (next_pos opos) t \<and> surroundings t = surroundings s"
proof -
  let ?N = "8 * unat blocks"
  obtain m where n: "n = Suc m" "4 \<le> m" using assms(5) by (cases n) auto
  then obtain m' where n': "n = Suc (Suc m')" by (cases m) auto
  obtain t where t: "host_sends prog n opos (read10 tag lba blocks) s = Some t" "reading img lba ?N 0 t" "host_sees pos t"
    "csw_tag (csw (msc t)) = tag" "closed_out t" "out_registers t" "oldest (endpoints t Msc_out) = next_pos opos"
    "surroundings t = surroundings s"
    using command_starts_read [OF assms(1-4) n(2)] unfolding n(1) by blast
  have "serves prog img lba (unat blocks) t" "size_ok ?N" "4 \<le> n"
  proof -
    have "unat blocks < 65536" by (rule unsigned_less [of blocks, simplified])
    then show "serves prog img lba (unat blocks) t" "size_ok ?N" "4 \<le> n"
      using surroundings_serves [OF t(8)] assms(2) n by (simp_all add: size_ok_def)
  qed
  from host_reads_all [OF t(2,3) this(1,2) refl assms(3) this(3) t(4)] obtain u where
    u: "host_reads prog n ?N pos t = Some (map (packet img) [0 ..< ?N], (next_pos ^^ ?N) pos, u)"
      "status_given (passed tag) u" "host_sees ((next_pos ^^ ?N) pos) u" "kept u = kept t" by blast
  have keep: "closed_out u" "out_registers u" "oldest (endpoints u Msc_out) = next_pos opos"
    using t(5-7) u(4) by (simp_all add: closed_out_def out_registers_def kept_def)
  obtain v where v: "host_takes prog n ((next_pos ^^ ?N) pos) u = Some (passed tag, v)"
    "ready (next_pos ((next_pos ^^ ?N) pos)) (next_pos opos) v" "surroundings v = surroundings u"
    using status_taken [OF u(2,3) keep(1,2)] unfolding keep(3) n' by blast
  have "concat (map (packet img) [0 ..< ?N]) = concat (map img [0 ..< unat blocks])"
    using assms(2) by (intro concat_packets) (simp add: serves_def)
  then have "host_command prog n pos opos (read10 tag lba blocks) ?N s = Some (concat (map img [0 ..< unat blocks]), passed tag, v)"
    by (simp add: host_command_def t(1) u(1) v(1))
  then show ?thesis using v(2,3) kept_surroundings [OF u(4)] t(8) by simp
qed

text \<open>C3: A host that sends READ(10) for at least one sector to a device that waits for a command, none of the sectors
  in the cluster behind the dump, and then takes the packets of the data phase, eight for each sector, each with the
  right data toggle and each with its interrupt, gets exactly these sectors of the image of the disk, and then a
  status with its tag, no residue and no error.  No handler faults on the way, the memory is as before, and the device
  waits for the next command at the end.  (A sector of the cluster behind the dump can make the same command fault,
  by a read behind the end of the RAM.)\<close>

theorem host_reads_sectors:
  assumes "ready pos opos s" and "disk_ok (prog_am prog) (prog_gen prog) html (serial_number_string s) (mem s)"
    and "\<forall>i < unat blocks. \<not> in_trailing_cluster (prog_am prog) (unat (lba + of_nat i))"
    and "0 < unat blocks" "length (sector_buf s) = 512" "5 \<le> n"
  shows "\<exists>t. host_command prog n pos opos (read10 tag lba blocks) (8 * unat blocks) s =
      Some (concat (map (\<lambda>i. image_sector (prog_am prog) (prog_gen prog) html (serial_number_string s) (mem s)
              (volume_serial (timerawl s) (boot_device s)) (unat (lba + of_nat i))) [0 ..< unat blocks]),
            le32 CSW_SIG @ le32 tag @ le32 0 @ [CSW_STATUS_COMMAND_PASSED], t) \<and>
    ready ((next_pos ^^ Suc (8 * unat blocks)) pos) (next_pos opos) t \<and> mem t = mem s \<and> length (sector_buf t) = 512"
  using read10_completes [OF assms(1) serves_image [OF assms(2,3)] assms(4-6), of tag] assms(5)
  by (auto simp: passed_def csw_bytes_def surroundings_def)

text \<open>A device that waits for its first command.\<close>

definition example_ready :: boot_state where
  "example_ready =
     (usb_boot_state (watchdog_hw cold_disk) 0 zero_ram 7)
       \<lparr>serial_number_string := replicate 12 0x30,
        endpoints := (\<lambda>_. zero_endpoint)
          (Msc_in := zero_endpoint\<lparr>ep_in := True, double_buffered := True, ep_num := 1, buffer_size := 64,
             dpram_buffer_offset := 0x180, owned_buffer_count := 2\<rparr>,
           Msc_out := zero_endpoint\<lparr>double_buffered := True, ep_num := 2, buffer_size := 64, dpram_buffer_offset := 0x200,
             default_transfer := Some Msc_cmd_transfer, current_transfer := Some Msc_cmd_transfer,
             owned_buffer_count := 1, current_give_buffer := 1, next_pid := 1\<rparr>),
        transfers := (\<lambda>_. zero_transfer)
          (Msc_cmd_transfer := zero_transfer\<lparr>tr_type := Some Msc_cmd_type, packets_to_handle := 1, started := True\<rparr>),
        endpoint_array := [None, Some Msc_in, Some Msc_out, None, None],
        ep_ctrls := [(1, True) \<mapsto> \<lparr>ec_double = True, ec_offset = 0x180\<rparr>, (2, False) \<mapsto> \<lparr>ec_double = True, ec_offset = 0x200\<rparr>],
        buf_ctrls := (\<lambda>_. (zero_buf_ctrl, zero_buf_ctrl))
          ((2, False) := (zero_buf_ctrl\<lparr>bc_avail := True, bc_len := 64\<rparr>, zero_buf_ctrl))\<rparr>"

lemma ready_example: "ready (0, False) (0, False) example_ready"
  by (simp add: example_ready_def usb_boot_state_def ready_def idle_in_def host_sees_def listening_def out_registers_def ep_registers_def
      in_ep_ok_def out_ep_ok_def in_flight_packets_def oldest_def quiet_hw_def zero_usb_hw_def zero_endpoint_def zero_buffer_def
      zero_transfer_def zero_buf_ctrl_def)

theorem host_reads_sectors_witness:
  "\<exists>data t. host_command (example_program\<lparr>prog_gen := repo_generated\<rparr>) 5 (0, False) (0, False) (read10 9 260 2) 16 example_ready =
     Some (data, le32 CSW_SIG @ le32 9 @ le32 0 @ [CSW_STATUS_COMMAND_PASSED], t) \<and> length data = 1024 \<and>
     mem t = mem example_ready"
proof -
  have "disk_ok rp2040 repo_generated repo_welcome (serial_number_string example_ready) (mem example_ready)"
    using repo_disk_ok by (simp add: example_ready_def usb_boot_state_def)
  moreover note length_image_sector [OF this]
  moreover have "\<forall>i < unat (2 :: u16). \<not> in_trailing_cluster rp2040 (unat (260 + of_nat i :: u32))"
    by (auto simp: in_trailing_cluster_def less_2_cases_iff)
  moreover have "length (sector_buf example_ready) = 512" by (simp add: example_ready_def usb_boot_state_def)
  ultimately show ?thesis
    using host_reads_sectors [OF ready_example, of "example_program\<lparr>prog_gen := repo_generated\<rparr>" repo_welcome 2 260 5 9]
    by (auto simp: example_program_def sum_list_triv length_concat comp_def)
qed

end
