(* ===== verification/Host_View.thy ===== *)
theory Host_View
  imports Disk_Image
begin

text \<open>
  The disk from the other end of the cable: a FAT16 driver as a host has it (\<open>mount\<close>,
  \<open>find_file\<close>, \<open>cluster_chain\<close>, \<open>read_file\<close>), which knows nothing about the program but reads
  sectors.  The theorems say that, run on \<^const>\<open>vd_read_block\<close>, it mounts the volume and reads the
  three files back: the page, the information text, and the dump of the whole RAM.
\<close>

subsection \<open>A FAT16 driver\<close>

type_synonym disk = "nat \<Rightarrow> bytes option"

definition u16_at :: "nat \<Rightarrow> bytes \<Rightarrow> nat" where
  "u16_at off s = unat (of_le16 (drop off s))"

definition u32_at :: "nat \<Rightarrow> bytes \<Rightarrow> nat" where
  "u32_at off s = unat (of_le32 (drop off s))"

record volume =
  vol_fat :: nat
  vol_fat_copies :: nat
  vol_fat_sectors :: nat
  vol_root :: nat
  vol_root_entries :: nat
  vol_data :: nat
  vol_cluster_sectors :: nat
  vol_sectors :: nat

definition mount :: "disk \<Rightarrow> volume option" where
  "mount d = do {
     mbr \<leftarrow> d 0;
     let start = u32_at 454 mbr;
     boot \<leftarrow> d start;
     let fat = start + u16_at 0x0e boot;
     let root = fat + unat (boot ! 0x10) * u16_at 0x16 boot;
     if u16_at 510 mbr = 0xaa55 \<and> mbr ! 450 = 0x0e \<and> u16_at 0x0b boot = 512 then
       Some \<lparr> vol_fat = fat, vol_fat_copies = unat (boot ! 0x10), vol_fat_sectors = u16_at 0x16 boot,
              vol_root = root, vol_root_entries = u16_at 0x11 boot,
              vol_data = root + u16_at 0x11 boot * 32 div 512,
              vol_cluster_sectors = unat (boot ! 0x0d), vol_sectors = u32_at 0x20 boot \<rparr>
     else None
   }"

text \<open>The first cluster and the size of a file, from the first sector of the root directory.\<close>

definition find_file :: "disk \<Rightarrow> volume \<Rightarrow> bytes \<Rightarrow> (nat \<times> nat) option" where
  "find_file d v name = do {
     s \<leftarrow> d (vol_root v);
     i \<leftarrow> List.find (\<lambda>i. take 11 (drop (32 * i) s) = name) [0..<16];
     Some (u16_at (32 * i + 26) s, u32_at (32 * i + 28) s)
   }"

definition fat_link :: "disk \<Rightarrow> volume \<Rightarrow> nat \<Rightarrow> nat \<Rightarrow> nat option" where
  "fat_link d v copy c =
     map_option (u16_at (2 * (c mod 256))) (d (vol_fat v + copy * vol_fat_sectors v + c div 256))"

text \<open>\<open>n\<close> clusters from \<open>c\<close> on; every one but the last has a link to a cluster.\<close>

fun cluster_chain :: "disk \<Rightarrow> volume \<Rightarrow> nat \<Rightarrow> nat \<Rightarrow> nat \<Rightarrow> nat list option" where
  "cluster_chain d v copy 0 c = Some []"
| "cluster_chain d v copy (Suc n) c =
     (if n = 0 then Some [c]
      else do {
        c' \<leftarrow> fat_link d v copy c;
        if 2 \<le> c' \<and> c' < 0xfff0 then map_option ((#) c) (cluster_chain d v copy n c') else None
      })"

fun read_sectors :: "disk \<Rightarrow> nat \<Rightarrow> nat \<Rightarrow> bytes option" where
  "read_sectors d lba 0 = Some []"
| "read_sectors d lba (Suc n) =
     Option.bind (d lba) (\<lambda>s. map_option ((@) s) (read_sectors d (Suc lba) n))"

fun read_clusters :: "disk \<Rightarrow> volume \<Rightarrow> nat list \<Rightarrow> bytes option" where
  "read_clusters d v [] = Some []"
| "read_clusters d v (c # cs) =
     Option.bind (read_sectors d (vol_data v + (c - 2) * vol_cluster_sectors v) (vol_cluster_sectors v))
       (\<lambda>s. map_option ((@) s) (read_clusters d v cs))"

definition read_file :: "disk \<Rightarrow> volume \<Rightarrow> nat \<Rightarrow> bytes \<Rightarrow> bytes option" where
  "read_file d v copy name = do {
     (c, size) \<leftarrow> find_file d v name;
     cs \<leftarrow> cluster_chain d v copy ((size + 4095) div 4096) c;
     map_option (take size) (read_clusters d v cs)
   }"

subsection \<open>The device as a disk\<close>

definition device_disk ::
    "addressmap \<Rightarrow> generated \<Rightarrow> bytes \<Rightarrow> memory \<Rightarrow> u32 \<Rightarrow> boot_device_state \<Rightarrow> disk" where
  "device_disk am gen ser m now bds lba =
     map_option (\<lambda>(_, buf, _). buf) (vd_read_block am gen ser m now (of_nat lba) (replicate 512 0) bds)"

definition device_volume :: volume where
  "device_volume =
     \<lparr> vol_fat = 2, vol_fat_copies = 2, vol_fat_sectors = 129, vol_root = 260, vol_root_entries = 512,
       vol_data = 292, vol_cluster_sectors = 8, vol_sectors = 262143 \<rparr>"

lemma device_disk_sector:
  assumes "disk_ok am gen html ser m" and "\<not> in_trailing_cluster am lba" and "lba < 2 ^ 32"
  shows "device_disk am gen ser m now bds lba =
         Some (image_sector am gen html ser m (volume_serial now bds) lba)"
proof -
  have "unat (of_nat lba :: u32) = lba" using assms(3) by (simp add: unat_of_nat)
  then show ?thesis
    using vd_read_block_image [of am gen html ser m "of_nat lba" "replicate 512 0"] assms(1,2)
    by (simp add: device_disk_def)
qed

text \<open>
  A disk that serves the image.  A driver only asks for sectors that the image has; so the laws of the files hold
  for every way to reach the sectors, be it by calls of the handler or by packets on the wire.
\<close>

locale fat_disk =
  fixes am :: addressmap and gen :: generated and html ser :: bytes and m :: memory and sn :: u32 and d :: disk
  assumes sector: "disk_ok am gen html ser m \<Longrightarrow> \<not> in_trailing_cluster am lba \<Longrightarrow> lba < 2 ^ 32 \<Longrightarrow>
    d lba = Some (image_sector am gen html ser m sn lba)"

interpretation drive: fat_disk am gen html ser m "volume_serial now bds" "device_disk am gen ser m now bds"
  for am gen html ser m now bds
  by unfold_locales (rule device_disk_sector)

lemma boot_sector_eval:
  "boot_sector =
     [0xeb, 0x3c, 0x90, 0x4d, 0x53, 0x57, 0x49, 0x4e, 0x34, 0x2e, 0x31, 0x00, 0x02, 8, 1, 0, 2,
      0x00, 0x02, 0, 0, 0xf8, 129, 0, 1, 0, 1, 0, 1, 0, 0, 0, 0xff, 0xff, 3, 0, 0, 0, 0x29, 0, 0, 0, 0,
      0x52, 0x50, 0x49, 0x2d, 0x52, 0x50, 0x32, 0x20, 0x20, 0x20, 0x20,
      0x46, 0x41, 0x54, 0x31, 0x36, 0x20, 0x20, 0x20, 0xeb, 0xfe]"
  by (simp add: boot_sector_def lsb_hword_def lsb_word_def disk_sizes MEDIA_TYPE_def ascii_bytes_def)

context fat_disk begin

lemma mount_device:
  assumes "disk_ok am gen html ser m"
  shows "mount d = Some device_volume"
proof -
  have sectors: "d 0 = Some (mbr_text sn)"
    "d 1 = Some (boot_text sn)"
    by (subst sector [OF assms]; simp add: in_trailing_cluster_def image_sector_def)+
  have mbr: "u32_at 454 (mbr_text sn) = 1" "u16_at 510 (mbr_text sn) = 0xaa55" "mbr_text sn ! 450 = 0x0e"
    for sn
    by (simp_all add: mbr_text_def ptable_data4_def lsb_word_def u32_at_def u16_at_def of_le32_def
        of_le16_def PT_FAT16_LBA_def nth_append drop_replicate)
  have boot: "u16_at 0x0b (boot_text sn) = 512" "boot_text sn ! 0x0d = 8" "u16_at 0x0e (boot_text sn) = 1"
    "boot_text sn ! 0x10 = 2" "u16_at 0x11 (boot_text sn) = 512" "u16_at 0x16 (boot_text sn) = 129"
    "u32_at 0x20 (boot_text sn) = 262143" for sn
    by (simp_all add: boot_text_def boot_sector_eval u16_at_def u32_at_def of_le16_def of_le32_def)
  show ?thesis
    unfolding mount_def sectors(1) bind.bind_lunit Let_def mbr sectors(2) boot
    by (simp add: device_volume_def)
qed

end

subsection \<open>The root directory\<close>

lemma dir_entry_bytes_parse:
  assumes "length (de_name e) = 11"
  shows "take 11 (dir_entry_bytes e @ r) = de_name e"
    and "u16_at 26 (dir_entry_bytes e @ r) = unat (de_cluster_lo e)"
    and "u32_at 28 (dir_entry_bytes e @ r) = unat (de_size e)"
  using assms by (simp_all add: dir_entry_bytes_def u16_at_def u32_at_def)

lemma u16_at_add: "u16_at (i + j) s = u16_at j (drop i s)"
  by (simp add: u16_at_def add.commute)

lemma u32_at_add: "u32_at (i + j) s = u32_at j (drop i s)"
  by (simp add: u32_at_def add.commute)

lemma root_entries_names:
  "map de_name (root_entries am gen) =
   [ascii_bytes ''RPI-RP2    '', ascii_bytes ''INDEX   HTM'', ascii_bytes ''INFO_UF2TXT'',
    ascii_bytes ''CRASHDMPXXD'']"
  by (simp add: root_entries_def init_dir_entry_def zero_dir_entry_def BOOT_OFFSET_LABEL_def
      boot_sector_eval ascii_bytes_def)

lemma length_root [simp]: "length (root_entries am gen) = 4"
  by (simp add: root_entries_def)

lemma root_text_drop:
  assumes "i < 4"
  obtains r where "drop (32 * i) (root_text am gen) = dir_entry_bytes (root_entries am gen ! i) @ r"
    "length (de_name (root_entries am gen ! i)) = 11"
proof -
  obtain e0 e1 e2 e3 where es: "root_entries am gen = [e0, e1, e2, e3]"
    by (simp add: root_entries_def)
  then have n: "length (de_name e0) = 11" "length (de_name e1) = 11" "length (de_name e2) = 11"
      "length (de_name e3) = 11"
    using root_entries_names [of am gen] by simp_all
  have "i = 0 \<or> i = 1 \<or> i = 2 \<or> i = 3" using assms by linarith
  then show thesis
    by (elim disjE) (rule that; simp add: root_text_def es n)+
qed

lemma find_file_entry:
  assumes "d (vol_root v) = Some (root_text am gen)" and "i < 4"
  shows "find_file d v (de_name (root_entries am gen ! i)) =
         Some (unat (de_cluster_lo (root_entries am gen ! i)), unat (de_size (root_entries am gen ! i)))"
proof -
  have name: "take 11 (drop (32 * j) (root_text am gen)) = map de_name (root_entries am gen) ! j"
    if "j < 4" for j
    by (rule root_text_drop [OF that, where am = am and gen = gen])
      (use that in \<open>simp add: dir_entry_bytes_def\<close>)
  define names where "names = map de_name (root_entries am gen)"
  have names: "distinct names" "length names = 4" "de_name (root_entries am gen ! i) = names ! i"
    using assms(2) by (simp_all add: names_def) (simp add: root_entries_names ascii_bytes_def)
  have "List.find (\<lambda>j. take 11 (drop (32 * j) (root_text am gen)) = names ! i) [0..<16] = Some i"
    unfolding find_Some_iff using assms(2) names(1,2)
    by (intro exI [of _ i]) (auto simp: name names_def [symmetric] nth_eq_iff_index_eq)
  then show ?thesis
    using assms(1)
    by (simp add: find_file_def u16_at_add u32_at_add names(3))
      (rule root_text_drop [OF assms(2), where am = am and gen = gen],
        simp add: dir_entry_bytes_parse)
qed


subsection \<open>The chains\<close>

context fat_disk begin

lemma fat_link_device:
  assumes "disk_ok am gen html ser m" and "copy < 2" and "c < 33024"
  shows "fat_link d device_volume copy c = Some (unat (fat_entry am c))"
proof -
  let ?lba = "2 + copy * 129 + c div 256"
  have c: "c div 256 < 129" using assms(3) by (simp add: less_mult_imp_div_less)
  have lba: "?lba < 260" using c assms(2) by linarith
  have "(?lba - 2) mod 129 = c div 256" using c by simp
  then have "d ?lba = Some (fat_text am (c div 256))"
    using sector [OF assms(1), of ?lba] lba
    by (simp add: in_trailing_cluster_def image_sector_def disk_sizes del: add_2_eq_Suc)
  moreover have "u16_at (2 * (c mod 256)) (fat_text am (c div 256)) = unat (fat_entry am c)"
    by (simp add: u16_at_def fat_text_def of_le16_u16s del: upt_Suc)
  ultimately show ?thesis by (simp add: fat_link_def device_volume_def)
qed

end

lemma fat_entry_link:
  assumes "addressmap_ok am" and "4 \<le> c" "c < CLUS_CRASH_LAST am"
  shows "unat (fat_entry am c) = c + 1"
proof -
  have "fat_entry am c = of_nat (c + 1)" using assms by (auto simp: fat_entry_def disk_sizes)
  then show ?thesis
    using assms MEM_SIZE_clusters(3) [OF assms(1)] by (simp only: unat_of_nat) simp
qed

context fat_disk begin

lemma cluster_chain_device:
  assumes "disk_ok am gen html ser m" and "copy < 2" and "4 \<le> c" "c + n \<le> CLUS_CRASH_LAST am + 1"
  shows "cluster_chain d device_volume copy n c = Some [c..<c + n]"
  using assms(3,4)
proof (induction n arbitrary: c)
  case 0
  then show ?case by simp
next
  case (Suc n)
  note L = MEM_SIZE_clusters(3) [OF disk_okD(1) [OF assms(1)]]
  show ?case
  proof (cases "n = 0")
    case False
    then have "c < CLUS_CRASH_LAST am" using Suc.prems by simp
    then have "fat_link d device_volume copy c = Some (c + 1)"
      using fat_link_device [OF assms(1,2)] fat_entry_link [OF disk_okD(1) [OF assms(1)]] Suc.prems L
      by simp
    then show ?thesis
      using Suc.IH [of "c + 1"] Suc.prems L False by (simp add: upt_conv_Cons)
  qed simp
qed

end

subsection \<open>The data\<close>

lemma read_sectors_map:
  assumes "\<And>i. i < n \<Longrightarrow> d (lba + i) = Some (f i)"
  shows "read_sectors d lba n = Some (concat (map f [0..<n]))"
  using assms
proof (induction n arbitrary: lba f)
  case 0
  then show ?case by simp
next
  case (Suc n)
  have "read_sectors d (Suc lba) n = Some (concat (map (\<lambda>i. f (Suc i)) [0..<n]))"
    using Suc.prems [of "Suc i" for i] by (intro Suc.IH) simp
  moreover have "d lba = Some (f 0)" using Suc.prems [of 0] by simp
  ultimately show ?case
    by (simp add: upt_conv_Cons map_Suc_upt [symmetric] comp_def del: upt_Suc)
qed

definition cluster_text :: "addressmap \<Rightarrow> generated \<Rightarrow> bytes \<Rightarrow> bytes \<Rightarrow> memory \<Rightarrow> nat \<Rightarrow> bytes" where
  "cluster_text am gen html ser m c = concat (map (data_text am gen html ser m c) [0..<8])"

context fat_disk begin

lemma read_cluster_device:
  assumes "disk_ok am gen html ser m" and "2 \<le> c" "c < CLUS_CRASH_LAST am"
  shows "read_sectors d (292 + (c - 2) * 8) 8 =
         Some (cluster_text am gen html ser m c)"
  unfolding cluster_text_def
proof (rule read_sectors_map)
  fix i :: nat assume i: "i < 8"
  have at: "(292 + (c - 2) * 8 + i - 292) div 8 + 2 = c" "(292 + (c - 2) * 8 + i - 292) mod 8 = i"
    using assms(2) i by auto
  have "292 + (c - 2) * 8 + i < 2 ^ 32"
    using assms(2,3) i MEM_SIZE_clusters(3) [OF disk_okD(1) [OF assms(1)]] by simp
  then show "d (292 + (c - 2) * 8 + i) =
      Some (data_text am gen html ser m c i)"
    using sector [OF assms(1), of "292 + (c - 2) * 8 + i"] at assms(3)
    by (simp add: in_trailing_cluster_def image_sector_def disk_sizes del: diff_add_inverse)
qed

lemma read_clusters_device:
  assumes "disk_ok am gen html ser m" and "\<And>c. c \<in> set cs \<Longrightarrow> 2 \<le> c \<and> c < CLUS_CRASH_LAST am"
  shows "read_clusters d device_volume cs =
         Some (concat (map (cluster_text am gen html ser m) cs))"
  using assms(2)
proof (induction cs)
  case (Cons c cs)
  then show ?case using read_cluster_device [OF assms(1), of c]
    by (simp add: device_volume_def)
qed simp

end

text \<open>The dump of the RAM.\<close>

definition crash_text :: "addressmap \<Rightarrow> memory \<Rightarrow> bytes" where
  "crash_text am m =
     concat (map (\<lambda>s. xxd_text m (SRAM_BASE am + of_nat (128 * s))) [0..<MEM_SIZE am div 128])"

lemma concat_map_blocks:
  "concat (map (\<lambda>c. concat (map (\<lambda>i. f (w * c + i)) [0..<w])) [0..<n]) = concat (map f [0..<w * n])"
proof (induction n)
  case (Suc n)
  have "[0..<w * Suc n] = [0..<w * n] @ map (\<lambda>i. w * n + i) [0..<w]"
    using upt_add_eq_append [of 0 "w * n" w] map_add_upt [of "w * n" w] by (simp add: add.commute)
  with Suc show ?case by (simp add: comp_def)
qed simp

lemma crash_clusters:
  assumes "disk_ok am gen html ser m"
  shows "concat (map (cluster_text am gen html ser m) [4..<CLUS_CRASH_LAST am]) = crash_text am m"
proof -
  let ?f = "\<lambda>s. xxd_text m (SRAM_BASE am + of_nat (128 * s))"
  define n where "n = CLUS_CRASH_LAST am - 4"
  note L = MEM_SIZE_clusters [OF disk_okD(1) [OF assms]]
  have cl: "cluster_text am gen html ser m (c + 4) = concat (map (\<lambda>i. ?f (8 * c + i)) [0..<8])"
    if "c < n" for c
  proof -
    have "c + 4 < CLUS_CRASH_LAST am" using that unfolding n_def by linarith
    then have "data_text am gen html ser m (c + 4) = (\<lambda>i. ?f (8 * c + i))"
      by (intro ext) (simp add: data_text_def disk_sizes algebra_simps)
    then show ?thesis by (simp only: cluster_text_def)
  qed
  have "[4..<CLUS_CRASH_LAST am] = map (\<lambda>c. c + 4) [0..<n]"
    using L(2) map_add_upt [of 4 n] by (simp add: n_def)
  then have "concat (map (cluster_text am gen html ser m) [4..<CLUS_CRASH_LAST am]) =
      concat (map (\<lambda>c. concat (map (\<lambda>i. ?f (8 * c + i)) [0..<8])) [0..<n])"
    using cl by (simp only: map_map comp_def) (rule arg_cong [where f = concat], rule map_cong, simp_all)
  also have "\<dots> = crash_text am m"
    unfolding crash_text_def using concat_map_blocks [of ?f 8 n] L(1) by (simp add: n_def)
  finally show ?thesis .
qed

lemma length_crash_text: "length (crash_text am m) = 512 * (MEM_SIZE am div 128)"
  unfolding crash_text_def by (rule length_concat_map) simp

lemma crash_text_sector:
  assumes "s < MEM_SIZE am div 128"
  shows "take 512 (drop (512 * s) (crash_text am m)) = xxd_text m (SRAM_BASE am + of_nat (128 * s))"
proof (rule nth_equalityI)
  have "512 * s + 512 \<le> length (crash_text am m)"
    using assms unfolding length_crash_text by linarith
  then show len: "length (take 512 (drop (512 * s) (crash_text am m))) =
      length (xxd_text m (SRAM_BASE am + of_nat (128 * s)))"
    by simp
  fix j assume "j < length (take 512 (drop (512 * s) (crash_text am m)))"
  then have j: "j < 512" unfolding len by simp
  then show "take 512 (drop (512 * s) (crash_text am m)) ! j =
      xxd_text m (SRAM_BASE am + of_nat (128 * s)) ! j"
    using nth_concat_map [of "MEM_SIZE am div 128"
        "\<lambda>s. xxd_text m (SRAM_BASE am + of_nat (128 * s))" 512 s j] assms
      \<open>512 * s + 512 \<le> length (crash_text am m)\<close>
    by (simp add: crash_text_def)
qed

text \<open>The dump depends on the RAM only.\<close>

lemma crash_text_cong:
  assumes "addressmap_ok am"
    and "\<And>k. k < MEM_SIZE am \<Longrightarrow> m (SRAM_BASE am + of_nat k) = m' (SRAM_BASE am + of_nat k)"
  shows "crash_text am m = crash_text am m'"
proof -
  have "xxd_text m (SRAM_BASE am + of_nat (128 * s)) = xxd_text m' (SRAM_BASE am + of_nat (128 * s))"
    if "s < MEM_SIZE am div 128" for s
  proof (rule xxd_text_cong)
    fix k :: nat assume "k < 128"
    then have "128 * s + k < MEM_SIZE am" using that by linarith
    then show "m (SRAM_BASE am + of_nat (128 * s) + of_nat k) = m' (SRAM_BASE am + of_nat (128 * s) + of_nat k)"
      using assms(2) [of "128 * s + k"] by (simp add: add.assoc)
  qed
  then show ?thesis
    unfolding crash_text_def by (intro arg_cong [where f = concat] map_cong) simp_all
qed

text \<open>One byte of the RAM, from the text of the file.\<close>

definition dumped_byte :: "bytes \<Rightarrow> nat \<Rightarrow> u8" where
  "dumped_byte file k = dump_byte (take 512 (drop (512 * (k div 128)) file)) (k mod 128)"

lemma dumped_byte_crash_text:
  assumes "addressmap_ok am" and "k < MEM_SIZE am"
  shows "dumped_byte (crash_text am m) k = the (m (SRAM_BASE am + of_nat k))"
proof -
  have "128 dvd MEM_SIZE am" using MEM_SIZE_clusters(1) [OF assms(1)] by simp
  then have s: "k div 128 < MEM_SIZE am div 128" using assms(2) by (auto simp: dvd_def less_mult_imp_div_less)
  have "(of_nat (128 * (k div 128)) + of_nat (k mod 128) :: u32) = of_nat (128 * (k div 128) + k mod 128)"
    by (simp only: of_nat_add)
  then have addr: "(of_nat (128 * (k div 128)) + of_nat (k mod 128) :: u32) = of_nat k" by simp
  show ?thesis
    using dump_byte_xxd_text [of "k mod 128" m "SRAM_BASE am + of_nat (128 * (k div 128))"]
    by (simp only: dumped_byte_def crash_text_sector [OF s] add.assoc addr)
qed


subsection \<open>The files\<close>

context fat_disk begin

lemma find_device_file:
  assumes "disk_ok am gen html ser m"
  shows "find_file d device_volume (ascii_bytes ''INDEX   HTM'') =
      Some (2, length html)"
    and "find_file d device_volume (ascii_bytes ''INFO_UF2TXT'') =
      Some (3, length (info_uf2_txt gen))"
    and "find_file d device_volume (ascii_bytes ''CRASHDMPXXD'') =
      Some (4, CRASH_LEN am)"
proof -
  have root: "d (vol_root device_volume) = Some (root_text am gen)"
    using sector [OF assms, of 260]
    by (simp add: device_volume_def in_trailing_cluster_def image_sector_def)
  note entry = find_file_entry [where d = "d" and v = device_volume, OF root]
  note L = MEM_SIZE_clusters [OF disk_okD(1) [OF assms]] and ok = disk_okD [OF assms]
  have names: "ascii_bytes ''INDEX   HTM'' = de_name (root_entries am gen ! 1)"
    "ascii_bytes ''INFO_UF2TXT'' = de_name (root_entries am gen ! 2)"
    "ascii_bytes ''CRASHDMPXXD'' = de_name (root_entries am gen ! 3)"
    by (simp_all add: root_entries_def init_dir_entry_def zero_dir_entry_def)
  have "length html < 2 ^ 32" "length (info_uf2_txt gen) < 2 ^ 32" "CRASH_LEN am < 2 ^ 32"
    using ok L by (simp_all add: CRASH_LEN_def disk_sizes)
  then have sizes: "unat (of_nat (length html) :: u32) = length html"
    "unat (of_nat (length (info_uf2_txt gen)) :: u32) = length (info_uf2_txt gen)"
    "unat (of_nat (CRASH_LEN am) :: u32) = CRASH_LEN am"
    by (simp_all add: unat_of_nat)
  show "find_file d device_volume (ascii_bytes ''INDEX   HTM'') =
      Some (2, length html)"
    unfolding names using entry [of 1] ok(8) sizes
    by (simp add: root_entries_def init_dir_entry_def disk_sizes)
  show "find_file d device_volume (ascii_bytes ''INFO_UF2TXT'') =
      Some (3, length (info_uf2_txt gen))"
    unfolding names using entry [of 2] sizes
    by (simp add: root_entries_def init_dir_entry_def disk_sizes)
  show "find_file d device_volume (ascii_bytes ''CRASHDMPXXD'') =
      Some (4, CRASH_LEN am)"
    unfolding names using entry [of 3] sizes
    by (simp add: root_entries_def init_dir_entry_def disk_sizes numeral_3_eq_3)
qed

lemma read_crash_file:
  assumes "disk_ok am gen html ser m" and "copy < 2"
  shows "read_file d device_volume copy (ascii_bytes ''CRASHDMPXXD'') =
         Some (crash_text am m)"
proof -
  note L = MEM_SIZE_clusters [OF disk_okD(1) [OF assms(1)]]
  define n where "n = CLUS_CRASH_LAST am - 4"
  have n: "4 + n = CLUS_CRASH_LAST am" using L(2) by (simp add: n_def)
  have size: "CRASH_LEN am = 4096 * n" "length (crash_text am m) = 4096 * n"
    using L(1) by (simp_all add: CRASH_LEN_def disk_sizes length_crash_text n_def)
  have "cluster_chain d device_volume copy n 4 =
      Some [4..<CLUS_CRASH_LAST am]"
    using cluster_chain_device [OF assms, of 4 n] n by simp
  moreover have "(4096 * n + 4095) div 4096 = n" by simp
  moreover have "read_clusters d device_volume [4..<CLUS_CRASH_LAST am] =
      Some (crash_text am m)"
    using read_clusters_device [OF assms(1), of "[4..<CLUS_CRASH_LAST am]"] crash_clusters [OF assms(1)]
    by simp
  ultimately show ?thesis
    using size by (simp add: read_file_def find_device_file [OF assms(1)])
qed

lemma read_small_file:
  assumes "disk_ok am gen html ser m" and "c = 2 \<or> c = 3" and "length text_c \<le> 512" "text_c \<noteq> []"
    and "data_text am gen html ser m c 0 = sector_of text_c"
    and "find_file d device_volume name = Some (c, length text_c)"
  shows "read_file d device_volume copy name = Some text_c"
proof -
  note L = MEM_SIZE_clusters [OF disk_okD(1) [OF assms(1)]]
  have "0 < length text_c" using assms(4) by simp
  then have n: "(length text_c + 4095) div 4096 = Suc 0" using assms(3) by linarith
  have "cluster_text am gen html ser m c = sector_of text_c @ concat (map (data_text am gen html ser m c) [1..<8])"
    by (simp add: cluster_text_def assms(5) upt_rec)
  then have "take (length text_c) (cluster_text am gen html ser m c) = text_c"
    by (simp add: sector_of_def)
  then show ?thesis
    using read_clusters_device [OF assms(1), of "[c]"] assms(2) L(2)
    by (auto simp: read_file_def assms(6) n)
qed

lemma read_text_files:
  assumes "disk_ok am gen html ser m"
  shows "read_file d device_volume copy (ascii_bytes ''INDEX   HTM'') =
      Some (index_text gen html ser)"
    and "read_file d device_volume copy (ascii_bytes ''INFO_UF2TXT'') =
      Some (info_uf2_txt gen)"
proof -
  note ok = disk_okD [OF assms] and len = length_index_text [OF assms]
  show "read_file d device_volume copy (ascii_bytes ''INDEX   HTM'') =
      Some (index_text gen html ser)"
    by (rule read_small_file [OF assms])
      (use ok len in \<open>auto simp: find_device_file [OF assms] data_text_def disk_sizes\<close>)
  have "info_uf2_txt gen \<noteq> []"
    using assms by (auto simp: disk_ok_def generator_main_def read_fully_def bind_eq_Some_conv)
  then show "read_file d device_volume copy (ascii_bytes ''INFO_UF2TXT'') =
      Some (info_uf2_txt gen)"
    by (intro read_small_file [OF assms])
      (use ok in \<open>auto simp: find_device_file [OF assms] data_text_def disk_sizes\<close>)
qed

end

subsection \<open>Properties\<close>

text \<open>C4: A host that mounts the disk and reads \<open>CRASHDMP.XXD\<close>, along either copy of the allocation
  table, gets the dump of the whole RAM: byte \<open>k\<close> of the RAM is what the text says at its place, and
  the file has four characters for each byte.\<close>

theorem host_reads_crash_dump:
  assumes "disk_ok am gen html ser m" and "copy < 2"
  shows "\<exists>v file.
      mount (device_disk am gen ser m now bds) = Some v \<and>
      read_file (device_disk am gen ser m now bds) v copy (ascii_bytes ''CRASHDMPXXD'') = Some file \<and>
      length file = CRASH_LEN am \<and>
      (\<forall>k < MEM_SIZE am. m (SRAM_BASE am + of_nat k) = Some (dumped_byte file k))"
proof -
  note ok = disk_okD [OF assms(1)]
  have "m (SRAM_BASE am + of_nat k) = Some (dumped_byte (crash_text am m) k)" if "k < MEM_SIZE am" for k
    using dumped_byte_crash_text [OF ok(1) that, of m] ok(2) that by (auto simp: sram_mapped_def)
  moreover have "length (crash_text am m) = CRASH_LEN am"
    using MEM_SIZE_clusters(1) [OF ok(1)] by (simp add: length_crash_text CRASH_LEN_def disk_sizes)
  ultimately show ?thesis
    using drive.mount_device [OF assms(1)] drive.read_crash_file [OF assms] by auto
qed

theorem host_reads_crash_dump_witness:
  "\<exists>v file.
     mount (device_disk rp2040 repo_generated (replicate 12 0x30) zero_ram 7 \<lparr>serial_number32 = 0, serial_number_valid = False\<rparr>) = Some v \<and>
     read_file (device_disk rp2040 repo_generated (replicate 12 0x30) zero_ram 7
       \<lparr>serial_number32 = 0, serial_number_valid = False\<rparr>) v 1 (ascii_bytes ''CRASHDMPXXD'') = Some file \<and>
     length file = 1081344"
  using host_reads_crash_dump [OF repo_disk_ok, of 1]
  by (force simp: CRASH_LEN_def MEM_SIZE_rp2040 disk_sizes)

text \<open>C6: The host finds the web page with both placeholders replaced by the serial number string, at
  its full length, and the information file as it is in the repository.\<close>

theorem host_reads_text_files:
  assumes "disk_ok am gen html ser m"
  shows "\<exists>v.
      mount (device_disk am gen ser m now bds) = Some v \<and>
      read_file (device_disk am gen ser m now bds) v copy (ascii_bytes ''INDEX   HTM'') =
        Some (index_text gen html ser) \<and>
      length (index_text gen html ser) = length html \<and>
      read_file (device_disk am gen ser m now bds) v copy (ascii_bytes ''INFO_UF2TXT'') =
        Some (info_uf2_txt gen)"
  using drive.mount_device [OF assms] drive.read_text_files [OF assms] length_index_text [OF assms] by simp

theorem host_reads_text_files_witness:
  "\<exists>v. mount (device_disk rp2040 repo_generated (replicate 12 0x30) zero_ram 7
         \<lparr>serial_number32 = 0, serial_number_valid = False\<rparr>) = Some v \<and>
     read_file (device_disk rp2040 repo_generated (replicate 12 0x30) zero_ram 7
         \<lparr>serial_number32 = 0, serial_number_valid = False\<rparr>) v 0 (ascii_bytes ''INFO_UF2TXT'') = Some repo_info"
  using host_reads_text_files [OF repo_disk_ok, of 7 "\<lparr>serial_number32 = 0, serial_number_valid = False\<rparr>" 0]
  by (auto simp: repo_generated_def)

text \<open>C7: Both copies of the allocation table hold the same links: the two small files are one cluster
  each, with an end mark, and every cluster of the dump, its last one included, leads to the cluster with the
  next number.\<close>

theorem fat_links_of_the_files:
  assumes "disk_ok am gen html ser m" and "copy < 2" and "2 \<le> c" "c < CLUS_CRASH_LAST am"
  shows "fat_link (device_disk am gen ser m now bds) device_volume copy c =
         Some (if c < CLUS_CRASH_START then 0xffff else c + 1)"
  using drive.fat_link_device [OF assms(1,2), of c now bds] fat_entry_link [OF disk_okD(1) [OF assms(1)], of c]
    MEM_SIZE_clusters(3) [OF disk_okD(1) [OF assms(1)]] assms(3,4)
  by (auto simp: disk_sizes fat_entry_def)

theorem fat_links_of_the_files_witness:
  "fat_link (device_disk rp2040 repo_generated (replicate 12 0x30) zero_ram 7
     \<lparr>serial_number32 = 0, serial_number_valid = False\<rparr>) device_volume 1 255 = Some 256"
  using fat_links_of_the_files [OF repo_disk_ok, of 1 255]
  by (simp add: CLUS_CRASH_LAST_def MEM_SIZE_rp2040 disk_sizes)

text \<open>C8: The file of the dump fills the clusters from 4 to the one in front of \<open>CLUS_CRASH_LAST\<close>
  exactly, but the chain in the table never ends there: the last cluster of the dump (267 on the RP2040) has no
  end mark and leads to the cluster \<open>CLUS_CRASH_LAST\<close> behind the dump (268).  The end mark is meant for
  that cluster, and since the patch compares an index relative to the sector of the table, it has one only when
  its entry is in the first sector; otherwise, as on the RP2040, it leads to one more cluster (269).  The cluster
  after \<open>CLUS_CRASH_LAST\<close> is marked free.\<close>

theorem fat_end_of_chain:
  assumes "disk_ok am gen html ser m" and "copy < 2"
  shows "CRASH_LEN am = 4096 * (CLUS_CRASH_LAST am - 4) \<and>
         fat_link (device_disk am gen ser m now bds) device_volume copy (CLUS_CRASH_LAST am - 1) =
           Some (CLUS_CRASH_LAST am) \<and>
         fat_link (device_disk am gen ser m now bds) device_volume copy (CLUS_CRASH_LAST am) =
           Some (if CLUS_CRASH_LAST am < 256 then 0xffff else CLUS_CRASH_LAST am + 1) \<and>
         fat_link (device_disk am gen ser m now bds) device_volume copy (CLUS_CRASH_LAST am + 1) = Some 0"
proof -
  let ?link = "fat_link (device_disk am gen ser m now bds) device_volume copy"
  note ok = disk_okD(1) [OF assms(1)]
  note L = MEM_SIZE_clusters [OF ok]
  have "CRASH_LEN am = 4096 * (CLUS_CRASH_LAST am - 4)" by (simp add: CRASH_LEN_def disk_sizes L(1))
  moreover have "?link (CLUS_CRASH_LAST am - 1) = Some (CLUS_CRASH_LAST am)"
    using drive.fat_link_device [OF assms, of "CLUS_CRASH_LAST am - 1" now bds]
      fat_entry_link [OF ok, of "CLUS_CRASH_LAST am - 1"] L(2,3) by simp
  moreover have "unat (of_nat (CLUS_CRASH_LAST am + 1) :: u16) = CLUS_CRASH_LAST am + 1"
    using L by (simp only: unat_of_nat) simp
  then have "unat (fat_entry am (CLUS_CRASH_LAST am)) =
      (if CLUS_CRASH_LAST am < 256 then 0xffff else CLUS_CRASH_LAST am + 1)"
    using L by (simp add: fat_entry_def disk_sizes)
  then have "?link (CLUS_CRASH_LAST am) = Some (if CLUS_CRASH_LAST am < 256 then 0xffff else CLUS_CRASH_LAST am + 1)"
    using drive.fat_link_device [OF assms, of "CLUS_CRASH_LAST am" now bds] L by auto
  moreover have "fat_entry am (CLUS_CRASH_LAST am + 1) = 0"
    using L by (simp add: fat_entry_def disk_sizes)
  then have "?link (CLUS_CRASH_LAST am + 1) = Some 0"
    using drive.fat_link_device [OF assms, of "CLUS_CRASH_LAST am + 1" now bds] L by auto
  ultimately show ?thesis by blast
qed

theorem fat_end_of_chain_witness:
  "let link = fat_link (device_disk rp2040 repo_generated (replicate 12 0x30) zero_ram 7
     \<lparr>serial_number32 = 0, serial_number_valid = False\<rparr>) device_volume 0
   in CRASH_LEN rp2040 = 4096 * 264 \<and> link 267 = Some 268 \<and> link 268 = Some 269 \<and> link 269 = Some 0"
  using fat_end_of_chain [OF repo_disk_ok, of 0 7 "\<lparr>serial_number32 = 0, serial_number_valid = False\<rparr>"]
  by (simp add: CLUS_CRASH_LAST_def MEM_SIZE_rp2040 disk_sizes)

end
