(* ===== verification/Usb_Mount.thy ===== *)
theory Usb_Mount
  imports Usb_Read Host_View
begin

text \<open>
  The FAT16 driver of \<open>Host_View\<close> on the wire: every sector that it asks for is a command READ(10) of
  \<open>Usb_Read\<close>.  The disk on the wire serves the image, and goes on serving it after any commands.
\<close>

definition wire_disk ::
    "program \<Rightarrow> nat \<Rightarrow> u8 \<times> bool \<Rightarrow> u8 \<times> bool \<Rightarrow> 'a boot_state_scheme \<Rightarrow> disk" where
  "wire_disk prog n pos opos s lba = map_option fst (host_command prog n pos opos (read10 0 (of_nat lba) 1) 8 s)"

text \<open>States that a host reaches with completed reads.\<close>

inductive reads_completed ::
    "program \<Rightarrow> nat \<Rightarrow> (u8 \<times> bool) \<times> (u8 \<times> bool) \<times> 'a boot_state_scheme \<Rightarrow>
     (u8 \<times> bool) \<times> (u8 \<times> bool) \<times> 'a boot_state_scheme \<Rightarrow> bool"
  for prog :: program and n :: nat and a :: "(u8 \<times> bool) \<times> (u8 \<times> bool) \<times> 'a boot_state_scheme" where
  no_read: "reads_completed prog n a a"
| one_more: "reads_completed prog n a (pos, opos, s) \<Longrightarrow>
    host_command prog n pos opos (read10 tag lba blocks) (8 * unat blocks) s = Some (data, status, t) \<Longrightarrow>
    0 < unat blocks \<Longrightarrow> \<forall>i < unat blocks. \<not> in_trailing_cluster (prog_am prog) (unat (lba + of_nat i)) \<Longrightarrow>
    reads_completed prog n a ((next_pos ^^ Suc (8 * unat blocks)) pos, next_pos opos, t)"

text \<open>A device that serves the disk whose parameters are those of \<open>s0\<close>.\<close>

definition serving :: "program \<Rightarrow> bytes \<Rightarrow> 'a boot_state_scheme \<Rightarrow> (u8 \<times> bool) \<times> (u8 \<times> bool) \<times> 'a boot_state_scheme \<Rightarrow> bool" where
  "serving prog html s0 c \<longleftrightarrow>
     (case c of (pos, opos, s) \<Rightarrow> ready pos opos s \<and> surroundings s = surroundings s0 \<and> length (sector_buf s) = 512 \<and>
        disk_ok (prog_am prog) (prog_gen prog) html (serial_number_string s) (mem s))"

lemma surroundingsD:
  assumes "surroundings t = surroundings s"
  shows "mem t = mem s" "serial_number_string t = serial_number_string s" "length (sector_buf t) = length (sector_buf s)"
    "volume_serial (timerawl t) (boot_device t) = volume_serial (timerawl s) (boot_device s)"
  using assms unfolding surroundings_def prod.inject by blast+

lemma reads_keep_serving:
  assumes "reads_completed prog n a b" "serving prog html s0 a" "5 \<le> n"
  shows "serving prog html s0 b"
  using assms
proof induction
  case (one_more pos opos s tag lba blocks data status t)
  then have s: "ready pos opos s" "surroundings s = surroundings s0" "length (sector_buf s) = 512"
    "disk_ok (prog_am prog) (prog_gen prog) html (serial_number_string s) (mem s)"
    by (simp_all add: serving_def)
  obtain u where u: "host_command prog n pos opos (read10 tag lba blocks) (8 * unat blocks) s =
      Some (concat (map (\<lambda>i. image_sector (prog_am prog) (prog_gen prog) html (serial_number_string s) (mem s)
        (volume_serial (timerawl s) (boot_device s)) (unat (lba + of_nat i))) [0 ..< unat blocks]), passed tag, u)"
    "ready ((next_pos ^^ Suc (8 * unat blocks)) pos) (next_pos opos) u" "surroundings u = surroundings s"
    using read10_completes [OF s(1) serves_image [OF s(4) one_more.hyps(4)] one_more.hyps(3) s(3) one_more.prems(2), of tag] by blast
  then have "t = u" using one_more.hyps(2) by simp
  then show ?case using u(2,3) s surroundingsD [OF u(3)] by (simp add: serving_def)
qed

lemma wire_disk_sector:
  assumes "serving prog html s0 (pos, opos, s)" "5 \<le> n" "\<not> in_trailing_cluster (prog_am prog) lba" "lba < 2 ^ 32"
  shows "wire_disk prog n pos opos s lba = Some (image_sector (prog_am prog) (prog_gen prog) html (serial_number_string s0)
      (mem s0) (volume_serial (timerawl s0) (boot_device s0)) lba)"
proof -
  have s: "ready pos opos s" "surroundings s = surroundings s0" "length (sector_buf s) = 512"
    "disk_ok (prog_am prog) (prog_gen prog) html (serial_number_string s) (mem s)"
    using assms(1) by (simp_all add: serving_def)
  have lba: "unat (of_nat lba :: u32) = lba" using assms(4) by (simp add: unat_of_nat)
  then have "\<forall>i < unat (1 :: u16). \<not> in_trailing_cluster (prog_am prog) (unat (of_nat lba + of_nat i :: u32))"
    using assms(3) by simp
  from read10_completes [OF s(1) serves_image [OF s(4) this] _ s(3) assms(2), of 0] show ?thesis
    using lba surroundingsD [OF s(2)] by (auto simp: wire_disk_def)
qed

lemma wire_fat_disk:
  assumes "serving prog html s0 (pos, opos, s)" "5 \<le> n"
  shows "fat_disk (prog_am prog) (prog_gen prog) html (serial_number_string s0) (mem s0)
      (volume_serial (timerawl s0) (boot_device s0)) (wire_disk prog n pos opos s)"
  by unfold_locales (rule wire_disk_sector [OF assms])

text \<open>C2: A host that mounts the disk over USB and reads \<open>CRASHDMP.XXD\<close>, each sector with a command block,
  eight packets of data and a status, gets a text from which every byte of the RAM can be read back.  This
  holds after any number of other completed reads.\<close>

theorem host_dumps_ram_over_usb:
  assumes "ready pos0 opos0 s0" "length (sector_buf s0) = 512" "5 \<le> n" "copy < 2"
    and "disk_ok (prog_am prog) (prog_gen prog) html (serial_number_string s0) (mem s0)"
    and "reads_completed prog n (pos0, opos0, s0) (pos, opos, s)"
  shows "\<exists>v file. mount (wire_disk prog n pos opos s) = Some v \<and>
      read_file (wire_disk prog n pos opos s) v copy (ascii_bytes ''CRASHDMPXXD'') = Some file \<and>
      (\<forall>k < MEM_SIZE (prog_am prog). mem s0 (SRAM_BASE (prog_am prog) + of_nat k) = Some (dumped_byte file k))"
proof -
  have "serving prog html s0 (pos0, opos0, s0)" using assms(1,2,5) by (simp add: serving_def)
  then have wire: "fat_disk (prog_am prog) (prog_gen prog) html (serial_number_string s0) (mem s0)
      (volume_serial (timerawl s0) (boot_device s0)) (wire_disk prog n pos opos s)"
    by (intro wire_fat_disk reads_keep_serving [OF assms(6)] assms(3))
  note ok = disk_okD [OF assms(5)]
  have "mem s0 (SRAM_BASE (prog_am prog) + of_nat k) = Some (dumped_byte (crash_text (prog_am prog) (mem s0)) k)"
    if "k < MEM_SIZE (prog_am prog)" for k
    using dumped_byte_crash_text [OF ok(1) that, of "mem s0"] ok(2) that by (auto simp: sram_mapped_def)
  then show ?thesis using fat_disk.mount_device [OF wire assms(5)] fat_disk.read_crash_file [OF wire assms(5,4)] by auto
qed

theorem host_dumps_ram_over_usb_witness:
  "\<exists>v file. mount (wire_disk (example_program\<lparr>prog_gen := repo_generated\<rparr>) 5 (0, False) (0, False) example_ready) = Some v \<and>
     read_file (wire_disk (example_program\<lparr>prog_gen := repo_generated\<rparr>) 5 (0, False) (0, False) example_ready) v 1
       (ascii_bytes ''CRASHDMPXXD'') = Some file \<and> dumped_byte file 0x1234 = 0"
proof -
  have "disk_ok rp2040 repo_generated repo_welcome (serial_number_string example_ready) (mem example_ready)"
    "length (sector_buf example_ready) = 512" "mem example_ready = zero_ram"
    using repo_disk_ok by (simp_all add: example_ready_def usb_boot_state_def)
  then obtain v f where f:
    "mount (wire_disk (example_program\<lparr>prog_gen := repo_generated\<rparr>) 5 (0, False) (0, False) example_ready) = Some v"
    "read_file (wire_disk (example_program\<lparr>prog_gen := repo_generated\<rparr>) 5 (0, False) (0, False) example_ready) v 1
       (ascii_bytes ''CRASHDMPXXD'') = Some f"
    "\<forall>k < MEM_SIZE rp2040. zero_ram (SRAM_BASE rp2040 + of_nat k) = Some (dumped_byte f k)"
    using host_dumps_ram_over_usb [OF ready_example _ _ _ _ no_read, of 5 1 "example_program\<lparr>prog_gen := repo_generated\<rparr>" repo_welcome]
    by (auto simp: example_program_def)
  have "zero_ram (SRAM_BASE rp2040 + of_nat 0x1234) = Some 0" by (simp add: rp2040_def zero_ram_def)
  then have "dumped_byte f 0x1234 = 0" using f(3) [rule_format, of "0x1234"] by (simp add: MEM_SIZE_rp2040)
  then show ?thesis using f(1,2) by blast
qed

end
