(* ===== verification/Usb_Configure.thy ===== *)
theory Usb_Configure
  imports Usb_Start Usb_Mount
begin

text \<open>
  The request SET_CONFIGURATION.  Whatever state the interrupts have left, the resets of the endpoints bring the
  mass storage class back to the state in which it waits for a command, with the positions of the host at zero.
\<close>

subsection \<open>The reset of an endpoint\<close>

text \<open>The data toggle after the buffers are taken back: a packet that was not sent is not counted.\<close>

definition pid_after_reset :: "usb_endpoint \<Rightarrow> buf_ctrl \<times> buf_ctrl \<Rightarrow> u8" where
  "pid_after_reset ep w =
     (if (bc_avail (fst w) \<or> bc_avail (snd w)) \<and> (\<not> double_buffered ep \<or> owned_buffer_count ep = 1)
      then next_pid ep XOR 1 else next_pid ep)"

definition ep_after_reset :: "bool \<Rightarrow> usb_endpoint \<Rightarrow> buf_ctrl \<times> buf_ctrl \<Rightarrow> usb_endpoint" where
  "ep_after_reset hard ep w =
     ep\<lparr>current_transfer := None, next_pid := (if hard then 0 else pid_after_reset ep w),
        owned_buffer_count := ep_buffer_count ep, current_take_buffer := 0, current_give_buffer := 0,
        first_buffer_after_reset := True, current_hw_buffer := (current_hw_buffer ep)\<lparr>buf_valid := False\<rparr>,
        halt_state := HS_NONE\<rparr>"

text \<open>The registers that say what is pending, and the address; a reset changes only those of the abort.\<close>

definition lines_of :: "usb_hw \<Rightarrow> _" where
  "lines_of h = (buf_status h, buf_cpu_should_handle h, sie_setup_rec h, ints_setup_req h, ints_buff_status h, ints_bus_reset h,
     ints_error h, dev_addr_ctrl h)"

definition reset_at :: "bool \<Rightarrow> epid \<Rightarrow> usb_hw \<Rightarrow> 'a usb_state_scheme \<Rightarrow> 'a usb_state_scheme" where
  "reset_at hard e h s =
     (let ep = endpoints s e; key = (ep_num ep, ep_in ep)
      in s\<lparr>endpoints := (endpoints s)(e := ep_after_reset hard ep (buf_ctrls s key)),
           buf_ctrls := (buf_ctrls s)(key := (zero_buf_ctrl, zero_buf_ctrl)), hw := h\<rparr>)"

lemma halt_none_same: "halt_state (endpoints s e) = HS_NONE \<Longrightarrow> upd_ep e (halt_state_update (\<lambda>_. HS_NONE)) s = s"
proof -
  assume "halt_state (endpoints s e) = HS_NONE"
  then have "(endpoints s e)\<lparr>halt_state := HS_NONE\<rparr> = endpoints s e" by (cases "endpoints s e") simp
  then show ?thesis by (simp add: upd_ep_def)
qed

lemma reset_at_fields [simp]:
  "device (reset_at hard e h s) = device s" "hw (reset_at hard e h s) = h" "transfers (reset_at hard e h s) = transfers s" "dpram (reset_at hard e h s) = dpram s"
  "msc_one_time (reset_at hard e h s') = msc_one_time s'" "msc (reset_at hard e h s') = msc s'"
  "endpoints (reset_at hard e h s) =
     (endpoints s)(e := ep_after_reset hard (endpoints s e) (buf_ctrls s (ep_num (endpoints s e), ep_in (endpoints s e))))"
  "buf_ctrls (reset_at hard e h s) =
     (buf_ctrls s)((ep_num (endpoints s e), ep_in (endpoints s e)) := (zero_buf_ctrl, zero_buf_ctrl))"
  by (simp_all add: reset_at_def Let_def)

lemma ep_after_reset_fields [simp]:
  "ep_wiring (ep_after_reset hard ep w) = ep_wiring ep" "current_transfer (ep_after_reset hard ep w) = None"
  "on_stall_change (ep_after_reset hard ep w) = on_stall_change ep" "default_transfer (ep_after_reset hard ep w) = default_transfer ep"
  "halt_state (ep_after_reset hard ep w) = HS_NONE" "owned_buffer_count (ep_after_reset hard ep w) = ep_buffer_count ep"
  by (simp_all add: ep_after_reset_def)

text \<open>The endpoint after \<open>usb_reset_buffers\<close>.\<close>

definition buffers_back :: "usb_endpoint \<Rightarrow> buf_ctrl \<times> buf_ctrl \<Rightarrow> usb_endpoint" where
  "buffers_back ep w =
     ep\<lparr>next_pid := pid_after_reset ep w, owned_buffer_count := ep_buffer_count ep, current_take_buffer := 0,
        current_give_buffer := 0, first_buffer_after_reset := True\<rparr>"

lemma reset_buffers_eq:
  "\<exists>h. lines_of h = lines_of (hw s) \<and> usb_reset_buffers e s =
     (let ep = endpoints s e; key = (ep_num ep, ep_in ep)
      in s\<lparr>endpoints := (endpoints s)(e := buffers_back ep (buf_ctrls s key)),
           buf_ctrls := (buf_ctrls s)(key := (zero_buf_ctrl, zero_buf_ctrl)), hw := h\<rparr>)"
proof -
  obtain ep where ep: "endpoints s e = ep" by simp
  obtain w where w: "buf_ctrls s (ep_num ep, ep_in ep) = w" by simp
  define taken where "taken = (\<lambda>ep. ep\<lparr>owned_buffer_count := ep_buffer_count ep, current_take_buffer := 0,
      current_give_buffer := 0, first_buffer_after_reset := True\<rparr>)"
  have "buffers_back ep w = taken (if (bc_avail (fst w) \<or> bc_avail (snd w)) \<and> (\<not> double_buffered ep \<or> owned_buffer_count ep = 1)
      then next_pid_update (\<lambda>p. p XOR 1) ep else ep)"
    by (cases ep) (simp add: buffers_back_def pid_after_reset_def taken_def ep_buffer_count_def)
  then show ?thesis
    by (intro exI [of _ "hw (usb_reset_buffers e s)"])
      (simp add: lines_of_def usb_reset_buffers_def upd_ep_def buf_ctrl_wide_def set_buf_ctrl_wide_def Let_def ep w taken_def)
qed

lemma reset_endpoint_steps:
  "\<exists>h. lines_of h = lines_of (hw s) \<and> usb_reset_endpoint cb e hard s = do {
     t \<leftarrow> (if halt_state (endpoints s e) \<noteq> HS_NONE
          then (case on_stall_change (endpoints s e) of
                  Some f \<Rightarrow> call_void cb (On_stall_change f e) (reset_at hard e h s) | None \<Rightarrow> Some (reset_at hard e h s))
          else Some (reset_at hard e h s));
     if current_config_num (device t) \<noteq> 0 \<and> default_transfer (endpoints t e) \<noteq> None \<and> current_transfer (endpoints t e) = None
     then start_default_transfer cb e t else Some t
   }"
proof -
  obtain ep where ep: "endpoints s e = ep" by simp
  define w where "w = buf_ctrls s (ep_num ep, ep_in ep)"
  define E where "E = current_hw_buffer_update (buf_valid_update (\<lambda>_. False))
      (if hard then next_pid_update (\<lambda>_. 0) (buffers_back (ep\<lparr>current_transfer := None\<rparr>) w)
       else buffers_back (ep\<lparr>current_transfer := None\<rparr>) w)"
  have E: "E\<lparr>halt_state := HS_NONE\<rparr> = ep_after_reset hard ep w" "halt_state E = halt_state ep"
    "on_stall_change E = on_stall_change ep"
    by (cases ep; simp add: E_def buffers_back_def ep_after_reset_def pid_after_reset_def ep_buffer_count_def)+
  define v where "v = usb_reset_buffers e (upd_ep e (current_transfer_update (\<lambda>_. None)) s)"
  obtain h where v: "v = s\<lparr>endpoints := (endpoints s)(e := buffers_back (ep\<lparr>current_transfer := None\<rparr>) w),
      buf_ctrls := (buf_ctrls s)((ep_num ep, ep_in ep) := (zero_buf_ctrl, zero_buf_ctrl)), hw := h\<rparr>"
      "lines_of h = lines_of (hw s)"
    using reset_buffers_eq [of "upd_ep e (current_transfer_update (\<lambda>_. None)) s" e]
    unfolding v_def by (auto simp: upd_ep_def ep w_def Let_def)
  define u where "u = invalidate_buffer e (if hard then upd_ep e (next_pid_update (\<lambda>_. 0)) v else v)"
  have u: "u = s\<lparr>endpoints := (endpoints s)(e := E),
      buf_ctrls := (buf_ctrls s)((ep_num ep, ep_in ep) := (zero_buf_ctrl, zero_buf_ctrl)), hw := h\<rparr>"
    by (simp add: u_def v(1) upd_ep_def invalidate_buffer_def E_def)
  have halt: "halt_state (endpoints u e) = halt_state ep" by (simp add: u E)
  have "upd_ep e (halt_state_update (\<lambda>_. HS_NONE)) u = reset_at hard e h s"
    by (simp add: u upd_ep_def E reset_at_def ep w_def [symmetric] Let_def)
  moreover from this have "halt_state ep = HS_NONE \<Longrightarrow> u = reset_at hard e h s"
    using halt_none_same [of u e] halt by simp
  moreover have "on_stall_change (endpoints (reset_at hard e h s) e) = on_stall_change ep" by (simp add: ep)
  moreover note halt v(2)
  ultimately show ?thesis
    unfolding usb_reset_endpoint_def Let_def v_def [symmetric] u_def [symmetric] ep
    by (intro exI [of _ h], cases "halt_state ep = HS_NONE"; cases "on_stall_change ep") simp_all
qed

lemma plain_reset:
  assumes "on_stall_change (endpoints s e) = None \<or> halt_state (endpoints s e) = HS_NONE"
  shows "\<exists>h. lines_of h = lines_of (hw s) \<and> usb_reset_endpoint cb e hard s =
    (if current_config_num (device s) \<noteq> 0 \<and> default_transfer (endpoints s e) \<noteq> None
     then start_default_transfer cb e (reset_at hard e h s) else Some (reset_at hard e h s))"
  using reset_endpoint_steps [of s cb e hard] assms by auto

lemma wired_step:
  assumes "wired s" "view.ok wiring set_up (wiring s) m" "m = Some t" shows "wired t"
  using wires.okD [OF assms(2) wired_set_up [OF assms(1)] assms(3)] assms(1) wired_wiring by blast

lemma wiredD:
  assumes "wired s"
  shows "planned e (endpoints s e)" "tr_type (transfers s Picoboot_cmd_transfer) = Some Picoboot_cmd_type" "length (dpram s) = 4096"
    "length (sector_buf s) = 512"
    "default_transfer (endpoints s Msc_out) \<noteq> None \<Longrightarrow>
       default_transfer (endpoints s Msc_out) = Some Msc_cmd_transfer \<and> tr_type (transfers s Msc_cmd_transfer) = Some Msc_cmd_type"
  using assms by (simp_all add: wired_def buffer_sizes_def commands_set_up_def split: if_splits)

subsection \<open>The resets of the other endpoints\<close>

text \<open>What the mass storage class owns.\<close>

definition msc_core :: "'a usb_state_scheme \<Rightarrow> _" where
  "msc_core s =
     (endpoints s Msc_in, endpoints s Msc_out, transfers s Msc_cmd_transfer, buf_ctrls s (1, True), buf_ctrls s (2, False))"

definition msc_side :: "'a usb_state_scheme \<Rightarrow> _" where
  "msc_side s = (msc_core s, current_config_num (device s), lines_of (hw s))"

lemma other_reset:
  assumes "wired s" "e \<noteq> Msc_in" "e \<noteq> Msc_out"
  shows "\<exists>t. usb_reset_endpoint cb e hard s = Some t \<and> msc_side t = msc_side s \<and>
    (e \<noteq> Control_in \<longrightarrow> endpoints t Control_in = endpoints s Control_in)"
proof -
  note p = wiredD(1) [OF assms(1), of e, unfolded planned_def]
  from p assms(3) have "on_stall_change (endpoints s e) = None \<or> halt_state (endpoints s e) = HS_NONE" using assms(2) by blast
  from plain_reset [OF this, of cb hard] obtain h where h: "lines_of h = lines_of (hw s)" "usb_reset_endpoint cb e hard s =
    (if current_config_num (device s) \<noteq> 0 \<and> default_transfer (endpoints s e) \<noteq> None
     then start_default_transfer cb e (reset_at hard e h s) else Some (reset_at hard e h s))" by blast
  have side: "msc_side (reset_at hard e h s) = msc_side s \<and>
      (e \<noteq> Control_in \<longrightarrow> endpoints (reset_at hard e h s) Control_in = endpoints s Control_in)"
    using p assms(2,3) h(1) by (cases e) (auto simp: msc_side_def msc_core_def)
  show ?thesis
  proof (cases "e = Picoboot_out")
    case True
    have "start_default_transfer cb e (reset_at hard e h s) = Some (default_started e Picoboot_cmd_transfer Picoboot_cmd_type (reset_at hard e h s))"
      using p True wiredD(2) [OF assms(1)] by (intro start_default_out) (auto simp: ep_after_reset_def ep_buffer_count_def)
    moreover have "msc_side (default_started e Picoboot_cmd_transfer Picoboot_cmd_type (reset_at hard e h s)) = msc_side s"
      "endpoints (default_started e Picoboot_cmd_transfer Picoboot_cmd_type (reset_at hard e h s)) Control_in = endpoints s Control_in"
      using p True side by (auto simp: msc_side_def msc_core_def default_started_def ep_after_reset_def Let_def)
    ultimately show ?thesis using h side by auto
  qed (use h side p assms(3) in auto)
qed

subsection \<open>The resets of the mass storage class\<close>

text \<open>After the next reset the host's position is zero.\<close>

definition fresh_in :: "'a usb_state_scheme \<Rightarrow> bool" where
  "fresh_in s \<longleftrightarrow> halt_state (endpoints s Msc_in) = HS_NONE \<and> pid_after_reset (endpoints s Msc_in) (buf_ctrls s (1, True)) = 0"

definition fresh_out :: "'a usb_state_scheme \<Rightarrow> bool" where
  "fresh_out s \<longleftrightarrow> halt_state (endpoints s Msc_out) = HS_NONE \<and> pid_after_reset (endpoints s Msc_out) (buf_ctrls s (2, False)) = 0"

definition aside :: "'a usb_state_scheme \<Rightarrow> _" where
  "aside s = (device s, lines_of (hw s), endpoints s Control_in)"

definition in_side :: "'a usb_state_scheme \<Rightarrow> _" where
  "in_side s = (endpoints s Msc_in, buf_ctrls s (1, True), dpram s, aside s)"

lemma wiring_reset_at: "wiring (reset_at hard e h s) = wiring s"
  by (simp add: reset_at_def wiring_defs ep_after_reset_def fun_eq_iff Let_def)

lemma wired_reset_at: "wired (reset_at hard e h s) = wired s"
  by (rule wired_wiring [OF wiring_reset_at])

lemma reset_in_idle:
  assumes "wired s" "hard \<or> fresh_in s"
  shows "idle_in (reset_at hard Msc_in h s)" "oldest (endpoints (reset_at hard Msc_in h s) Msc_in) = (0, False)"
    "fresh_in (reset_at hard Msc_in h s)"
  using assms(2) wiredD(1) [OF assms(1), of Msc_in] wiredD(3) [OF assms(1)]
  by (auto simp: idle_in_def in_ep_ok_def in_flight_packets_def planned_def ep_after_reset_def ep_buffer_count_def fresh_in_def
      oldest_def Let_def) (auto simp: pid_after_reset_def zero_buf_ctrl_def)

lemma status_given_fresh:
  assumes "status_given bs s" "oldest (endpoints s Msc_in) = (0, False)"
  shows "fresh_in s"
proof -
  note st = assms(1) [unfolded status_given_def Let_def in_ep_ok_def in_flight_packets_def]
  have "next_pid (endpoints s Msc_in) = 1" "bc_avail (fst (buf_ctrls s (1, True))) \<or> bc_avail (snd (buf_ctrls s (1, True)))"
    using st assms(2) by (auto simp: oldest_def holds_def Let_def split: if_splits)
  then show ?thesis using st by (simp add: fresh_in_def pid_after_reset_def)
qed

lemma msc_in_hard_reset:
  assumes "wired s"
  shows "\<exists>t. usb_hard_reset_endpoint (run prog (Suc (Suc m))) Msc_in s = Some t \<and> fresh_in t \<and> aside t = aside s"
proof (cases "on_stall_change (endpoints s Msc_in) = None \<or> halt_state (endpoints s Msc_in) = HS_NONE")
  case True
  have "default_transfer (endpoints s Msc_in) = None" using wiredD(1) [OF assms, of Msc_in] by (simp add: planned_def)
  then show ?thesis
    using plain_reset [OF True, of "run prog (Suc (Suc m))" True] reset_in_idle(3) [OF assms, of True]
    by (auto simp: usb_hard_reset_endpoint_def aside_def simp del: run.simps)
next
  case False
  let ?cb = "run prog (Suc (Suc m))"
  obtain f where f: "on_stall_change (endpoints s Msc_in) = Some f" "halt_state (endpoints s Msc_in) \<noteq> HS_NONE" using False by auto
  obtain h where h: "lines_of h = lines_of (hw s)" "usb_hard_reset_endpoint ?cb Msc_in s = do {
      t \<leftarrow> call_void ?cb (On_stall_change f Msc_in) (reset_at True Msc_in h s);
      if current_config_num (device t) \<noteq> 0 \<and> default_transfer (endpoints t Msc_in) \<noteq> None \<and> current_transfer (endpoints t Msc_in) = None
      then start_default_transfer ?cb Msc_in t else Some t}"
    using reset_endpoint_steps [of s ?cb Msc_in True] f by (auto simp: usb_hard_reset_endpoint_def simp del: run.simps)
  define u where "u = reset_at True Msc_in h s"
  have u: "idle_in u" "oldest (endpoints u Msc_in) = (0, False)" "fresh_in u" "aside u = aside s"
    using reset_in_idle [OF assms, of True h] h(1) by (simp_all add: u_def aside_def)
  have "\<exists>t. msc_in_on_stall_change (run prog (Suc m)) Msc_in u = Some t \<and> fresh_in t \<and> aside t = aside u"
  proof (cases "send_csw_on_unstall (msc u) \<and> \<not> usb_is_endpoint_stalled (endpoints u Msc_in)")
    case True
    obtain t where t: "msc_send_csw (run prog (Suc m)) u = Some t" "status_given (csw_bytes (csw (msc u))) t"
      "background t = background u" "device t = device u" "endpoints t Control_in = endpoints u Control_in"
      using csw_given [OF u(1)] by blast
    have "oldest (endpoints t Msc_in) = (0, False)" "aside t = aside u" using t(3-5) u(2) by (simp_all add: background_def aside_def)
    then show ?thesis using status_given_fresh [OF t(2)] t True by (simp add: msc_in_on_stall_change_def)
  qed (use u in \<open>auto simp: msc_in_on_stall_change_def\<close>)
  then obtain t where t: "call_void ?cb (On_stall_change f Msc_in) u = Some t" "fresh_in t" "aside t = aside u"
    by (cases f) (auto simp: call_void_def invoke_def void_def)
  have "wired u" using assms by (simp add: u_def wired_reset_at)
  then have "wired t" using wired_step [OF _ wires.call_void_ok [OF refl] t(1)] by blast
  then have "default_transfer (endpoints t Msc_in) = None" using wiredD(1) [of t Msc_in] by (simp add: planned_def)
  then show ?thesis using h(2) t u(4) by (auto simp: u_def [symmetric] simp del: run.simps)
qed

lemma msc_out_reset:
  assumes "wired s"
  shows "\<exists>h t. usb_reset_endpoint cb Msc_out hard s = Some t \<and> in_side t = in_side s \<and>
    (if current_config_num (device s) \<noteq> 0 \<and> default_transfer (endpoints s Msc_out) \<noteq> None
     then t = default_started Msc_out Msc_cmd_transfer Msc_cmd_type (reset_at hard Msc_out h s) else t = reset_at hard Msc_out h s)"
proof -
  note p = wiredD(1) [OF assms, of Msc_out, unfolded planned_def]
  obtain h where h: "lines_of h = lines_of (hw s)" "usb_reset_endpoint cb Msc_out hard s =
    (if current_config_num (device s) \<noteq> 0 \<and> default_transfer (endpoints s Msc_out) \<noteq> None
     then start_default_transfer cb Msc_out (reset_at hard Msc_out h s) else Some (reset_at hard Msc_out h s))"
    using plain_reset [of s Msc_out cb hard] p by auto
  define u where "u = reset_at hard Msc_out h s"
  have u: "in_side u = in_side s" using p h(1) by (simp add: u_def in_side_def aside_def)
  show ?thesis
  proof (cases "current_config_num (device s) \<noteq> 0 \<and> default_transfer (endpoints s Msc_out) \<noteq> None")
    case True
    let ?t = "default_started Msc_out Msc_cmd_transfer Msc_cmd_type u"
    have "start_default_transfer cb Msc_out u = Some ?t"
      using p True wiredD(5) [OF assms] by (intro start_default_out) (auto simp: u_def ep_after_reset_def ep_buffer_count_def)
    moreover have "in_side ?t = in_side u"
      using p by (simp add: in_side_def aside_def default_started_def u_def ep_after_reset_def Let_def)
    ultimately show ?thesis using h True u by (auto simp: u_def)
  next
    case False
    then show ?thesis using h u unfolding u_def if_not_P [OF False] by blast
  qed
qed

lemma msc_out_hard_reset:
  assumes "wired s"
  shows "\<exists>t. usb_hard_reset_endpoint cb Msc_out s = Some t \<and> in_side t = in_side s \<and> fresh_out t"
proof -
  note p = wiredD(1) [OF assms, of Msc_out, unfolded planned_def]
  obtain h t where t: "usb_reset_endpoint cb Msc_out True s = Some t" "in_side t = in_side s"
    "t = default_started Msc_out Msc_cmd_transfer Msc_cmd_type (reset_at True Msc_out h s) \<or> t = reset_at True Msc_out h s"
    using msc_out_reset [OF assms, of cb True] by (auto split: if_splits)
  have "fresh_out t"
    using t(3) p by (auto simp: fresh_out_def default_started_def ep_after_reset_def ep_buffer_count_def opened_def open_buffer_def
        pid_after_reset_def zero_buf_ctrl_def Let_def)
  then show ?thesis using t by (simp add: usb_hard_reset_endpoint_def)
qed

lemma msc_out_soft_reset:
  assumes "wired s" "fresh_out s" "current_config_num (device s) \<noteq> 0" "default_transfer (endpoints s Msc_out) = Some Msc_cmd_transfer"
  shows "\<exists>t. usb_soft_reset_endpoint cb Msc_out s = Some t \<and> in_side t = in_side s \<and> listening t \<and>
    oldest (endpoints t Msc_out) = (0, False)"
proof -
  note p = wiredD(1) [OF assms(1), of Msc_out, unfolded planned_def]
  obtain h t where t: "usb_reset_endpoint cb Msc_out False s = Some t" "in_side t = in_side s"
    "t = default_started Msc_out Msc_cmd_transfer Msc_cmd_type (reset_at False Msc_out h s)"
    using msc_out_reset [OF assms(1), of cb False] assms(3,4) by auto
  define E where "E = opened ((ep_after_reset False (endpoints s Msc_out) (buf_ctrls s (2, False)))
      \<lparr>current_transfer := Some Msc_cmd_transfer, chain_transfer := None\<rparr>)"
  have E: "endpoints t Msc_out = E" "oldest E = (0, False)" "out_ep_ok E" "current_transfer E = Some Msc_cmd_transfer"
    "owned_buffer_count E = 1"
    using p assms(2,4) by (simp_all add: t(3) default_started_def E_def Let_def)
     (simp_all add: opened_def ep_after_reset_def ep_buffer_count_def oldest_def out_ep_ok_def fresh_out_def)
  have "listening t"
    using p assms(2) E by (simp add: listening_def Let_def)
      (simp add: t(3) default_started_def waiting_transfer_def open_buffer_def ep_after_reset_def fresh_out_def Let_def)
  then show ?thesis using t E by (simp add: usb_soft_reset_endpoint_def)
qed

text \<open>The mass storage class waits for a command.\<close>

definition msc_waiting :: "'a usb_msc_state_scheme \<Rightarrow> bool" where
  "msc_waiting s \<longleftrightarrow>
     idle_in s \<and> oldest (endpoints s Msc_in) = (0, False) \<and> listening s \<and> oldest (endpoints s Msc_out) = (0, False)"

lemma idle_in_side: "in_side t = in_side s \<Longrightarrow> idle_in t = idle_in s \<and> endpoints t Msc_in = endpoints s Msc_in"
  by (auto simp: in_side_def idle_in_def in_flight_packets_def Let_def)

lemma waiting_side:
  assumes "msc_core t = msc_core s" "length (dpram t) = 4096" "msc_waiting s"
  shows "msc_waiting t"
  using assms by (auto simp: msc_core_def msc_waiting_def idle_in_def in_flight_packets_def listening_def Let_def)

text \<open>The assignments of \<open>msc_reset\<close> before the resets of the endpoints.\<close>

definition msc_cleared :: "'a usb_msc_state_scheme \<Rightarrow> 'a usb_msc_state_scheme" where
  "msc_cleared s = vd_reset (upd_msc (request_sense_update (\<lambda>r. r\<lparr>sense_code := 0x70, additional_sense_len := 0xa\<rparr>))
     ((if msc_one_time s then s
       else (upd_ep Msc_in (on_stall_change_update (\<lambda>_. Some Msc_in_on_stall_change))
         (usb_set_default_transfer Msc_out Msc_cmd_transfer
           (upd_tr Msc_cmd_transfer (tr_type_update (\<lambda>_. Some Msc_cmd_type)) s)))\<lparr>msc_one_time := True\<rparr>)
      \<lparr>msc := zero_msc_state, ejected := False\<rparr>))"

lemma msc_cleared_fields:
  "aside (msc_cleared s) = aside s" "fresh_in (msc_cleared s) = fresh_in s" "fresh_out (msc_cleared s) = fresh_out s"
  "msc_one_time (msc_cleared s)"
  by (simp_all add: aside_def msc_cleared_def vd_reset_def upd_msc_def upd_ep_def upd_tr_def usb_set_default_transfer_def fresh_in_def fresh_out_def
      pid_after_reset_def) auto

lemma wired_msc_cleared:
  fixes s :: "'a boot_state_scheme"
  assumes "wired s" shows "wired (msc_cleared s)"
proof -
  have "wiring (vd_reset u) = wiring u" "wiring (upd_msc f u) = wiring u" "wiring (u\<lparr>msc := m, ejected := b\<rparr>) = wiring u"
    for u :: "'a boot_state_scheme" and f m b
    by (simp_all add: vd_reset_def upd_msc_def wiring_defs)
  then have "wiring (msc_cleared s) = wiring s"
    using wiring_one_time [OF _ wired_set_up [OF assms]] by (simp add: msc_cleared_def)
  then show ?thesis using assms wired_wiring by blast
qed

lemma msc_reset_waits:
  assumes "wired s" "fresh_in s" "fresh_out s" "current_config_num (device s) \<noteq> 0"
  shows "\<exists>t. msc_reset cb s = Some t \<and> msc_waiting t \<and> aside t = aside s"
proof -
  define u where "u = msc_cleared s"
  have u: "wired u" "aside u = aside s" "fresh_in u" "fresh_out u"
    "default_transfer (endpoints u Msc_out) = Some Msc_cmd_transfer" "default_transfer (endpoints u Msc_in) = None"
    using wired_msc_cleared [OF assms(1)] assms(2,3) msc_cleared_fields [of s] wiredD(1) [of u Msc_in]
    by (auto simp: u_def wired_def commands_set_up_def planned_def)
  have "halt_state (endpoints u Msc_in) = HS_NONE" using u(3) by (simp add: fresh_in_def)
  then obtain h where h: "usb_soft_reset_endpoint cb Msc_in u = Some (reset_at False Msc_in h u)"
      "lines_of h = lines_of (hw u)"
    using plain_reset [of u Msc_in cb False] u(6) by (auto simp: usb_soft_reset_endpoint_def)
  define v where "v = reset_at False Msc_in h u"
  have v: "idle_in v" "oldest (endpoints v Msc_in) = (0, False)" "wired v" "fresh_out v" "aside v = aside u"
    "default_transfer (endpoints v Msc_out) = Some Msc_cmd_transfer"
    using reset_in_idle [OF u(1), of False h] u h(2) wiredD(1) [OF u(1), of Msc_in]
    by (auto simp: v_def wired_reset_at fresh_out_def planned_def aside_def)
  obtain t where t: "usb_soft_reset_endpoint cb Msc_out v = Some t" "in_side t = in_side v" "listening t"
    "oldest (endpoints t Msc_out) = (0, False)"
    using msc_out_soft_reset [OF v(3,4) _ v(6)] assms(4) u(2) v(5) by (auto simp: aside_def)
  have "msc_reset cb s = Option.bind (usb_soft_reset_endpoint cb Msc_in u) (usb_soft_reset_endpoint cb Msc_out)"
    by (simp only: msc_reset_def Let_def msc_cleared_def u_def)
  then have "msc_reset cb s = Some t" using h(1) t(1) by (simp add: v_def [symmetric])
  moreover have "msc_waiting t" using t v idle_in_side [OF t(2)] by (simp add: msc_waiting_def)
  moreover have "aside t = aside s" using t(2) u(2) v(5) by (simp add: in_side_def)
  ultimately show ?thesis by blast
qed

lemma picoboot_reset_keeps:
  assumes "wired s"
  shows "\<exists>t. picoboot_reset (run prog n) s = Some t \<and> msc_side t = msc_side s \<and> endpoints t Control_in = endpoints s Control_in"
proof -
  obtain u where u: "usb_soft_reset_endpoint (run prog n) Picoboot_out s = Some u" "msc_side u = msc_side s"
    "endpoints u Control_in = endpoints s Control_in"
    using other_reset [OF assms, of Picoboot_out "run prog n" False] by (auto simp: usb_soft_reset_endpoint_def)
  have "wired u" using wired_step [OF assms wires.endpoint_ok(1) [OF refl] u(1)] .
  then obtain v where v: "usb_soft_reset_endpoint (run prog n) Picoboot_in u = Some v" "msc_side v = msc_side u"
    "endpoints v Control_in = endpoints u Control_in"
    using other_reset [of u Picoboot_in "run prog n" False] by (auto simp: usb_soft_reset_endpoint_def)
  then show ?thesis using u by (auto simp: picoboot_reset_def Let_def msc_side_def msc_core_def call_flash_def)
qed

subsection \<open>The request\<close>

text \<open>All endpoints are reset, and then the classes.\<close>

lemma set_config_waits:
  assumes "wired s" "c \<noteq> 0"
  shows "\<exists>t. usb_handle_set_config (run prog (Suc (Suc m))) c s = Some t \<and> wired t \<and> msc_waiting t \<and>
    current_config_num (device t) = c \<and> endpoints t Control_in = endpoints s Control_in \<and> lines_of (hw t) = lines_of (hw s)"
proof -
  let ?cb = "run prog (Suc (Suc m))"
  define s1 where "s1 = s\<lparr>device := (device s)\<lparr>current_config_num := c\<rparr>\<rparr>"
  have s1: "wired s1" "current_config_num (device s1) = c" "endpoints s1 = endpoints s" "hw s1 = hw s"
    using assms(1) by (simp_all add: s1_def wired_def buffer_sizes_def commands_set_up_def)
  obtain s2 where s2: "usb_hard_reset_endpoint ?cb Msc_in s1 = Some s2" "fresh_in s2" "aside s2 = aside s1"
    using msc_in_hard_reset [OF s1(1)] by blast
  have w2: "wired s2" using wired_step [OF s1(1) wires.endpoint_ok(2) [OF refl] s2(1)] .
  obtain s3 where s3: "usb_hard_reset_endpoint ?cb Msc_out s2 = Some s3" "in_side s3 = in_side s2" "fresh_out s3"
    using msc_out_hard_reset [OF w2] by blast
  have w3: "wired s3" using wired_step [OF w2 wires.endpoint_ok(2) [OF refl] s3(1)] .
  obtain s4 where s4: "usb_hard_reset_endpoint ?cb Picoboot_out s3 = Some s4" "msc_side s4 = msc_side s3"
    "endpoints s4 Control_in = endpoints s3 Control_in"
    using other_reset [OF w3, of Picoboot_out ?cb True] by (auto simp: usb_hard_reset_endpoint_def)
  have w4: "wired s4" using wired_step [OF w3 wires.endpoint_ok(2) [OF refl] s4(1)] .
  obtain s5 where s5: "usb_hard_reset_endpoint ?cb Picoboot_in s4 = Some s5" "msc_side s5 = msc_side s4"
    "endpoints s5 Control_in = endpoints s4 Control_in"
    using other_reset [OF w4, of Picoboot_in ?cb True] by (auto simp: usb_hard_reset_endpoint_def)
  have w5: "wired s5" using wired_step [OF w4 wires.endpoint_ok(2) [OF refl] s5(1)] .
  have "endpoint_array s1 = [None, Some Msc_in, Some Msc_out, Some Picoboot_out, Some Picoboot_in]" using s1(1) by (simp add: wired_def)
  then have each: "for_each_endpoint (usb_hard_reset_endpoint ?cb) s1 = Some s5"
    using s2(1) s3(1) s4(1) s5(1) by (simp add: for_each_endpoint_def List.map_filter_simps del: run.simps)
  have f: "fresh_in s5" "fresh_out s5" "current_config_num (device s5) = c" "endpoints s5 Control_in = endpoints s Control_in"
    "lines_of (hw s5) = lines_of (hw s)"
    using s2 s3(2,3) s4(2,3) s5(2,3) s1(2-4) by (auto simp: in_side_def aside_def msc_side_def msc_core_def fresh_in_def fresh_out_def)
  obtain u where u: "msc_reset (run prog (Suc m)) s5 = Some u" "msc_waiting u" "aside u = aside s5"
    using msc_reset_waits [OF w5 f(1,2)] f(3) assms(2) by auto
  have wu: "wired u" using wired_step [OF w5 wires.msc_reset_ok [OF refl] u(1)] .
  obtain t where t: "picoboot_reset (run prog (Suc m)) u = Some t" "msc_side t = msc_side u"
    "endpoints t Control_in = endpoints u Control_in"
    using picoboot_reset_keeps [OF wu] by blast
  have wt: "wired t" using wired_step [OF wu wires.picoboot_reset_ok [OF refl] t(1)] .
  have "on_configure (device s5) = Some Usb_boot_on_configure" using w5 by (simp add: wired_def)
  then have "usb_handle_set_config ?cb c s = Some t"
    using each u(1) t(1) assms(2)
    by (simp add: usb_handle_set_config_def s1_def [symmetric] call_void_def invoke_def void_def usb_boot_on_configure_def
        msc_on_configure_def Let_def)
  moreover have "msc_waiting t" using waiting_side [of t u] t(2) wiredD(3) [OF wt] u(2) by (simp add: msc_side_def)
  moreover have "current_config_num (device t) = c" "lines_of (hw t) = lines_of (hw s)" "endpoints t Control_in = endpoints s Control_in"
    using t(2,3) u(3) f(3-5) by (simp_all add: msc_side_def msc_core_def aside_def)
  ultimately show ?thesis using wt by blast
qed

end
