(* ===== verification/Descriptors.thy ===== *)
theory Descriptors
  imports Boot_Device
begin

text \<open>
  The descriptors as the structures of \<open>usb_device_tiny/usb_common.h\<close>, with their layout in memory, and a host that
  reads the configuration back from its bytes.  The values are the initialisers of \<open>bootrom/usb_boot_device.c\<close>.
\<close>

subsection \<open>The structures\<close>

record usb_device_descriptor =
  d_bLength :: u8
  d_bDescriptorType :: u8
  bcdUSB :: u16
  bDeviceClass :: u8
  bDeviceSubClass :: u8
  bDeviceProtocol :: u8
  bMaxPacketSize0 :: u8
  idVendor :: u16
  idProduct :: u16
  bcdDevice :: u16
  iManufacturer :: u8
  iProduct :: u8
  iSerialNumber :: u8
  bNumConfigurations :: u8

record usb_configuration_descriptor =
  c_bLength :: u8
  c_bDescriptorType :: u8
  wTotalLength :: u16
  bNumInterfaces :: u8
  bConfigurationValue :: u8
  iConfiguration :: u8
  c_bmAttributes :: u8
  bMaxPower :: u8

record usb_interface_descriptor =
  i_bLength :: u8
  i_bDescriptorType :: u8
  bInterfaceNumber :: u8
  bAlternateSetting :: u8
  bNumEndpoints :: u8
  bInterfaceClass :: u8
  bInterfaceSubClass :: u8
  bInterfaceProtocol :: u8
  iInterface :: u8

record usb_endpoint_descriptor =
  e_bLength :: u8
  e_bDescriptorType :: u8
  bEndpointAddress :: u8
  e_bmAttributes :: u8
  wMaxPacketSize :: u16
  bInterval :: u8

record usb_simple_interface_descriptor =
  s_desc :: usb_interface_descriptor
  s_ep1_desc :: usb_endpoint_descriptor
  s_ep2_desc :: usb_endpoint_descriptor

text \<open>The structures are packed: their bytes follow each other.\<close>

definition device_layout :: "usb_device_descriptor \<Rightarrow> bytes" where
  "device_layout d =
     [d_bLength d, d_bDescriptorType d] @ le16 (bcdUSB d) @
     [bDeviceClass d, bDeviceSubClass d, bDeviceProtocol d, bMaxPacketSize0 d] @
     le16 (idVendor d) @ le16 (idProduct d) @ le16 (bcdDevice d) @
     [iManufacturer d, iProduct d, iSerialNumber d, bNumConfigurations d]"

definition configuration_layout :: "usb_configuration_descriptor \<Rightarrow> bytes" where
  "configuration_layout c =
     [c_bLength c, c_bDescriptorType c] @ le16 (wTotalLength c) @
     [bNumInterfaces c, bConfigurationValue c, iConfiguration c, c_bmAttributes c, bMaxPower c]"

definition interface_layout :: "usb_interface_descriptor \<Rightarrow> bytes" where
  "interface_layout i =
     [i_bLength i, i_bDescriptorType i, bInterfaceNumber i, bAlternateSetting i, bNumEndpoints i,
      bInterfaceClass i, bInterfaceSubClass i, bInterfaceProtocol i, iInterface i]"

definition endpoint_layout :: "usb_endpoint_descriptor \<Rightarrow> bytes" where
  "endpoint_layout e =
     [e_bLength e, e_bDescriptorType e, bEndpointAddress e, e_bmAttributes e] @ le16 (wMaxPacketSize e) @ [bInterval e]"

definition simple_layout :: "usb_simple_interface_descriptor \<Rightarrow> bytes" where
  "simple_layout s = interface_layout (s_desc s) @ endpoint_layout (s_ep1_desc s) @ endpoint_layout (s_ep2_desc s)"

subsection \<open>The values\<close>

definition bulk_endpoint :: "u8 \<Rightarrow> usb_endpoint_descriptor" where
  "bulk_endpoint addr =
     \<lparr>e_bLength = 0x07, e_bDescriptorType = 0x05, bEndpointAddress = addr, e_bmAttributes = 0x02,
      wMaxPacketSize = 0x0040, bInterval = 0x00\<rparr>"

definition msc_interface_values :: usb_simple_interface_descriptor where
  "msc_interface_values =
     \<lparr>s_desc = \<lparr>i_bLength = 0x09, i_bDescriptorType = 0x04, bInterfaceNumber = 0x00, bAlternateSetting = 0x00,
        bNumEndpoints = 0x02, bInterfaceClass = 0x08, bInterfaceSubClass = 0x06, bInterfaceProtocol = 0x50,
        iInterface = 0x00\<rparr>,
      s_ep1_desc = bulk_endpoint 0x81, s_ep2_desc = bulk_endpoint 0x02\<rparr>"

definition picoboot_interface_values :: usb_simple_interface_descriptor where
  "picoboot_interface_values =
     \<lparr>s_desc = \<lparr>i_bLength = 0x09, i_bDescriptorType = 0x04, bInterfaceNumber = 0x01, bAlternateSetting = 0x00,
        bNumEndpoints = 0x02, bInterfaceClass = 0xff, bInterfaceSubClass = 0x00, bInterfaceProtocol = 0x00,
        iInterface = 0x00\<rparr>,
      s_ep1_desc = bulk_endpoint 0x03, s_ep2_desc = bulk_endpoint 0x84\<rparr>"

definition configuration_values :: usb_configuration_descriptor where
  "configuration_values =
     \<lparr>c_bLength = 0x09, c_bDescriptorType = 0x02, wTotalLength = 55, bNumInterfaces = 2, bConfigurationValue = 0x01,
      iConfiguration = 0x00, c_bmAttributes = 0x80, bMaxPower = 0xfa\<rparr>"

definition device_values :: usb_device_descriptor where
  "device_values =
     \<lparr>d_bLength = 18, d_bDescriptorType = 0x01, bcdUSB = 0x0110, bDeviceClass = 0x00, bDeviceSubClass = 0x00,
      bDeviceProtocol = 0x00, bMaxPacketSize0 = 0x40, idVendor = VENDOR_ID, idProduct = PRODUCT_ID, bcdDevice = 0x0100,
      iManufacturer = 0x01, iProduct = 0x02, iSerialNumber = 3, bNumConfigurations = 0x01\<rparr>"

lemmas layouts = device_layout_def configuration_layout_def interface_layout_def endpoint_layout_def simple_layout_def

lemmas descriptor_values = bulk_endpoint_def msc_interface_values_def picoboot_interface_values_def
  configuration_values_def device_values_def

text \<open>The bytes that the other theories use are the layout of these values.\<close>

lemma boot_descriptors_layout:
  "boot_device_descriptor = device_layout device_values"
  "boot_device_config = configuration_layout configuration_values @ simple_layout msc_interface_values @
     simple_layout picoboot_interface_values"
  "single_interface_config m =
     configuration_layout (configuration_values\<lparr>wTotalLength := 32, bNumInterfaces := 1\<rparr>) @
     simple_layout (let s = if m AND 1 \<noteq> 0 then picoboot_interface_values else msc_interface_values
                    in s\<lparr>s_desc := (s_desc s)\<lparr>bInterfaceNumber := 0\<rparr>\<rparr>)"
  by (simp_all add: layouts descriptor_values boot_device_descriptor_def boot_device_config_def single_interface_config_def
      config_desc_def msc_interface_desc_def picoboot_interface_desc_def interface_desc_def endpoint_desc_def)

subsection \<open>The host\<close>

text \<open>A host that reads a configuration: it checks the type and the length of each descriptor and the total length.\<close>

type_synonym parsed_interface = "usb_interface_descriptor \<times> usb_endpoint_descriptor list"

definition parse_endpoint :: "bytes \<Rightarrow> (usb_endpoint_descriptor \<times> bytes) option" where
  "parse_endpoint bs =
     (if 7 \<le> length bs \<and> bs ! 0 = 7 \<and> bs ! 1 = 5
      then Some (\<lparr>e_bLength = bs ! 0, e_bDescriptorType = bs ! 1, bEndpointAddress = bs ! 2, e_bmAttributes = bs ! 3,
             wMaxPacketSize = of_le16 (drop 4 bs), bInterval = bs ! 6\<rparr>, drop 7 bs)
      else None)"

definition parse_interface_desc :: "bytes \<Rightarrow> (usb_interface_descriptor \<times> bytes) option" where
  "parse_interface_desc bs =
     (if 9 \<le> length bs \<and> bs ! 0 = 9 \<and> bs ! 1 = 4
      then Some (\<lparr>i_bLength = bs ! 0, i_bDescriptorType = bs ! 1, bInterfaceNumber = bs ! 2, bAlternateSetting = bs ! 3,
             bNumEndpoints = bs ! 4, bInterfaceClass = bs ! 5, bInterfaceSubClass = bs ! 6, bInterfaceProtocol = bs ! 7,
             iInterface = bs ! 8\<rparr>, drop 9 bs)
      else None)"

definition parse_configuration_desc :: "bytes \<Rightarrow> (usb_configuration_descriptor \<times> bytes) option" where
  "parse_configuration_desc bs =
     (if 9 \<le> length bs \<and> bs ! 0 = 9 \<and> bs ! 1 = 2
      then Some (\<lparr>c_bLength = bs ! 0, c_bDescriptorType = bs ! 1, wTotalLength = of_le16 (drop 2 bs), bNumInterfaces = bs ! 4,
             bConfigurationValue = bs ! 5, iConfiguration = bs ! 6, c_bmAttributes = bs ! 7, bMaxPower = bs ! 8\<rparr>, drop 9 bs)
      else None)"

primrec parse_many :: "(bytes \<Rightarrow> ('a \<times> bytes) option) \<Rightarrow> nat \<Rightarrow> bytes \<Rightarrow> ('a list \<times> bytes) option" where
  "parse_many p 0 bs = Some ([], bs)"
| "parse_many p (Suc n) bs = do { (x, bs) \<leftarrow> p bs; (xs, bs) \<leftarrow> parse_many p n bs; Some (x # xs, bs) }"

definition parse_interface :: "bytes \<Rightarrow> (parsed_interface \<times> bytes) option" where
  "parse_interface bs = do {
     (i, bs) \<leftarrow> parse_interface_desc bs;
     (es, bs) \<leftarrow> parse_many parse_endpoint (unat (bNumEndpoints i)) bs;
     Some ((i, es), bs)
   }"

definition parse_configuration :: "bytes \<Rightarrow> (usb_configuration_descriptor \<times> parsed_interface list) option" where
  "parse_configuration bs = do {
     (c, rest) \<leftarrow> parse_configuration_desc bs;
     (is, rest) \<leftarrow> parse_many parse_interface (unat (bNumInterfaces c)) rest;
     if rest = [] \<and> length bs = unat (wTotalLength c) then Some (c, is) else None
   }"

subsection \<open>It reads back what is laid out\<close>

definition parsed_layout :: "parsed_interface \<Rightarrow> bytes" where
  "parsed_layout = (\<lambda>(i, es). interface_layout i @ concat (map endpoint_layout es))"

definition endpoint_wf :: "usb_endpoint_descriptor \<Rightarrow> bool" where
  "endpoint_wf e \<longleftrightarrow> e_bLength e = 7 \<and> e_bDescriptorType e = 5"

definition interface_wf :: "parsed_interface \<Rightarrow> bool" where
  "interface_wf = (\<lambda>(i, es).
     i_bLength i = 9 \<and> i_bDescriptorType i = 4 \<and> unat (bNumEndpoints i) = length es \<and> list_all endpoint_wf es)"

definition configuration_wf :: "usb_configuration_descriptor \<Rightarrow> parsed_interface list \<Rightarrow> bool" where
  "configuration_wf c is \<longleftrightarrow>
     c_bLength c = 9 \<and> c_bDescriptorType c = 2 \<and> unat (bNumInterfaces c) = length is \<and> list_all interface_wf is \<and>
     unat (wTotalLength c) = 9 + length (concat (map parsed_layout is))"

lemma parse_many_layout:
  assumes "\<And>x bs. ok x \<Longrightarrow> p (f x @ bs) = Some (x, bs)"
  shows "list_all ok xs \<Longrightarrow> parse_many p (length xs) (concat (map f xs) @ bs) = Some (xs, bs)"
  using assms by (induction xs) simp_all

lemma parse_endpoint_layout: "endpoint_wf e \<Longrightarrow> parse_endpoint (endpoint_layout e @ bs) = Some (e, bs)"
  by (cases e) (simp add: endpoint_wf_def parse_endpoint_def endpoint_layout_def nth_append)

lemma parse_interface_layout:
  assumes "interface_wf i"
  shows "parse_interface (parsed_layout i @ bs) = Some (i, bs)"
proof -
  obtain d es where i: "i = (d, es)" by force
  have "parse_interface_desc (interface_layout d @ bs) = Some (d, bs)" for bs
    using assms by (cases d) (simp add: i interface_wf_def parse_interface_desc_def interface_layout_def)
  then show ?thesis
    using assms parse_many_layout [of endpoint_wf parse_endpoint endpoint_layout es bs, OF parse_endpoint_layout]
    by (simp add: i interface_wf_def parse_interface_def parsed_layout_def)
qed

lemma parse_configuration_layout:
  assumes "configuration_wf c is"
  shows "parse_configuration (configuration_layout c @ concat (map parsed_layout is)) = Some (c, is)"
proof -
  have "parse_configuration_desc (configuration_layout c @ bs) = Some (c, bs)" for bs
    using assms by (cases c) (simp add: configuration_wf_def parse_configuration_desc_def configuration_layout_def nth_append)
  moreover have "length (configuration_layout c) = 9" by (simp add: configuration_layout_def)
  ultimately show ?thesis
    using assms parse_many_layout [of interface_wf parse_interface parsed_layout "is" "[]", OF parse_interface_layout]
    by (simp add: configuration_wf_def parse_configuration_def)
qed

definition simple_parsed :: "usb_simple_interface_descriptor \<Rightarrow> parsed_interface" where
  "simple_parsed s = (s_desc s, [s_ep1_desc s, s_ep2_desc s])"

text \<open>The host finds the two interfaces with their two endpoints each.\<close>

lemma parse_boot_device_config:
  "parse_configuration boot_device_config =
     Some (configuration_values, [simple_parsed msc_interface_values, simple_parsed picoboot_interface_values])"
proof -
  have "configuration_wf configuration_values [simple_parsed msc_interface_values, simple_parsed picoboot_interface_values]"
    by (simp add: configuration_wf_def interface_wf_def endpoint_wf_def descriptor_values simple_parsed_def parsed_layout_def layouts)
  moreover have "simple_layout s = parsed_layout (simple_parsed s)" for s
    by (simp add: simple_layout_def parsed_layout_def simple_parsed_def)
  ultimately show ?thesis
    using parse_configuration_layout [of configuration_values "[simple_parsed msc_interface_values, simple_parsed picoboot_interface_values]"]
    by (simp add: boot_descriptors_layout)
qed

end
