(* ===== verification/Async_Safety.thy ===== *)
theory Async_Safety
  imports Async_Task
begin

text \<open>
  What the execution of a task guarantees (\<open>_execute_task\<close> of \<open>bootrom/async_task.c\<close>), whatever the
  host asked for: memory changes in RAM only, flash is erased and programmed in whole sectors and pages
  inside its address window, and a table of flash functions in RAM is never left half overwritten.  The
  proofs go stage by stage, with one contract (locale \<open>stage_contract\<close>).  The one-slot queues and the
  worker are here too.
\<close>

subsection \<open>Contracts of stages\<close>

text \<open>
  A relation between the states before and after, for states with an invariant: what all stages keep,
  the body keeps.
\<close>

locale stage_contract =
  fixes I :: "'s \<Rightarrow> bool" and R :: "'s \<Rightarrow> 's \<Rightarrow> bool"
  assumes R_refl: "I s \<Longrightarrow> R s s"
    and R_trans: "I s \<Longrightarrow> R s t \<Longrightarrow> R t u \<Longrightarrow> R s u"
    and R_inv: "I s \<Longrightarrow> R s t \<Longrightarrow> I t"
begin

definition keeps :: "'s stage \<Rightarrow> bool" where
  "keeps f \<longleftrightarrow> (\<forall>s r t. I s \<longrightarrow> f s = Some (r, t) \<longrightarrow> R s t)"

lemma keepsI: "(\<And>s r t. I s \<Longrightarrow> f s = Some (r, t) \<Longrightarrow> R s t) \<Longrightarrow> keeps f"
  by (simp add: keeps_def)

lemma keepsD: "keeps f \<Longrightarrow> I s \<Longrightarrow> f s = Some (r, t) \<Longrightarrow> R s t"
  by (simp add: keeps_def)

lemma keeps_and_then: "keeps f \<Longrightarrow> keeps g \<Longrightarrow> keeps (and_then f g)"
  unfolding keeps_def and_then_def
  by (auto simp: bind_eq_Some_conv split: if_splits) (metis R_inv R_trans)+

lemma keeps_go_on: "keeps go_on"
  by (simp add: keeps_def go_on_def R_refl)

lemma keeps_return: "keeps (return_status r)"
  by (simp add: keeps_def return_status_def R_refl)

end

subsection \<open>The table of vectors stays intact\<close>

definition foreign_ok :: "'s foreign \<Rightarrow> bool" where
  "foreign_ok env \<longleftrightarrow>
     length (funcs_image env) = 28 \<and> (\<forall>calls addr n. length (flash_data env calls addr n) = n)"

definition buffers_ok :: "'a async_state_scheme \<Rightarrow> bool" where
  "buffers_ok s \<longleftrightarrow> length (sector_buf s) = 512 \<and> length (picoboot_buf s) = 256"

text \<open>A table in RAM is out of the way of the bitmaps, and as the worker copied it.\<close>

definition vectors_intact :: "'a async_state_scheme foreign \<Rightarrow> addressmap \<Rightarrow> 'a async_state_scheme \<Rightarrow> bool" where
  "vectors_intact env am s \<longleftrightarrow>
     (case flash_funcs s of
        None \<Rightarrow> True
      | Some a \<Rightarrow> is_address_safe_for_vectoring am a \<and>
                  is_address_safe_for_vectoring am (a + sizeof_flash_funcs) \<and>
                  mem_read (mem s) a 28 = Some (funcs_image env))"

lemma flash_vector_intact:
  assumes "vectors_intact env am s" and "foreign_ok env" and "k < 7"
  shows "flash_vector env k s = Some (default_vector env k)"
proof (cases "flash_funcs s")
  case None
  then show ?thesis by (simp add: flash_vector_def)
next
  case (Some a)
  then have image: "mem_read (mem s) a 28 = Some (funcs_image env)"
    using assms(1) by (simp add: vectors_intact_def)
  have "mem_read (mem s) (a + of_nat (4 * k)) 4 = Some (take 4 (drop (4 * k) (funcs_image env)))"
    using image assms(2,3)
    by (auto simp: mem_read_eq foreign_ok_def add.assoc simp flip: of_nat_add of_nat_mult)
  then show ?thesis
    using assms(2,3) Some
    by (simp add: flash_vector_def default_vector_def of_le32_def foreign_ok_def)
qed

lemma call_vector_intact:
  assumes "vectors_intact env am s" and "foreign_ok env" and "k < 7"
  shows "call_vector env k args data f s = f s"
  using flash_vector_intact [OF assms] by (simp add: call_vector_def)


subsection \<open>Ranges of addresses\<close>

definition ram_byte :: "addressmap \<Rightarrow> u32 \<Rightarrow> bool" where
  "ram_byte am x \<longleftrightarrow>
     (SRAM_BASE am \<le> x \<and> x < SRAM_END am) \<or> (XIP_SRAM_BASE am \<le> x \<and> x < XIP_SRAM_END am)"

lemma vectoring_range:
  assumes "addressmap_ok am" and "is_address_safe_for_vectoring am a"
    and "is_address_safe_for_vectoring am (a + sizeof_flash_funcs)"
  shows "unat (SRAM_BASE am) \<le> unat a" "unat a + 28 \<le> unat (SRAM_END am)" "unat (a + 28) = unat a + 28"
proof -
  have a: "unat (SRAM_BASE am) \<le> unat a \<and> unat a \<le> unat (SRAM_END am)"
    using assms(1,2)
    by (auto simp: is_address_safe_for_vectoring_def is_address_ram_def addressmap_ok_def
        FLASH_VALID_BLOCKS_BASE_def FLASH_BITMAPS_SIZE_def word_le_nat_alt word_less_nat_alt)
  moreover have "unat (SRAM_END am) < 2 ^ 31" using assms(1) by (simp add: addressmap_ok_def)
  ultimately show e: "unat (a + 28) = unat a + 28" using unat_add_small [of a 28] by simp
  show "unat (SRAM_BASE am) \<le> unat a" using a by simp
  show "unat a + 28 \<le> unat (SRAM_END am)"
    using assms(1,3) a e
    by (auto simp: is_address_safe_for_vectoring_def is_address_ram_def addressmap_ok_def
        sizeof_flash_funcs_def FLASH_VALID_BLOCKS_BASE_def FLASH_BITMAPS_SIZE_def
        word_le_nat_alt word_less_nat_alt)
qed

lemma ram_range:
  assumes "addressmap_ok am" and "is_address_ram am a" "is_address_ram am (a + of_nat n)"
    and "n \<le> 512" "k < n"
  shows "ram_byte am (a + of_nat k)" "unat (a + of_nat k) = unat a + k" "unat (a + of_nat n) = unat a + n"
proof -
  have a: "unat a < 2 ^ 31" using assms(1,2)
    by (auto simp: is_address_ram_def addressmap_ok_def word_le_nat_alt)
  show n: "unat (a + of_nat n) = unat a + n" using unat_add_small [of a n] a assms(4) by simp
  show k: "unat (a + of_nat k) = unat a + k" using unat_add_small [of a k] a assms(4,5) by simp
  show "ram_byte am (a + of_nat k)"
    using assms(1-5) n k
    by (auto simp: is_address_ram_def ram_byte_def addressmap_ok_def word_le_nat_alt word_less_nat_alt)
qed

lemma is_address_flash_nat:
  "is_address_flash am a \<longleftrightarrow> unat (XIP_MAIN_BASE am) \<le> unat a \<and> unat a \<le> unat (SRAM_BASE am)"
  by (simp add: is_address_flash_def word_le_nat_alt)

lemma dvd_of_mask:
  assumes "(a :: u32) AND (2 ^ n - 1) = 0" and "n < 32" shows "2 ^ n dvd unat a"
proof -
  have "take_bit n a = 0" using assms by (simp add: take_bit_eq_mask mask_eq_exp_minus_1)
  then have "take_bit n (unat a) = 0" by (simp only: unsigned_take_bit_eq [symmetric] unsigned_0)
  then show ?thesis by (simp add: take_bit_eq_mod mod_eq_0_iff_dvd)
qed

lemma mask_of_dvd:
  assumes "2 ^ n dvd unat (a :: u32)" shows "a AND (2 ^ n - 1) = 0"
proof -
  have "take_bit n (unat a) = 0" using assms by (simp add: take_bit_eq_mod mod_eq_0_iff_dvd)
  then have "unat (take_bit n a) = 0" by (simp only: unsigned_take_bit_eq)
  then have "take_bit n a = 0" by (simp only: unsigned_eq_0_iff)
  then show ?thesis by (simp add: take_bit_eq_mask mask_eq_exp_minus_1)
qed

subsection \<open>What every task keeps\<close>

definition flash_call_safe :: "addressmap \<Rightarrow> flash_call \<Rightarrow> bool" where
  "flash_call_safe am c =
     (let size = unat (SRAM_BASE am) - unat (XIP_MAIN_BASE am) in
      case c of
        Flash_sector_erase off \<Rightarrow> 4096 dvd unat off \<and> unat off + 4096 \<le> size
      | Flash_page_program off bs \<Rightarrow> 256 dvd unat off \<and> unat off + 256 \<le> size \<and> length bs = 256
      | Flash_read_data off n \<Rightarrow> 256 dvd unat off \<and> unat off + 256 \<le> size \<and> n = 256
      | _ \<Rightarrow> True)"

definition safe_step :: "addressmap \<Rightarrow> 'a async_state_scheme \<Rightarrow> 'a async_state_scheme \<Rightarrow> bool" where
  "safe_step am s t \<longleftrightarrow>
     (\<forall>x. mem t x \<noteq> mem s x \<longrightarrow> ram_byte am x) \<and>
     (\<exists>calls. flash_calls t = flash_calls s @ calls \<and> list_all (flash_call_safe am) calls)"

definition task_inv :: "'a async_state_scheme foreign \<Rightarrow> addressmap \<Rightarrow> 'a async_state_scheme \<Rightarrow> bool" where
  "task_inv env am s \<longleftrightarrow> vectors_intact env am s \<and> buffers_ok s"

lemma safe_step_trans: "safe_step am s t \<Longrightarrow> safe_step am t u \<Longrightarrow> safe_step am s u"
  unfolding safe_step_def by (metis append.assoc list_all_append)

lemma safe_step_refl: "safe_step am s s"
  by (simp add: safe_step_def)

interpretation safe: stage_contract "task_inv env am" "\<lambda>s t. safe_step am s t \<and> task_inv env am t"
  by unfold_locales (auto intro: safe_step_trans safe_step_refl)

text \<open>A step that touches neither memory nor flash nor buffers.\<close>

lemma safe_frame:
  "task_inv env am s \<Longrightarrow> mem t = mem s \<Longrightarrow> flash_funcs t = flash_funcs s \<Longrightarrow> sector_buf t = sector_buf s \<Longrightarrow>
   picoboot_buf t = picoboot_buf s \<Longrightarrow> flash_calls t = flash_calls s \<Longrightarrow> safe_step am s t \<and> task_inv env am t"
  by (simp add: safe_step_def task_inv_def vectors_intact_def buffers_ok_def split: option.splits)

lemma safe_call_flash:
  "task_inv env am s \<Longrightarrow> flash_call_safe am c \<Longrightarrow> safe_step am s (call_flash c s) \<and> task_inv env am (call_flash c s)"
  by (simp add: safe_step_def task_inv_def vectors_intact_def buffers_ok_def call_flash_def
      split: option.splits)

lemma task_inv_vectors: "task_inv env am s \<Longrightarrow> vectors_intact env am s"
  by (simp add: task_inv_def)


lemma check_ret_keeps:
  assumes "\<And>s r t. task_inv env am s \<Longrightarrow> f s = Some (r, t) \<Longrightarrow> safe_step am s t \<and> task_inv env am t"
  shows "task_inv env am s \<Longrightarrow> check_ret (f s) = Some (r, t) \<Longrightarrow> safe_step am s t \<and> task_inv env am t"
  using assms by (auto simp: check_ret_def)

lemma keeps_vectorize:
  assumes "foreign_ok env" and "addressmap_ok am"
  shows "safe.keeps env am (exec_vectorize env pb am task)"
proof (rule safe.keepsI)
  fix s :: "'a async_state_scheme" and r t
  assume inv: "task_inv env am s" and step: "exec_vectorize env pb am task s = Some (r, t)"
  let ?a = "at_transfer_addr task"
  show "safe_step am s t \<and> task_inv env am t"
  proof (cases "has_type task AT_VECTORIZE_FLASH \<and> ?a AND 1 = 0 \<and>
      is_address_safe_for_vectoring am ?a \<and> is_address_safe_for_vectoring am (?a + sizeof_flash_funcs)")
    case True
    then obtain m where m: "mem_write ?a (funcs_image env) (mem s) = Some m"
      and t: "t = s\<lparr>mem := m, flash_funcs := Some ?a\<rparr>"
      using step by (auto simp: exec_vectorize_def go_on_def bind_eq_Some_conv)
    note range = vectoring_range [OF assms(2), of ?a]
    have len: "length (funcs_image env) = 28" using assms(1) by (simp add: foreign_ok_def)
    have "ram_byte am x" if "m x \<noteq> mem s x" for x
    proof -
      have "\<exists>k < 28. x = ?a + of_nat k"
        using mem_write_outside [OF m, of x] that len by auto
      then obtain k where k: "k < 28" "x = ?a + of_nat k" by blast
      then have "unat x = unat ?a + k"
        using range True assms(2) by (simp add: unat_add_small addressmap_ok_def)
      then show ?thesis using range True k
        by (simp add: ram_byte_def word_le_nat_alt word_less_nat_alt)
    qed
    then have "safe_step am s t" by (simp add: t safe_step_def)
    moreover have "task_inv env am t"
      using inv True mem_write_read [OF m] len
      by (simp add: t task_inv_def vectors_intact_def buffers_ok_def)
    ultimately show ?thesis by simp
  next
    case False
    then have "t = s" using step
      by (auto simp: exec_vectorize_def go_on_def return_status_def split: if_splits)
    then show ?thesis using inv by (simp add: safe_step_refl)
  qed
qed

lemma keeps_exclusive: "safe.keeps env am (exec_exclusive pb task)"
proof (rule safe.keepsI)
  fix s :: "'a async_state_scheme" and r t
  assume inv: "task_inv env am s" and "exec_exclusive pb task s = Some (r, t)"
  then have "mem t = mem s \<and> flash_funcs t = flash_funcs s \<and> sector_buf t = sector_buf s \<and>
      picoboot_buf t = picoboot_buf s \<and> flash_calls t = flash_calls s"
    by (auto simp: exec_exclusive_def go_on_def Let_def)
  then show "safe_step am s t \<and> task_inv env am t" by (intro safe_frame [OF inv]) auto
qed

lemma keeps_mutation: "safe.keeps env am (exec_mutation pb task)"
proof (rule safe.keepsI)
  fix s :: "'a async_state_scheme" and r t
  assume inv: "task_inv env am s" and "exec_mutation pb task s = Some (r, t)"
  then have "mem t = mem s \<and> flash_funcs t = flash_funcs s \<and> sector_buf t = sector_buf s \<and>
      picoboot_buf t = picoboot_buf s \<and> flash_calls t = flash_calls s"
    by (auto simp: exec_mutation_def go_on_def return_status_def split: if_splits)
  then show "safe_step am s t \<and> task_inv env am t" by (intro safe_frame [OF inv]) auto
qed

lemma safe_two: 
  assumes "task_inv env am s" "flash_call_safe am c" "flash_call_safe am d"
  shows "safe_step am s (call_flash d (call_flash c s)) \<and> task_inv env am (call_flash d (call_flash c s))"
  using safe_call_flash [OF assms(1,2)] safe_call_flash [of env am "call_flash c s", OF _ assms(3)]
    safe_step_trans by blast

lemma keeps_exit_xip:
  assumes "foreign_ok env" shows "safe.keeps env am (exec_exit_xip env task)"
proof (rule safe.keepsI)
  fix s :: "'a async_state_scheme" and r t
  assume inv: "task_inv env am s" and step: "exec_exit_xip env task s = Some (r, t)"
  have "t = s \<or> t = snd (do_flash_exit_xip s)"
    using step call_vector_intact [OF task_inv_vectors [OF inv] assms, of 2]
    by (auto simp: exec_exit_xip_def go_on_def check_ret_def split: if_splits prod.splits)
  moreover have trivial: "flash_call_safe am c" if "c \<in> {Connect_internal_flash, Flash_exit_xip, Gpio_setup}" for c
    using that by (auto simp: flash_call_safe_def Let_def)
  have two: "safe_step am s (call_flash Flash_exit_xip (call_flash Connect_internal_flash s)) \<and>
      task_inv env am (call_flash Flash_exit_xip (call_flash Connect_internal_flash s))"
    by (rule safe_two [OF inv]) (simp_all add: trivial)
  have "safe_step am s (snd (do_flash_exit_xip s)) \<and> task_inv env am (snd (do_flash_exit_xip s))"
    using safe_call_flash [OF conjunct2 [OF two], of Gpio_setup] safe_step_trans [OF conjunct1 [OF two]] trivial
    by (simp add: do_flash_exit_xip_def)
  ultimately show "safe_step am s t \<and> task_inv env am t"
    using inv safe_step_refl by auto
qed

lemma keeps_enter_cmd_xip:
  assumes "foreign_ok env" shows "safe.keeps env am (exec_enter_cmd_xip env task)"
proof (rule safe.keepsI)
  fix s :: "'a async_state_scheme" and r t
  assume inv: "task_inv env am s" and step: "exec_enter_cmd_xip env task s = Some (r, t)"
  have "t = s \<or> t = call_flash Flash_enter_cmd_xip s"
    using step call_vector_intact [OF task_inv_vectors [OF inv] assms, of 1]
    by (auto simp: exec_enter_cmd_xip_def go_on_def check_ret_def do_flash_enter_cmd_xip_def split: if_splits)
  then show "safe_step am s t \<and> task_inv env am t"
    using inv safe_call_flash [OF inv, of Flash_enter_cmd_xip] safe_step_refl
    by (auto simp: flash_call_safe_def Let_def)
qed

text \<open>The erase loop, when it starts on a table that is intact: one call for each sector.\<close>

definition erase_calls :: "addressmap \<Rightarrow> u32 \<Rightarrow> nat \<Rightarrow> flash_call list" where
  "erase_calls am addr n =
     map (\<lambda>i. Flash_sector_erase (addr + of_nat (4096 * i) - XIP_MAIN_BASE am)) [0..<n]"

lemma erase_calls_Suc:
  "erase_calls am addr (Suc n) =
   Flash_sector_erase (addr - XIP_MAIN_BASE am) # erase_calls am (addr + 4096) n"
  unfolding erase_calls_def
  by (simp add: upt_conv_Cons map_Suc_upt [symmetric] comp_def algebra_simps del: upt_Suc)

lemma erase_loop_calls:
  assumes "vectors_intact env am s" and "foreign_ok env" and "unat end_addr = unat addr + 4096 * n"
  shows "erase_loop env am end_addr addr 0 s =
         Some (0, s\<lparr>flash_calls := flash_calls s @ erase_calls am addr n\<rparr>)"
  using assms(1,3)
proof (induction n arbitrary: addr s)
  case 0
  then show ?case by (subst erase_loop.simps) (simp add: erase_calls_def word_less_nat_alt)
next
  case (Suc n)
  let ?s = "call_flash (Flash_sector_erase (addr - XIP_MAIN_BASE am)) s"
  have less: "addr < end_addr" using Suc.prems(2) by (simp add: word_less_nat_alt)
  have "unat end_addr < 2 ^ 32" using unsigned_less [of end_addr] by simp
  then have addr: "unat (addr + 4096) = unat addr + 4096"
    using unat_add_small [of addr 4096] Suc.prems(2) by simp
  have inv: "vectors_intact env am ?s"
    using Suc.prems(1) by (simp add: vectors_intact_def call_flash_def split: option.splits)
  have "erase_loop env am end_addr addr 0 s = erase_loop env am end_addr (addr + 4096) 0 ?s"
    using less by (subst erase_loop.simps)
      (simp add: call_vector_intact [OF Suc.prems(1) assms(2)] do_flash_erase_sector_def flash_sizes)
  also have "\<dots> = Some (0, ?s\<lparr>flash_calls := flash_calls ?s @ erase_calls am (addr + 4096) n\<rparr>)"
    by (rule Suc.IH [OF inv]) (use Suc.prems(2) addr in simp)
  finally show ?case by (simp add: erase_calls_Suc call_flash_def)
qed

lemma erase_loop_empty: "\<not> addr < end_addr \<Longrightarrow> erase_loop env am end_addr addr ret s = Some (ret, s)"
  by (subst erase_loop.simps) simp


lemma unat_add_less:
  assumes "(a :: u32) < a + b" shows "unat (a + b) = unat a + unat b"
proof (rule ccontr)
  assume "\<not> ?thesis"
  then have "2 ^ 32 \<le> unat a + unat b" using unat_add_small [of a "unat b"] by fastforce
  moreover have "unat b < 2 ^ 32" using unsigned_less [of b] by simp
  ultimately have "unat (a + b) < unat a"
    using unsigned_less [of a] by (simp add: unat_word_ariths le_mod_geq)
  then show False using assms by (simp add: word_less_nat_alt)
qed

lemma erase_calls_safe:
  assumes "addressmap_ok am" and "4096 dvd unat addr" and "unat (XIP_MAIN_BASE am) \<le> unat addr"
    and "unat addr + 4096 * n \<le> unat (SRAM_BASE am)"
  shows "list_all (flash_call_safe am) (erase_calls am addr n)"
  unfolding list_all_iff
proof
  fix c assume "c \<in> set (erase_calls am addr n)"
  then obtain i where i: "i < n" and c: "c = Flash_sector_erase (addr + of_nat (4096 * i) - XIP_MAIN_BASE am)"
    by (auto simp: erase_calls_def)
  have le: "unat addr + 4096 * i + 4096 \<le> unat (SRAM_BASE am)" using assms(4) i by linarith
  have "unat (addr + of_nat (4096 * i)) = unat addr + 4096 * i"
    by (rule unat_add_small) (use le unat_less_32 [of "SRAM_BASE am"] in simp)
  then have "unat (addr + of_nat (4096 * i) - XIP_MAIN_BASE am) = unat addr + 4096 * i - unat (XIP_MAIN_BASE am)"
    using assms(3) by (simp add: unat_sub word_le_nat_alt del: of_nat_mult)
  moreover have "4096 dvd unat addr + 4096 * i - unat (XIP_MAIN_BASE am)"
    using assms(1,2) by (simp add: addressmap_ok_def dvd_diff_nat)
  ultimately show "flash_call_safe am c"
    using le assms(3) unfolding c flash_call_safe_def Let_def by simp
qed

lemma erase_range_calls:
  assumes "addressmap_ok am" and "foreign_ok env" and "PICOBOOT_OK pb = 0" and "vectors_intact env am s"
    and "4096 dvd unat addr" "4096 dvd unat len"
    and "is_address_flash am addr" "is_address_flash am (addr + len)"
  shows "do_flash_erase_range env pb am addr len s = Some (0,
      s\<lparr>flash_calls := flash_calls s @ (if addr < addr + len then erase_calls am addr (unat len div 4096) else [])\<rparr>)"
    and "addr < addr + len \<Longrightarrow> list_all (flash_call_safe am) (erase_calls am addr (unat len div 4096))"
proof -
  have nat: "unat (addr + len) = unat addr + 4096 * (unat len div 4096)" if "addr < addr + len"
    using unat_add_less [OF that] assms(6) by simp
  show "do_flash_erase_range env pb am addr len s = Some (0,
      s\<lparr>flash_calls := flash_calls s @ (if addr < addr + len then erase_calls am addr (unat len div 4096) else [])\<rparr>)"
    using erase_loop_calls [OF assms(4,2) nat] erase_loop_empty [of addr "addr + len" env am 0 s]
    by (simp add: do_flash_erase_range_def assms(3))
  show "list_all (flash_call_safe am) (erase_calls am addr (unat len div 4096))" if "addr < addr + len"
    by (rule erase_calls_safe [OF assms(1,5)])
      (use assms(7,8) nat [OF that] in \<open>simp_all add: is_address_flash_nat\<close>)
qed

lemma keeps_erase:
  assumes "foreign_ok env" and "addressmap_ok am" and "PICOBOOT_OK pb = 0"
  shows "safe.keeps env am (exec_erase env pb am task)"
proof (rule safe.keepsI)
  fix s :: "'a async_state_scheme" and r t
  assume inv: "task_inv env am s" and step: "exec_erase env pb am task s = Some (r, t)"
  let ?a = "at_erase_addr task" and ?n = "at_erase_size task"
  show "safe_step am s t \<and> task_inv env am t"
  proof (cases "has_type task AT_FLASH_ERASE \<and> ?a AND (FLASH_SECTOR_ERASE_SIZE - 1) = 0 \<and>
      ?n AND (FLASH_SECTOR_ERASE_SIZE - 1) = 0 \<and> is_address_flash am ?a \<and> is_address_flash am (?a + ?n)")
    case True
    then have dvd: "4096 dvd unat ?a" "4096 dvd unat ?n"
      using dvd_of_mask [of ?a 12] dvd_of_mask [of ?n 12] by (simp_all add: flash_sizes)
    note range = erase_range_calls [OF assms(2,1,3) task_inv_vectors [OF inv] dvd]
    have "check_ret (do_flash_erase_range env pb am ?a ?n s) = Some (r, t)"
      using step True call_vector_intact [OF task_inv_vectors [OF inv] assms(1), of 4]
      by (simp add: exec_erase_def)
    then have "t = s\<lparr>flash_calls := flash_calls s @
        (if ?a < ?a + ?n then erase_calls am ?a (unat ?n div 4096) else [])\<rparr>"
      using range(1) True by (simp add: check_ret_def)
    moreover have "list_all (flash_call_safe am) (if ?a < ?a + ?n then erase_calls am ?a (unat ?n div 4096) else [])"
      using range(2) True by simp
    ultimately show ?thesis
      using inv by (simp add: safe_step_def task_inv_def vectors_intact_def buffers_ok_def split: option.splits)
  next
    case False
    then have "t = s" using step by (auto simp: exec_erase_def go_on_def return_status_def split: if_splits)
    then show ?thesis using inv by (simp add: safe_step_refl)
  qed
qed


text \<open>Transfers, of at most a page.\<close>

definition task_ok :: "async_task \<Rightarrow> bool" where
  "task_ok task \<longleftrightarrow> unat (at_data_length task) \<le> 256"

lemma vectors_after_write:
  assumes "vectors_intact env am s" and "mem_write a bs (mem s) = Some m"
    and "\<And>ff j k. flash_funcs s = Some ff \<Longrightarrow> j < 28 \<Longrightarrow> k < length bs \<Longrightarrow> ff + of_nat j \<noteq> a + of_nat k"
  shows "vectors_intact env am (s\<lparr>mem := m\<rparr>)"
proof (cases "flash_funcs s")
  case (Some ff)
  have "m (ff + of_nat j) = mem s (ff + of_nat j)" if "j < 28" for j
    by (rule mem_write_outside [OF assms(2)]) (use assms(3) Some that in auto)
  with assms(1) Some show ?thesis by (simp add: vectors_intact_def mem_read_eq)
qed (simp add: vectors_intact_def)

lemma revert_vectors_disjoint:
  assumes "addressmap_ok am" and "vectors_intact env am s"
    and "is_address_ram am a" "is_address_ram am (a + len)" "unat len \<le> 512"
    and "flash_funcs (revert_vectors a len s) = Some ff" and "j < 28" "k < unat len"
  shows "ff + of_nat j \<noteq> a + of_nat k"
proof
  assume eq: "ff + of_nat j = a + of_nat k"
  have ff: "flash_funcs s = Some ff" and "\<not> max ff a < min (ff + sizeof_flash_funcs) (a + len)"
    using assms(6) by (auto simp: revert_vectors_def split: option.splits if_splits)
  then have apart: "min (unat (ff + 28)) (unat (a + len)) \<le> max (unat ff) (unat a)"
    by (auto simp: flash_sizes word_le_nat_alt word_less_nat_alt not_less min_def max_def split: if_splits)
  have range: "unat (SRAM_BASE am) \<le> unat ff" "unat ff + 28 \<le> unat (SRAM_END am)" "unat (ff + 28) = unat ff + 28"
    using vectoring_range [OF assms(1), of ff] assms(2) ff by (simp_all add: vectors_intact_def)
  have "unat (ff + of_nat j) = unat ff + j"
    using range(2) assms(1,7) by (intro unat_add_small) (simp add: addressmap_ok_def)
  moreover have "unat (a + of_nat k) = unat a + k" "unat (a + len) = unat a + unat len"
    using ram_range(2,3) [OF assms(1,3), of "unat len" k] assms(4,5,8) by simp_all
  ultimately show False using apart eq range(3) assms(7,8) by simp
qed

lemma exec_write_direct_safe:
  assumes "addressmap_ok am" and "task_inv env am s"
    and "is_address_ram am (at_transfer_addr task)"
    and "is_address_ram am (at_transfer_addr task + at_data_length task)"
    and "exec_write env am True task s = Some (r, t)"
  shows "safe_step am s t \<and> task_inv env am t"
proof (cases "has_type task AT_WRITE")
  case False
  then show ?thesis using assms(2,5) by (simp add: exec_write_def go_on_def safe_step_refl)
next
  case True
  let ?a = "at_transfer_addr task" and ?n = "at_data_length task"
  let ?s = "revert_vectors ?a ?n s"
  obtain bs m where bs: "load_data (at_data task) (unat ?n) s = Some bs"
    and m: "mem_write ?a bs (mem ?s) = Some m" and t: "t = ?s\<lparr>mem := m\<rparr>"
    using assms(5) True by (auto simp: exec_write_def go_on_def bind_eq_Some_conv Let_def)
  have len: "length bs = unat ?n" "unat ?n \<le> 512"
    using bs assms(2) by (auto simp: load_data_def task_inv_def buffers_ok_def split: data_ptr.splits if_splits)
  have same: "mem ?s = mem s" "flash_calls ?s = flash_calls s" "buffers_ok ?s = buffers_ok s"
    by (simp_all add: revert_vectors_def buffers_ok_def split: option.splits)
  have "vectors_intact env am ?s"
    using assms(2) by (auto simp: revert_vectors_def task_inv_def vectors_intact_def split: option.splits)
  then have "vectors_intact env am t"
    unfolding t
    by (rule vectors_after_write [OF _ m])
      (use revert_vectors_disjoint [OF assms(1) task_inv_vectors [OF assms(2)] assms(3,4)] len in auto)
  moreover have "ram_byte am x" if "m x \<noteq> mem s x" for x
  proof -
    have "\<exists>k < length bs. x = ?a + of_nat k"
      using mem_write_outside [OF m, of x] that same(1) by auto
    then obtain k where "k < unat ?n" "x = ?a + of_nat k" using len(1) by auto
    then show ?thesis
      using ram_range(1) [OF assms(1,3), of "unat ?n" k] assms(4) len(2) by simp
  qed
  ultimately show ?thesis
    using assms(2) same by (auto simp: t safe_step_def task_inv_def buffers_ok_def)
qed

lemma flash_page_range:
  assumes "addressmap_ok am" and "task_ok task" and "transfer_access pb am task = Inr False"
  shows "256 dvd unat (at_transfer_addr task - XIP_MAIN_BASE am)"
    and "unat (at_transfer_addr task - XIP_MAIN_BASE am) + 256 \<le> unat (SRAM_BASE am) - unat (XIP_MAIN_BASE am)"
proof -
  let ?a = "at_transfer_addr task" and ?n = "at_data_length task"
  have flash: "is_address_flash am ?a" "is_address_flash am (?a + ?n)" "?a AND (2 ^ 8 - 1) = 0"
    and not_ram: "\<not> (is_address_ram am ?a \<and> is_address_ram am (?a + ?n))"
    using assms(3) by (auto simp: transfer_access_def Let_def flash_sizes split: if_splits)
  have ok: "unat (XIP_MAIN_BASE am) \<le> unat ?a" "unat ?a \<le> unat (SRAM_BASE am)" "unat (SRAM_BASE am) < 2 ^ 31"
    using flash(1) assms(1) by (simp_all add: is_address_flash_nat addressmap_ok_def)
  have e: "unat (?a + ?n) = unat ?a + unat ?n"
    using unat_add_small [of ?a "unat ?n"] ok assms(2) by (simp add: task_ok_def)
  have "?a \<noteq> SRAM_BASE am"
  proof
    assume eq: "?a = SRAM_BASE am"
    then have "unat ?n = 0" using e flash(2) by (simp add: is_address_flash_nat)
    then have "?n = 0" by (simp only: unsigned_eq_0_iff)
    then show False using not_ram eq assms(1)
      by (simp add: is_address_ram_def addressmap_ok_def word_le_nat_alt)
  qed
  then have less: "unat ?a < unat (SRAM_BASE am)" using ok(2) by (simp add: le_less word_unat_eq_iff)
  have dvd: "256 dvd unat ?a" using dvd_of_mask [OF flash(3)] by simp
  have base: "256 dvd unat (XIP_MAIN_BASE am)" "256 dvd unat (SRAM_BASE am)"
    by (rule dvd_trans [of _ 4096]; use assms(1) in \<open>simp add: addressmap_ok_def\<close>)+
  have off: "unat (?a - XIP_MAIN_BASE am) = unat ?a - unat (XIP_MAIN_BASE am)"
    using ok(1) by (simp add: unat_sub word_le_nat_alt)
  show "256 dvd unat (?a - XIP_MAIN_BASE am)" unfolding off using dvd base(1) by (rule dvd_diff_nat)
  have "unat ?a + 256 \<le> unat (SRAM_BASE am)"
    using less dvd base(2) by (auto elim!: dvdE)
  then show "unat (?a - XIP_MAIN_BASE am) + 256 \<le> unat (SRAM_BASE am) - unat (XIP_MAIN_BASE am)"
    using off ok(1) by simp
qed


lemma keeps_write:
  assumes "foreign_ok env" and "addressmap_ok am" and "task_ok task"
    and "transfer_access pb am task = Inr direct" and "has_type task AT_WRITE"
  shows "safe.keeps env am (exec_write env am direct task)"
proof (rule safe.keepsI)
  fix s :: "'a async_state_scheme" and r t
  assume inv: "task_inv env am s" and step: "exec_write env am direct task s = Some (r, t)"
  show "safe_step am s t \<and> task_inv env am t"
  proof (cases direct)
    case True
    then show ?thesis
      using exec_write_direct_safe [OF assms(2) inv, of task r t] step assms(4,5)
      by (auto simp: transfer_access_def Let_def split: if_splits)
  next
    case False
    have "check_ret (do_flash_page_program am (at_transfer_addr task) (at_data task) s) = Some (r, t)"
      using step False assms(5) call_vector_intact [OF task_inv_vectors [OF inv] assms(1), of 5]
      by (simp add: exec_write_def)
    then obtain bs where bs: "load_data (at_data task) 256 s = Some bs"
      and t: "t = call_flash (Flash_page_program (at_transfer_addr task - XIP_MAIN_BASE am) bs) s"
      by (auto simp: check_ret_def do_flash_page_program_def bind_eq_Some_conv)
    have "length bs = 256"
      using bs by (auto simp: load_data_def split: data_ptr.splits if_splits)
    then show ?thesis
      unfolding t using flash_page_range [OF assms(2,3)] assms(4) False
      by (intro safe_call_flash [OF inv]) (simp add: flash_call_safe_def Let_def)
  qed
qed

lemma store_data_safe:
  assumes "task_inv env am s" and "store_data p bs s = Some t"
  shows "safe_step am s t \<and> task_inv env am t"
  using assms
  by (auto simp: store_data_def safe_step_def task_inv_def vectors_intact_def buffers_ok_def
      split: data_ptr.splits option.splits dest: length_store_list)

lemma keeps_read:
  assumes "foreign_ok env" and "addressmap_ok am" and "task_ok task"
    and "transfer_access pb am task = Inr direct"
  shows "safe.keeps env am (exec_read env am direct task)"
proof (rule safe.keepsI)
  fix s :: "'a async_state_scheme" and r t
  assume inv: "task_inv env am s" and step: "exec_read env am direct task s = Some (r, t)"
  let ?off = "at_transfer_addr task - XIP_MAIN_BASE am"
  consider "t = s" | bs where "store_data (at_data task) bs s = Some t"
    | bs where "store_data (at_data task) bs (call_flash (Flash_read_data ?off 256) s) = Some t" "\<not> direct"
    using step call_vector_intact [OF task_inv_vectors [OF inv] assms(1), of 6]
    by (auto simp: exec_read_def go_on_def check_ret_def do_flash_page_read_def bind_eq_Some_conv
        flash_sizes Let_def split: if_splits)
  then show "safe_step am s t \<and> task_inv env am t"
  proof cases
    case 1
    with inv show ?thesis by (simp add: safe_step_refl)
  next
    case 2
    with inv show ?thesis by (rule store_data_safe)
  next
    case 3
    have "safe_step am s (call_flash (Flash_read_data ?off 256) s) \<and>
        task_inv env am (call_flash (Flash_read_data ?off 256) s)"
      using flash_page_range [OF assms(2,3)] assms(4) 3(2)
      by (intro safe_call_flash [OF inv]) (simp add: flash_call_safe_def Let_def)
    then show ?thesis using store_data_safe [OF _ 3(1)] safe_step_trans by blast
  qed
qed

lemma keeps_transfer:
  assumes "foreign_ok env" and "addressmap_ok am" and "task_ok task"
  shows "safe.keeps env am (exec_transfer env pb am task)"
proof (cases "has_type task (AT_WRITE OR AT_READ)")
  case False
  then have "exec_transfer env pb am task = go_on" by (simp add: exec_transfer_def fun_eq_iff)
  then show ?thesis by (simp add: safe.keeps_go_on)
next
  case True
  show ?thesis
  proof (cases "transfer_access pb am task")
    case (Inl ret)
    then have "exec_transfer env pb am task = return_status ret" using True
      by (simp add: exec_transfer_def fun_eq_iff)
    then show ?thesis by (simp add: safe.keeps_return)
  next
    case (Inr direct)
    have eq: "exec_transfer env pb am task =
        and_then (exec_write env am direct task)
          (and_then (exec_read env am direct task) (exec_enter_cmd_xip env task))"
      using True Inr by (simp add: exec_transfer_def fun_eq_iff)
    have "safe.keeps env am (exec_write env am direct task)"
    proof (cases "has_type task AT_WRITE")
      case False
      then have "exec_write env am direct task = go_on" by (simp add: exec_write_def fun_eq_iff)
      then show ?thesis by (simp add: safe.keeps_go_on)
    qed (rule keeps_write [OF assms Inr])
    then show ?thesis
      unfolding eq
      by (intro safe.keeps_and_then keeps_read [OF assms Inr] keeps_enter_cmd_xip [OF assms(1)])
  qed
qed

lemma keeps_no_exec: "\<not> has_type task AT_EXEC \<Longrightarrow> safe.keeps env am (exec_exec env task)"
proof -
  assume "\<not> has_type task AT_EXEC"
  then have "exec_exec env task = go_on" by (simp add: exec_exec_def fun_eq_iff)
  then show ?thesis by (simp add: safe.keeps_go_on)
qed

lemma execute_task_status_keeps:
  assumes "foreign_ok env" and "addressmap_ok am" and "PICOBOOT_OK pb = 0" and "task_ok task"
    and "\<not> has_type task AT_EXEC" and "task_inv env am s"
    and "execute_task_status env pb am task s = Some (ret, t)"
  shows "safe_step am s t \<and> task_inv env am t"
proof -
  have "safe.keeps env am (execute_task_body env pb am task)"
    unfolding execute_task_body_def
    by (intro safe.keeps_and_then keeps_vectorize keeps_exclusive keeps_exit_xip keeps_no_exec
        keeps_mutation keeps_erase keeps_transfer assms)
  then have body: "safe_step am s t \<and> task_inv env am t"
    if "execute_task_body env pb am task s = Some (r, t)" for r
    using assms(6) that by (rule safe.keepsD)
  show ?thesis
  proof (cases "rebooting s")
    case True
    then show ?thesis using assms(6,7) safe_step_refl by (simp add: execute_task_status_def watchdog_rebooting_def)
  next
    case False
    then obtain r where "execute_task_body env pb am task s = Some (r, t)"
      using assms(7) by (auto simp: execute_task_status_def watchdog_rebooting_def)
    then show ?thesis by (rule body)
  qed
qed

subsection \<open>Queues\<close>

text \<open>A queue with one slot: what is queued replaces what was not yet taken.\<close>

locale one_slot_queue =
  fixes enq :: "'i \<Rightarrow> 'q \<Rightarrow> 'q" and deq :: "'q \<Rightarrow> 'x option \<times> 'q"
    and item :: "'i \<Rightarrow> 'x" and pending :: "'q \<Rightarrow> 'x option"
  assumes pending_enq: "pending (enq i q) = Some (item i)"
    and deq_pending: "fst (deq q) = pending q"
    and pending_deq: "pending (snd (deq q)) = None"
begin

text \<open>A sequence of operations, \<^term>\<open>Some i\<close> to queue and \<^term>\<open>None\<close> to take: what is taken.\<close>

fun taken :: "'i option list \<Rightarrow> 'q \<Rightarrow> 'x option list" where
  "taken [] q = []"
| "taken (Some i # ops) q = taken ops (enq i q)"
| "taken (None # ops) q = fst (deq q) # taken ops (snd (deq q))"

fun slot_taken :: "'i option list \<Rightarrow> 'x option \<Rightarrow> 'x option list" where
  "slot_taken [] x = []"
| "slot_taken (Some i # ops) x = slot_taken ops (Some (item i))"
| "slot_taken (None # ops) x = x # slot_taken ops None"

lemma taken_slot: "taken ops q = slot_taken ops (pending q)"
  by (induction ops q rule: taken.induct) (simp_all add: pending_enq deq_pending pending_deq)

lemma pending_fold: "is \<noteq> [] \<Longrightarrow> pending (fold enq is q) = Some (item (last is))"
  by (induction "is" arbitrary: q) (auto simp: pending_enq)

lemma latest_taken:
  assumes "is \<noteq> []"
  shows "fst (deq (fold enq is q)) = Some (item (last is))"
    and "fst (deq (snd (deq (fold enq is q)))) = None"
  using pending_fold [OF assms] by (simp_all add: deq_pending pending_deq)

end

definition queue_pending :: "async_task_queue \<Rightarrow> async_task option" where
  "queue_pending q = (if q_full q then Some (q_task q) else None)"

definition queue_op :: "async_task \<times> task_callback \<Rightarrow> async_task_queue \<Rightarrow> async_task_queue" where
  "queue_op i q = snd (queue_task (fst i) (snd i) q)"

interpretation task_queue: one_slot_queue queue_op dequeue_task
  "\<lambda>(task, cb). task\<lparr>at_callback := Some cb\<rparr>" queue_pending
  by unfold_locales (auto simp: queue_op_def queue_task_def dequeue_task_def queue_pending_def Let_def)

lemma queue_ops_keep_disable:
  "q_disable (queue_op i q) = q_disable q" "q_disable (snd (dequeue_task q)) = q_disable q"
  by (simp_all add: queue_op_def queue_task_def dequeue_task_def Let_def)

text \<open>What an erase command does, on every branch.\<close>

lemma erase_task_status:
  assumes "foreign_ok env" and "addressmap_ok am" and "picoboot_ok pb"
    and "vectors_intact env am s" and "\<not> rebooting s"
    and "at_type task = AT_FLASH_ERASE" and "\<not> at_check_last_mutation_source task"
  shows "execute_task_status env pb am task s = Some
    (let a = at_erase_addr task; n = at_erase_size task; s = s\<lparr>last_mutation_source := at_source task\<rparr> in
     if \<not> (4096 dvd unat a \<and> 4096 dvd unat n) then (PICOBOOT_BAD_ALIGNMENT pb, s)
     else if \<not> (is_address_flash am a \<and> is_address_flash am (a + n)) then (PICOBOOT_INVALID_ADDRESS pb, s)
     else (PICOBOOT_OK pb, s\<lparr>flash_calls := flash_calls s @
             (if a < a + n then erase_calls am a (unat n div 4096) else [])\<rparr>))"
proof -
  let ?a = "at_erase_addr task" and ?n = "at_erase_size task"
  let ?s = "s\<lparr>last_mutation_source := at_source task\<rparr>"
  have types: "has_type task AT_FLASH_ERASE" "has_type task (AT_WRITE OR AT_FLASH_ERASE)"
    "\<not> has_type task AT_VECTORIZE_FLASH" "\<not> has_type task AT_EXCLUSIVE" "\<not> has_type task AT_EXIT_XIP"
    "\<not> has_type task AT_EXEC" "\<not> has_type task (AT_WRITE OR AT_READ)"
    using assms(6) by (simp_all add: has_type_def task_types)
  have masks: "x AND (FLASH_SECTOR_ERASE_SIZE - 1) = 0 \<longleftrightarrow> 4096 dvd unat x" for x
    using dvd_of_mask [of x 12] mask_of_dvd [of 12 x] by (auto simp: flash_sizes)
  have vec: "vectors_intact env am ?s"
    using assms(4) by (simp add: vectors_intact_def split: option.splits)
  have ok: "PICOBOOT_OK pb = 0" using assms(3) by (simp add: picoboot_ok_def)
  have "exec_transfer env pb am task = go_on" using types by (simp add: exec_transfer_def fun_eq_iff)
  then have body: "execute_task_body env pb am task s = and_then (exec_erase env pb am task) go_on ?s"
    using types assms(7)
    by (simp add: execute_task_body_def and_then_def exec_vectorize_def exec_exclusive_def
        exec_exit_xip_def exec_exec_def exec_mutation_def go_on_def Let_def)
  show ?thesis
    using assms(5) types(1) erase_range_calls(1) [OF assms(2,1) ok vec, of ?a ?n]
    by (simp add: execute_task_status_def watchdog_rebooting_def body and_then_def exec_erase_def masks return_status_def
        go_on_def check_ret_def call_vector_intact [OF vec assms(1)] Let_def ok)
qed


subsection \<open>An example\<close>

text \<open>An RP2040 with zero RAM and no code of a client, and tasks for the witnesses.\<close>

definition no_foreign :: "'s foreign" where
  "no_foreign = \<lparr> flash_data = (\<lambda>_ _ n. replicate n 0xff), funcs_image = replicate 28 0,
                  user_code = (\<lambda>_ _ _ s. None) \<rparr>"

definition empty_queue :: async_task_queue where
  "empty_queue = \<lparr> q_task = reset_task, q_full = False, q_disable = False \<rparr>"

definition example_watchdog :: watchdog where
  "example_watchdog = \<lparr> wd_scratch = (\<lambda>_. 0), wd_load = 0, wd_tick = 0, wd_enabled = False \<rparr>"

definition example_async :: async_state where
  "example_async =
     \<lparr> rebooting = False, watchdog_hw = example_watchdog, usb_activity_gpio_pin_mask = 0,
       virtual_disk_queue = empty_queue, picoboot_queue = empty_queue, flash_funcs = None,
       last_mutation_source = 0, ejected = False, mem = zero_ram,
       sector_buf = replicate 512 0, picoboot_buf = replicate 256 7, flash_calls = [] \<rparr>"

definition example_erase :: async_task where
  "example_erase = reset_task\<lparr>at_type := AT_FLASH_ERASE, at_erase_addr := 0x10001000, at_erase_size := 0x2000\<rparr>"

definition example_write :: async_task where
  "example_write = reset_task\<lparr>at_type := AT_WRITE, at_data := PicobootBuf, at_transfer_addr := 0x20000010,
     at_data_length := 3\<rparr>"

lemma example_ok:
  "foreign_ok no_foreign" "vectors_intact env am example_async" "buffers_ok example_async"
  "\<not> rebooting example_async" "mem example_async = zero_ram"
  by (simp_all add: foreign_ok_def no_foreign_def vectors_intact_def buffers_ok_def example_async_def)

lemma example_erase_ok:
  "at_type example_erase = AT_FLASH_ERASE" "task_ok example_erase" "\<not> has_type example_erase AT_EXEC"
  "\<not> at_check_last_mutation_source example_erase" "at_erase_addr example_erase = 0x10001000"
  "at_erase_size example_erase = 0x2000"
  by (simp_all add: example_erase_def reset_task_def task_ok_def has_type_def task_types)

definition example_erased :: async_state where
  "example_erased = example_async\<lparr>flash_calls := erase_calls rp2040 0x10001000 2\<rparr>"

lemma example_erase_result:
  "execute_task_status no_foreign picoboot_h rp2040 example_erase example_async = Some (0, example_erased)"
  using erase_task_status [OF example_ok(1) rp2040_ok picoboot_h_ok example_ok(2,4) example_erase_ok(1,4)]
  by (simp add: example_erase_ok picoboot_h_def rp2040_def is_address_flash_def Let_def example_erased_def)
    (simp add: example_async_def example_erase_def reset_task_def)

lemma zero_ram_mapped: "ram_byte rp2040 x \<Longrightarrow> zero_ram x \<noteq> None"
  by (auto simp: ram_byte_def zero_ram_def)

subsection \<open>Properties\<close>

text \<open>C15: Whatever a task asks for (other than to run the client's code), its execution changes no byte
  outside of the RAM and calls the flash driver only with whole sectors and pages inside the flash
  window, aligned as the flash needs it.\<close>

theorem execute_task_safe:
  assumes "foreign_ok env" and "addressmap_ok am" and "picoboot_ok pb" and "task_ok task"
    and "\<not> has_type task AT_EXEC" and "vectors_intact env am s" and "buffers_ok s"
    and "execute_task_status env pb am task s = Some (ret, t)"
  shows "(\<forall>x. mem t x \<noteq> mem s x \<longrightarrow> ram_byte am x) \<and>
         (\<exists>calls. flash_calls t = flash_calls s @ calls \<and> list_all (flash_call_safe am) calls)"
  using execute_task_status_keeps [of env am pb task s ret t] assms
  by (simp add: task_inv_def safe_step_def picoboot_ok_def)

theorem execute_task_safe_witness:
  "execute_task_status no_foreign picoboot_h rp2040 example_erase example_async = Some (0, example_erased) \<and>
   flash_calls example_erased = erase_calls rp2040 0x10001000 2 \<and>
   list_all (flash_call_safe rp2040) (erase_calls rp2040 0x10001000 2)"
  using example_erase_result
    execute_task_safe [OF example_ok(1) rp2040_ok picoboot_h_ok example_erase_ok(2,3) example_ok(2,3)
      example_erase_result]
  by (simp add: example_erased_def) (simp add: example_async_def)

text \<open>C16: The table of flash functions in RAM stays as the worker copied it: a task that writes over any
  part of it goes back to the table in ROM, so no later call goes through a vector that a write has
  damaged.\<close>

theorem vectors_stay_intact:
  assumes "foreign_ok env" and "addressmap_ok am" and "picoboot_ok pb" and "task_ok task"
    and "\<not> has_type task AT_EXEC" and "vectors_intact env am s" and "buffers_ok s"
    and "execute_task_status env pb am task s = Some (ret, t)"
  shows "vectors_intact env am t \<and> (\<forall>k < 7. flash_vector env k t = Some (default_vector env k))"
  using execute_task_status_keeps [of env am pb task s ret t] assms flash_vector_intact [of env am t]
  by (simp add: task_inv_def picoboot_ok_def)

theorem vectors_stay_intact_witness:
  "execute_task_status no_foreign picoboot_h rp2040 example_erase example_async = Some (0, example_erased) \<and>
   flash_vector no_foreign 3 example_erased = Some (default_vector (no_foreign :: async_state foreign) 3)"
  using example_erase_result
    vectors_stay_intact [OF example_ok(1) rp2040_ok picoboot_h_ok example_erase_ok(2,3) example_ok(2,3)
      example_erase_result]
  by simp

text \<open>C17: An erase command erases exactly the sectors of its range, in order, and answers OK; an unaligned
  range is refused, and so is one that is not in flash.  A range that wraps around the end of the address
  space passes the checks, and nothing is erased.\<close>

theorem erase_task:
  assumes "foreign_ok env" and "addressmap_ok am" and "picoboot_ok pb"
    and "vectors_intact env am s" and "\<not> rebooting s"
    and "at_type task = AT_FLASH_ERASE" and "\<not> at_check_last_mutation_source task"
  shows "execute_task_status env pb am task s = Some
    (let a = at_erase_addr task; n = at_erase_size task; s = s\<lparr>last_mutation_source := at_source task\<rparr> in
     if \<not> (4096 dvd unat a \<and> 4096 dvd unat n) then (PICOBOOT_BAD_ALIGNMENT pb, s)
     else if \<not> (is_address_flash am a \<and> is_address_flash am (a + n)) then (PICOBOOT_INVALID_ADDRESS pb, s)
     else (PICOBOOT_OK pb, s\<lparr>flash_calls := flash_calls s @
             (if a < a + n then erase_calls am a (unat n div 4096) else [])\<rparr>))"
  using assms by (rule erase_task_status)

theorem erase_task_witness:
  "map_option (\<lambda>(r, t). (r, flash_calls t)) (execute_task_status no_foreign picoboot_h rp2040 example_erase example_async) =
   Some (0, [Flash_sector_erase 0x1000, Flash_sector_erase 0x2000])"
  using erase_task [OF example_ok(1) rp2040_ok picoboot_h_ok example_ok(2,4) example_erase_ok(1,4)]
  by (simp add: example_erase_ok picoboot_h_def rp2040_def is_address_flash_def example_async_def
      erase_calls_def upt_rec Let_def)

text \<open>C18: What a client writes to RAM, a later read gives back, whatever the transfer buffer held in
  between, for every range in RAM of at most a page.\<close>

theorem ram_write_then_read:
  assumes "addressmap_ok am" and "buffers_ok s" and "\<not> rebooting s"
    and "\<And>x. ram_byte am x \<Longrightarrow> mem s x \<noteq> None"
    and "at_type wr = AT_WRITE" "at_data wr = PicobootBuf" "\<not> at_check_last_mutation_source wr"
    and "at_type rd = AT_READ" "at_data rd = PicobootBuf"
    and "at_transfer_addr rd = at_transfer_addr wr" "at_data_length rd = at_data_length wr" "task_ok wr"
    and "is_address_ram am (at_transfer_addr wr)"
    and "is_address_ram am (at_transfer_addr wr + at_data_length wr)" and "length other = 256"
  shows "\<exists>s1. execute_task_status env pb am wr s = Some (PICOBOOT_OK pb, s1) \<and>
           execute_task_status env pb am rd (s1\<lparr>picoboot_buf := other\<rparr>) =
             Some (PICOBOOT_OK pb, s1\<lparr>picoboot_buf :=
               take (unat (at_data_length wr)) (picoboot_buf s) @ drop (unat (at_data_length wr)) other\<rparr>)"
proof -
  let ?a = "at_transfer_addr wr" and ?n = "unat (at_data_length wr)"
  let ?bs = "take ?n (picoboot_buf s)"
  define s0 where "s0 = revert_vectors ?a (at_data_length wr) (s\<lparr>last_mutation_source := at_source wr\<rparr>)"
  have n: "?n \<le> 256" "length ?bs = ?n" using assms(2,12) by (simp_all add: task_ok_def buffers_ok_def)
  have s0: "mem s0 = mem s" "picoboot_buf s0 = picoboot_buf s" "\<not> rebooting s0"
    using assms(3) by (simp_all add: s0_def revert_vectors_def split: option.splits)
  have types: "has_type wr AT_WRITE" "has_type wr (AT_WRITE OR AT_FLASH_ERASE)" "has_type wr (AT_WRITE OR AT_READ)"
    "\<not> has_type wr AT_READ" "\<not> has_type wr AT_FLASH_ERASE" "has_type rd AT_READ" "\<not> has_type rd AT_WRITE"
    "\<not> has_type rd (AT_WRITE OR AT_FLASH_ERASE)" "has_type rd (AT_WRITE OR AT_READ)" "\<not> has_type rd AT_FLASH_ERASE"
    using assms(5,8) by (simp_all add: has_type_def task_types)
  have others: "\<not> has_type t AT_VECTORIZE_FLASH" "\<not> has_type t AT_EXCLUSIVE" "\<not> has_type t AT_EXIT_XIP"
    "\<not> has_type t AT_EXEC" "\<not> has_type t AT_ENTER_CMD_XIP" if "t = wr \<or> t = rd" for t
    using that assms(5,8) by (auto simp: has_type_def task_types)
  have "mem s (?a + of_nat k) \<noteq> None" if "k < length ?bs" for k
    using ram_range(1) [OF assms(1,13), of ?n k] assms(4,14) n that by simp
  then obtain m where m: "mem_write ?a ?bs (mem s) = Some m" using mem_write_total by blast
  have access: "transfer_access pb am wr = Inr True" "transfer_access pb am rd = Inr True"
    using assms(10,11,13,14) by (simp_all add: transfer_access_def Let_def)
  define s1 where "s1 = s0\<lparr>mem := m\<rparr>"
  have "execute_task_status env pb am wr s = Some (PICOBOOT_OK pb, s1)"
    using types others [of wr] access(1) assms(3,6,7) m s0 n
    by (simp add: execute_task_status_def watchdog_rebooting_def execute_task_body_def and_then_def exec_vectorize_def
        exec_exclusive_def exec_exit_xip_def exec_exec_def exec_mutation_def exec_erase_def
        exec_transfer_def exec_write_def exec_read_def exec_enter_cmd_xip_def go_on_def load_data_def
        s0_def [symmetric] s1_def Let_def)
  moreover have "mem_read m ?a ?n = Some ?bs" using mem_write_read [OF m] n by simp
  then have "execute_task_status env pb am rd (s1\<lparr>picoboot_buf := other\<rparr>) =
      Some (PICOBOOT_OK pb, s1\<lparr>picoboot_buf := ?bs @ drop ?n other\<rparr>)"
    using types others [of rd] access(2) assms(9-11,15) s0 n
    by (simp add: execute_task_status_def watchdog_rebooting_def execute_task_body_def and_then_def exec_vectorize_def
        exec_exclusive_def exec_exit_xip_def exec_exec_def exec_mutation_def exec_erase_def
        exec_transfer_def exec_write_def exec_read_def exec_enter_cmd_xip_def go_on_def store_data_def
        store_list_def s1_def)
  ultimately show ?thesis by blast
qed

theorem ram_write_then_read_witness:
  "\<exists>s1. execute_task_status no_foreign picoboot_h rp2040 example_write example_async = Some (0, s1) \<and>
     execute_task_status no_foreign picoboot_h rp2040 (example_write\<lparr>at_type := AT_READ\<rparr>)
       (s1\<lparr>picoboot_buf := replicate 256 0\<rparr>) =
     Some (0, s1\<lparr>picoboot_buf := take 3 (replicate 256 7) @ drop 3 (replicate 256 0)\<rparr>)"
proof -
  have w: "at_type example_write = AT_WRITE" "at_data example_write = PicobootBuf"
    "at_transfer_addr example_write = 0x20000010" "at_data_length example_write = 3"
    "\<not> at_check_last_mutation_source example_write" "task_ok example_write"
    by (simp_all add: example_write_def reset_task_def task_ok_def)
  have "picoboot_buf example_async = replicate 256 7" "PICOBOOT_OK picoboot_h = 0"
    by (simp_all only: example_async_def picoboot_h_def async_state.simps picoboot_consts.simps)
  then show ?thesis
    using ram_write_then_read [OF rp2040_ok example_ok(3,4), of example_write
        "example_write\<lparr>at_type := AT_READ\<rparr>" "replicate 256 0" no_foreign picoboot_h] w
    by (simp add: example_ok(5) zero_ram_mapped is_address_ram_def rp2040_def
        del: take_replicate drop_replicate replicate.simps)
qed

text \<open>C19: A write or erase that is checked against the source of the last one is refused when another
  source came in between, and then it changes nothing at all.\<close>

theorem interleaved_write_refused:
  assumes "\<not> rebooting s" and "has_type task (AT_WRITE OR AT_FLASH_ERASE)"
    and "at_type task AND (AT_VECTORIZE_FLASH OR AT_EXCLUSIVE OR AT_EXIT_XIP OR AT_EXEC) = 0"
    and "at_check_last_mutation_source task" and "last_mutation_source s \<noteq> at_source task"
  shows "execute_task_status env pb am task s = Some (PICOBOOT_INTERLEAVED_WRITE pb, s)"
proof -
  have "\<not> has_type task t" if "t \<in> {AT_VECTORIZE_FLASH, AT_EXCLUSIVE, AT_EXIT_XIP, AT_EXEC}" for t
  proof -
    have "at_type task AND t = at_type task AND (AT_VECTORIZE_FLASH OR AT_EXCLUSIVE OR AT_EXIT_XIP OR AT_EXEC) AND t"
      using that by (auto simp: task_types and.assoc)
    then show ?thesis using assms(3) by (simp add: has_type_def and.assoc [symmetric])
  qed
  then show ?thesis
    using assms
    by (simp add: execute_task_status_def watchdog_rebooting_def execute_task_body_def and_then_def exec_vectorize_def
        exec_exclusive_def exec_exit_xip_def exec_exec_def exec_mutation_def go_on_def return_status_def)
qed

theorem interleaved_write_refused_witness:
  "execute_task_status no_foreign picoboot_h rp2040
     (example_write\<lparr>at_source := 1, at_check_last_mutation_source := True\<rparr>) example_async =
   Some (6, example_async)"
  using interleaved_write_refused [OF example_ok(4), of "example_write\<lparr>at_source := 1, at_check_last_mutation_source := True\<rparr>"
      no_foreign picoboot_h rp2040]
  by (simp add: example_write_def reset_task_def has_type_def task_types picoboot_h_def)
    (simp add: example_async_def)

text \<open>C20: The command to go back to command mode of the flash answers OK and does nothing: its type bit is
  looked at inside the block for reads and writes only.\<close>

theorem enter_cmd_xip_ignored:
  assumes "\<not> rebooting s" and "at_type task = AT_ENTER_CMD_XIP"
  shows "execute_task_status env pb am task s = Some (PICOBOOT_OK pb, s)"
  using assms
  by (simp add: execute_task_status_def watchdog_rebooting_def execute_task_body_def and_then_def exec_vectorize_def
      exec_exclusive_def exec_exit_xip_def exec_exec_def exec_mutation_def exec_erase_def
      exec_transfer_def go_on_def has_type_def task_types)

theorem enter_cmd_xip_ignored_witness:
  "execute_task_status no_foreign picoboot_h rp2040 (reset_task\<lparr>at_type := AT_ENTER_CMD_XIP\<rparr>) example_async =
   Some (0, example_async)"
  using enter_cmd_xip_ignored [OF example_ok(4), of "reset_task\<lparr>at_type := AT_ENTER_CMD_XIP\<rparr>" no_foreign picoboot_h rp2040]
  by (simp add: picoboot_h_def)

text \<open>C21: However many tasks are queued before the worker looks, it takes the last one, with the callback
  it was queued with, and takes it once; queueing and taking leave the disable flag alone.\<close>

theorem last_queued_task_taken:
  assumes "is \<noteq> []"
  shows "fst (dequeue_task (fold queue_op is q)) = Some ((fst (last is))\<lparr>at_callback := Some (snd (last is))\<rparr>) \<and>
         fst (dequeue_task (snd (dequeue_task (fold queue_op is q)))) = None \<and>
         q_disable (snd (dequeue_task (fold queue_op is q))) = q_disable q"
proof -
  have "q_disable (fold queue_op is q) = q_disable q"
    by (induction "is" arbitrary: q) (simp_all add: queue_ops_keep_disable)
  then show ?thesis
    using task_queue.latest_taken [OF assms, of q] by (simp add: queue_ops_keep_disable split_beta)
qed

theorem last_queued_task_taken_witness:
  "fst (dequeue_task (fold queue_op [(example_erase, Atc_ack), (example_write, Write_uf2_page_complete)] empty_queue)) =
   Some (example_write\<lparr>at_callback := Some Write_uf2_page_complete\<rparr>)"
  using last_queued_task_taken [of "[(example_erase, Atc_ack), (example_write, Write_uf2_page_complete)]" empty_queue]
  by (simp only: list.distinct simp_thms last.simps fst_conv snd_conv if_False if_True)

text \<open>C22: Exclusive access: after the command with a parameter other than 0, the worker runs no task of the
  virtual disk; it only calls its callback, with the result 1, and nothing else changes.  With parameter 0
  the task is executed.\<close>

theorem exclusive_access:
  assumes "\<not> rebooting s" and "at_type ex = AT_EXCLUSIVE" and "q_full (virtual_disk_queue s)"
    and "at_callback (q_task (virtual_disk_queue s)) = Some cb"
  shows "\<exists>s1. execute_task_status env pb am ex s = Some (PICOBOOT_OK pb, s1) \<and>
           flash_calls s1 = flash_calls s \<and> mem s1 = mem s \<and>
           async_task_worker env pb am call s1 =
             (let s2 = s1\<lparr>virtual_disk_queue := (virtual_disk_queue s1)\<lparr>q_full := False\<rparr>\<rparr>;
                  task = q_task (virtual_disk_queue s) in
              if at_exclusive_param ex \<noteq> 0 then map_option (Pair True) (call cb (task\<lparr>at_result := 1\<rparr>) s2)
              else do {
                (ret, s3) \<leftarrow> execute_task_status env pb am task s2;
                map_option (Pair True) (call cb (task\<lparr>at_result := ret\<rparr>) s3)
              })"
proof -
  define s1 where "s1 = (if at_exclusive_param ex = EXCLUSIVE_AND_EJECT pb then
      s\<lparr>virtual_disk_queue := (virtual_disk_queue s)\<lparr>q_disable := at_exclusive_param ex \<noteq> 0\<rparr>, ejected := True\<rparr>
    else s\<lparr>virtual_disk_queue := (virtual_disk_queue s)\<lparr>q_disable := at_exclusive_param ex \<noteq> 0\<rparr>\<rparr>)"
  have "execute_task_status env pb am ex s = Some (PICOBOOT_OK pb, s1)"
    using assms(1,2)
    by (simp add: execute_task_status_def watchdog_rebooting_def execute_task_body_def and_then_def exec_vectorize_def
        exec_exclusive_def exec_exit_xip_def exec_exec_def exec_mutation_def exec_erase_def
        exec_transfer_def go_on_def has_type_def task_types s1_def async_disable_queue_def Let_def)
  moreover have "virtual_disk_queue s1 = (virtual_disk_queue s)\<lparr>q_disable := at_exclusive_param ex \<noteq> 0\<rparr>"
    "flash_calls s1 = flash_calls s" "mem s1 = mem s"
    by (simp_all add: s1_def)
  ultimately show ?thesis
    using assms(3,4)
    by (intro exI [of _ s1])
      (simp add: async_task_worker_def dequeue_task_def execute_task_def Let_def split_beta
        map_option_bind [symmetric] split: Option.bind_splits)
qed

theorem exclusive_access_witness:
  "\<exists>s1. execute_task_status no_foreign picoboot_h rp2040
       (reset_task\<lparr>at_type := AT_EXCLUSIVE, at_exclusive_param := 1\<rparr>)
       (example_async\<lparr>virtual_disk_queue := queue_op (example_write, Write_uf2_page_complete) empty_queue\<rparr>) =
       Some (0, s1) \<and> mem s1 = zero_ram"
  using exclusive_access [of "example_async\<lparr>virtual_disk_queue := queue_op (example_write, Write_uf2_page_complete) empty_queue\<rparr>"
      "reset_task\<lparr>at_type := AT_EXCLUSIVE, at_exclusive_param := 1\<rparr>" Write_uf2_page_complete no_foreign picoboot_h
      rp2040 "\<lambda>_ _ s. Some s"]
  by (auto simp: example_ok queue_op_def queue_task_def Let_def picoboot_h_def)

end
