(* ===== verification/Worker_History.thy ===== *)
theory Worker_History
  imports Usb_Wiring Async_Safety
begin

text \<open>
  A turn of the worker, seen from the device: a task changes the memory only where it says, and neither it nor its
  callback changes what the start of the device set up.  The stages of a task by the contract of
  \<open>Async_Safety\<close>, the callbacks by the locales of \<open>Usb_Frame\<close>.  Only turns in which no code of the client runs: its
  code may do anything.
\<close>

subsection \<open>The callbacks\<close>

context boot_view begin

lemma page_complete_ok: "V s = v \<Longrightarrow> ok v (write_uf2_page_complete prog cb task s)"
  by (simp only: write_uf2_page_complete_def Let_def) (intro async_complete_ok; simp)

lemma atc_ok: "V s = v \<Longrightarrow> ok v (atc_ack cb task s)" "V s = v \<Longrightarrow> ok v (atc_chunk_task_done cb task s)"
  by (simp_all only: atc_ack_def atc_chunk_task_done_def usb_stream_chunk_done_def usb_halt_endpoint_def Let_def)
    (intro ok_rules picoboot_ack_ok handler_complete_ok stall_ok; simp)+

lemma task_callback_ok: "V s = v \<Longrightarrow> ok v (run_task_callback prog cb c task s)"
  by (cases c) (simp_all add: run_task_callback_def page_complete_ok atc_ok)

end

subsection \<open>Where a task writes\<close>

text \<open>The bytes of a transfer to memory, and of the copy of the table of flash functions.\<close>

definition task_area :: "'s foreign \<Rightarrow> async_task \<Rightarrow> u32 set" where
  "task_area env task =
     {at_transfer_addr task + of_nat k | k. has_type task AT_WRITE \<and> k < unat (at_data_length task) \<or>
        has_type task AT_VECTORIZE_FLASH \<and> k < length (funcs_image env)}"

text \<open>The task that the worker takes next.\<close>

definition next_task :: "'a async_state_scheme \<Rightarrow> async_task option" where
  "next_task s =
     (case fst (dequeue_task (virtual_disk_queue s)) of
        Some task \<Rightarrow> Some task
      | None \<Rightarrow> fst (dequeue_task (picoboot_queue s)))"

definition turn_area :: "'a async_state_scheme foreign \<Rightarrow> 'a async_state_scheme \<Rightarrow> u32 set" where
  "turn_area env s = (case next_task s of None \<Rightarrow> {} | Some task \<Rightarrow> task_area env task)"

definition no_client :: "'s foreign \<Rightarrow> bool" where
  "no_client env \<longleftrightarrow> user_code env = (\<lambda>_ _ _ _. None)"

subsection \<open>The stages\<close>

definition worker_keeps :: "u32 set \<Rightarrow> 'a boot_state_scheme \<Rightarrow> 'a boot_state_scheme \<Rightarrow> bool" where
  "worker_keeps A s t \<longleftrightarrow>
     wiring t = wiring s \<and> (\<forall>x. x \<notin> A \<longrightarrow> mem t x = mem s x) \<and> (\<forall>x. mem t x = None \<longleftrightarrow> mem s x = None)"

interpretation work: stage_contract "\<lambda>_. True" "worker_keeps A" for A
  by unfold_locales (auto simp: worker_keeps_def)

lemma worker_keeps_fields:
  "worker_keeps A s (s\<lparr>flash_funcs := f\<rparr>)" "worker_keeps A s (s\<lparr>virtual_disk_queue := q\<rparr>)" "worker_keeps A s (s\<lparr>ejected := b\<rparr>)"
  "worker_keeps A s (s\<lparr>last_mutation_source := l\<rparr>)" "worker_keeps A s (s\<lparr>flash_calls := c\<rparr>)"
  "worker_keeps A s (s\<lparr>picoboot_queue := q\<rparr>)" "worker_keeps A s s"
  by (simp_all add: worker_keeps_def wiring_defs)

lemma worker_trans: "worker_keeps A s t \<Longrightarrow> worker_keeps A t u \<Longrightarrow> worker_keeps A s u"
  by (auto simp: worker_keeps_def)

lemma worker_call_flash: "worker_keeps A s t \<Longrightarrow> worker_keeps A s (call_flash c t)"
  unfolding call_flash_def by (erule worker_trans) (rule worker_keeps_fields)

lemma worker_store_data:
  assumes "store_data p bs t = Some u" "worker_keeps A s t" shows "worker_keeps A s u"
proof -
  have "worker_keeps A t (t\<lparr>sector_buf := b\<rparr>)" if "length b = length (sector_buf t)" for b
    using that by (simp add: worker_keeps_def wiring_defs)
  moreover have "worker_keeps A t (t\<lparr>picoboot_buf := b\<rparr>)" if "length b = length (picoboot_buf t)" for b
    using that by (simp add: worker_keeps_def wiring_defs)
  ultimately have "worker_keeps A t u"
    using assms(1) by (auto simp: store_data_def split: data_ptr.splits dest!: length_store_list)
  with assms(2) show ?thesis by (rule worker_trans)
qed

lemma worker_mem_write:
  assumes "mem_write a bs (mem s) = Some m" "\<And>k. k < length bs \<Longrightarrow> a + of_nat k \<in> A"
  shows "worker_keeps A s (s\<lparr>mem := m\<rparr>)"
proof -
  have "m x = mem s x" if "x \<notin> A" for x using mem_write_outside [OF assms(1), of x] assms(2) that by blast
  then show ?thesis using mem_write_dom [OF assms(1)] by (simp add: worker_keeps_def wiring_defs)
qed

text \<open>A call through the table without a client is one of the program's own function.\<close>

lemma call_own:
  assumes "call_vector env k args d f s = Some r" "no_client env" shows "f s = Some r"
  using assms by (auto simp: call_vector_def no_client_def bind_eq_Some_conv split: if_splits)

lemma check_call_keeps:
  assumes "check_ret (call_vector env k args d f s) = Some (r, t)" "no_client env"
    and "\<And>ret u. f s = Some (ret, u) \<Longrightarrow> worker_keeps A s u"
  shows "worker_keeps A s t"
  using assms by (auto simp: check_ret_def dest: call_own)

lemma erase_loop_keeps:
  assumes "erase_loop env am e a ret s = Some r" "no_client env" shows "worker_keeps A s (snd r)"
  using assms
proof (induction rule: erase_loop.raw_induct [rotated, consumes 1, case_names step])
  case (step f env am e a ret s r)
  show ?case
  proof (cases "a < e \<and> ret = 0")
    case True
    then obtain ret' u where u: "call_vector env 3 [a] NullPtr (Some \<circ> do_flash_erase_sector am a) s = Some (ret', u)"
      and t: "f env am e (a + FLASH_SECTOR_ERASE_SIZE) ret' u = Some r"
      using step.hyps(1) by (auto simp: bind_eq_Some_conv)
    have "worker_keeps A s u"
      using call_own [OF u step.prems] by (auto simp: do_flash_erase_sector_def intro: worker_call_flash worker_keeps_fields)
    then show ?thesis using step.IH [OF t step.prems] worker_trans by blast
  qed (use step.hyps(1) in \<open>auto simp: worker_keeps_fields\<close>)
qed

lemma erase_range_keeps: "erase_loop env am e a ret s = Some (r, t) \<Longrightarrow> no_client env \<Longrightarrow> worker_keeps A s t"
  by (drule (1) erase_loop_keeps) simp

lemma exclusive_keeps: "work.keeps A (exec_exclusive pb task)"
proof (rule work.keepsI)
  fix s :: "'a boot_state_scheme" and r t
  assume "exec_exclusive pb task s = Some (r, t)"
  then obtain q b where "t = s \<or> t = s\<lparr>virtual_disk_queue := q\<rparr> \<or> t = s\<lparr>virtual_disk_queue := q, ejected := b\<rparr>"
    by (auto simp: exec_exclusive_def go_on_def Let_def split: if_splits)
  then show "worker_keeps A s t"
    by (elim disjE) (simp_all only: worker_keeps_fields worker_trans [OF worker_keeps_fields(2) worker_keeps_fields(3)])
qed

lemma stages_keep:
  assumes "no_client env"
  shows "work.keeps A (exec_exclusive pb task)" "work.keeps A (exec_mutation pb task)"
    "work.keeps A (exec_exec env task)" "work.keeps A (exec_exit_xip env task)" "work.keeps A (exec_enter_cmd_xip env task)"
    "work.keeps A (exec_erase env pb am task)" "work.keeps A (exec_read env am direct task)"
proof -
  show "work.keeps A (exec_exclusive pb task)" by (rule exclusive_keeps)
  show "work.keeps A (exec_mutation pb task)"
    by (auto intro!: work.keepsI worker_keeps_fields simp: exec_mutation_def go_on_def return_status_def split: if_splits)
  show "work.keeps A (exec_exec env task)"
    using assms by (auto intro!: work.keepsI worker_keeps_fields simp: exec_exec_def no_client_def go_on_def split: if_splits)
  show "work.keeps A (exec_exit_xip env task)"
    by (rule work.keepsI) (auto simp: exec_exit_xip_def go_on_def do_flash_exit_xip_def split: if_splits
        elim!: check_call_keeps [OF _ assms] intro!: worker_call_flash worker_keeps_fields)
  show "work.keeps A (exec_enter_cmd_xip env task)"
    by (rule work.keepsI) (auto simp: exec_enter_cmd_xip_def go_on_def do_flash_enter_cmd_xip_def split: if_splits
        elim!: check_call_keeps [OF _ assms] intro!: worker_call_flash worker_keeps_fields)
  show "work.keeps A (exec_erase env pb am task)"
    by (rule work.keepsI) (auto simp: exec_erase_def go_on_def return_status_def do_flash_erase_range_def split: if_splits
        elim!: check_call_keeps [OF _ assms] erase_range_keeps [OF _ assms] intro!: worker_keeps_fields)
  show "work.keeps A (exec_read env am direct task)"
    by (rule work.keepsI) (auto simp: exec_read_def go_on_def do_flash_page_read_def bind_eq_Some_conv Let_def split: if_splits
        elim!: check_call_keeps [OF _ assms] intro!: worker_call_flash worker_keeps_fields elim: worker_store_data)
qed

lemma exec_vectorize_keeps: "work.keeps (task_area env task) (exec_vectorize env pb am task)"
proof (rule work.keepsI)
  fix s :: "'a boot_state_scheme" and r t
  assume step: "exec_vectorize env pb am task s = Some (r, t)"
  show "worker_keeps (task_area env task) s t"
  proof (cases "t = s")
    case False
    then obtain m where m: "mem_write (at_transfer_addr task) (funcs_image env) (mem s) = Some m"
        "t = s\<lparr>mem := m, flash_funcs := Some (at_transfer_addr task)\<rparr>" "has_type task AT_VECTORIZE_FLASH"
      using step by (auto simp: exec_vectorize_def go_on_def return_status_def bind_eq_Some_conv split: if_splits)
    have "worker_keeps (task_area env task) s (s\<lparr>mem := m\<rparr>)"
      by (rule worker_mem_write [OF m(1)]) (use m(3) in \<open>auto simp: task_area_def\<close>)
    then show ?thesis unfolding m(2) by (rule worker_trans) (rule worker_keeps_fields)
  qed (simp add: worker_keeps_fields)
qed

lemma length_load_data: "load_data p n s = Some bs \<Longrightarrow> length bs = n"
  by (auto simp: load_data_def split: data_ptr.splits if_splits)

lemma exec_write_keeps:
  assumes "no_client env" shows "work.keeps (task_area env task) (exec_write env am direct task)"
proof (rule work.keepsI)
  fix s :: "'a boot_state_scheme" and r t
  assume step: "exec_write env am direct task s = Some (r, t)"
  let ?a = "at_transfer_addr task" and ?n = "at_data_length task"
  show "worker_keeps (task_area env task) s t"
  proof (cases "has_type task AT_WRITE \<and> direct")
    case True
    let ?s = "revert_vectors ?a ?n s"
    obtain bs m where bs: "load_data (at_data task) (unat ?n) s = Some bs" and m: "mem_write ?a bs (mem ?s) = Some m"
      and t: "t = ?s\<lparr>mem := m\<rparr>"
      using step True by (auto simp: exec_write_def go_on_def bind_eq_Some_conv Let_def)
    have "worker_keeps (task_area env task) s ?s" by (simp add: revert_vectors_def worker_keeps_fields split: option.split)
    moreover have "worker_keeps (task_area env task) ?s t" unfolding t
      by (rule worker_mem_write [OF m]) (use True length_load_data [OF bs] in \<open>auto simp: task_area_def\<close>)
    ultimately show ?thesis by (rule worker_trans)
  next
    case False
    then show ?thesis
      using step by (auto simp: exec_write_def go_on_def do_flash_page_program_def bind_eq_Some_conv split: if_splits
          elim!: check_call_keeps [OF _ assms] intro!: worker_call_flash worker_keeps_fields)
  qed
qed

lemma exec_transfer_keeps:
  assumes "no_client env" shows "work.keeps (task_area env task) (exec_transfer env pb am task)"
proof (rule work.keepsI)
  fix s :: "'a boot_state_scheme" and r t
  assume step: "exec_transfer env pb am task s = Some (r, t)"
  have "work.keeps (task_area env task)
      (and_then (exec_write env am d task) (and_then (exec_read env am d task) (exec_enter_cmd_xip env task)))" for d
    by (intro work.keeps_and_then exec_write_keeps stages_keep assms)
  then show "worker_keeps (task_area env task) s t"
    using step by (auto simp: exec_transfer_def go_on_def return_status_def worker_keeps_fields split: if_splits sum.splits
        dest: work.keepsD)
qed

lemma task_status_keeps:
  assumes "no_client env" "execute_task_status env pb am task s = Some (r, t)"
  shows "worker_keeps (task_area env task) s t"
proof -
  have "work.keeps (task_area env task) (execute_task_body env pb am task)"
    unfolding execute_task_body_def
    by (intro work.keeps_and_then exec_vectorize_keeps exec_transfer_keeps [OF assms(1)] stages_keep [OF assms(1)])
  then show ?thesis
    using assms(2) by (auto simp: execute_task_status_def worker_keeps_fields split: if_splits dest: work.keepsD)
qed

subsection \<open>A turn\<close>

text \<open>What a turn keeps: the wiring, and outside of its area and of the bit sets the memory.\<close>

definition turn_keeps :: "addressmap \<Rightarrow> u32 set \<Rightarrow> 'a boot_state_scheme \<Rightarrow> 'a boot_state_scheme \<Rightarrow> bool" where
  "turn_keeps am A s t \<longleftrightarrow>
     wiring t = wiring s \<and>
     (\<forall>x. \<not> bitset_byte am x \<longrightarrow> (x \<notin> A \<longrightarrow> mem t x = mem s x) \<and> (mem s x \<noteq> None \<longrightarrow> mem t x \<noteq> None))"

lemma turn_refl: "turn_keeps am {} s s" by (simp add: turn_keeps_def)

lemma turn_mono: "turn_keeps am A s t \<Longrightarrow> A \<subseteq> B \<Longrightarrow> turn_keeps am B s t"
  by (auto simp: turn_keeps_def)

lemma worker_turn_keeps: "worker_keeps A s t \<Longrightarrow> turn_keeps am A s t"
  by (simp add: worker_keeps_def turn_keeps_def)

lemma turn_trans: "turn_keeps am A s t \<Longrightarrow> turn_keeps am B t u \<Longrightarrow> turn_keeps am (A \<union> B) s u"
  by (simp add: turn_keeps_def)

lemma quiet_turn_keeps:
  assumes "wiring t = wiring s" "quiet_view am t = quiet_view am s" shows "turn_keeps am {} s t"
proof -
  have "outside_bitsets am (mem t) = outside_bitsets am (mem s)" using assms(2) by (simp add: quiet_view_def)
  then have "mem t x = mem s x" if "\<not> bitset_byte am x" for x using that by (auto simp: outside_bitsets_def dest: fun_cong [of _ _ x])
  then show ?thesis using assms(1) by (simp add: turn_keeps_def)
qed

lemma callback_keeps:
  assumes "run_task_callback prog (run prog n) c task s = Some t" "set_up (wiring s)"
  shows "turn_keeps (prog_am prog) {} s t"
  using wires.okD [OF wires.task_callback_ok [OF refl] assms(2,1)] device.okD [OF device.task_callback_ok [OF refl] _ assms(1)]
  by (intro quiet_turn_keeps) simp_all

lemma execute_task_keeps:
  assumes "execute_task env pb (prog_am prog) (run_task_callback prog (run prog n)) disable task s = Some t"
    and "no_client env" "set_up (wiring s)"
  shows "turn_keeps (prog_am prog) (task_area env task) s t"
proof -
  obtain r u c where u: "(if disable then Some (1, s) else execute_task_status env pb (prog_am prog) task s) = Some (r, u)"
    and t: "run_task_callback prog (run prog n) c (task\<lparr>at_result := r\<rparr>) u = Some t"
    using assms(1) by (auto simp: execute_task_def bind_eq_Some_conv Let_def split: if_splits)
  have k: "worker_keeps (task_area env task) s u"
    using u task_status_keeps [OF assms(2)] by (auto simp: worker_keeps_fields split: if_splits)
  then have "set_up (wiring u)" using assms(3) by (simp add: worker_keeps_def)
  from turn_trans [OF worker_turn_keeps [OF k] callback_keeps [OF t this]] show ?thesis by simp
qed

text \<open>A turn changes only the area of the task that it takes.\<close>

lemma device_worker_keeps:
  assumes "device_worker prog n env s = Some (b, t)" "no_client env" "set_up (wiring s)"
  shows "turn_keeps (prog_am prog) (turn_area env s) s t"
proof -
  have run: "turn_keeps (prog_am prog) (task_area env task) s t"
    if "execute_task env (prog_pb prog) (prog_am prog) (run_task_callback prog (run prog n)) d task u = Some t"
      "worker_keeps {} s u" for d task u
  proof -
    have "set_up (wiring u)" using that(2) assms(3) by (simp add: worker_keeps_def)
    from turn_trans [OF worker_turn_keeps [OF that(2)] execute_task_keeps [OF that(1) assms(2) this]] show ?thesis by simp
  qed
  show ?thesis
  proof (cases "next_task s")
    case None
    then have "t = s" using assms(1)
      by (auto simp: device_worker_def async_task_worker_def next_task_def dequeue_task_def split: if_splits)
    then show ?thesis by (simp add: turn_keeps_def)
  next
    case (Some task)
    then obtain d q where "execute_task env (prog_pb prog) (prog_am prog) (run_task_callback prog (run prog n)) d task
          (s\<lparr>virtual_disk_queue := q\<rparr>) = Some t \<or>
        execute_task env (prog_pb prog) (prog_am prog) (run_task_callback prog (run prog n)) d task (s\<lparr>picoboot_queue := q\<rparr>) = Some t"
      using assms(1) by (auto simp: device_worker_def async_task_worker_def next_task_def dequeue_task_def split: if_splits)
    then have "turn_keeps (prog_am prog) (task_area env task) s t"
      by (elim disjE) (erule run, rule worker_keeps_fields)+
    then show ?thesis using Some by (simp add: turn_area_def)
  qed
qed

end
