(* ===== verification/Usb_Enumerate.thy ===== *)
theory Usb_Enumerate
  imports Usb_Configure Descriptors Worker_History Startup
begin

text \<open>
  Requests of the host on the control pipe: the setup packet, its interrupt, and the empty packet with which the
  device acknowledges.  With them the way from the start of the boot code to the disk that the host reads.
\<close>

subsection \<open>The empty packet\<close>

definition control_ready :: "usb_endpoint \<Rightarrow> bool" where
  "control_ready ep \<longleftrightarrow>
     halt_state ep = HS_NONE \<and> owned_buffer_count ep = 1 \<and> current_give_buffer ep = 0 \<and> next_pid ep = 1"

definition acknowledging :: "completed_func option \<Rightarrow> usb_transfer" where
  "acknowledging f = \<lparr>tr_type = Some Current_packet_only, tr_on_complete = f, packets_to_submit = 0, packets_to_handle = 1,
     outstanding_packet = False, packet_queued = False, started = True, completed = False\<rparr>"

text \<open>The endpoint with the packet in its buffer.\<close>

definition ack_given :: "completed_func option \<Rightarrow> 'a usb_state_scheme \<Rightarrow> bool" where
  "ack_given f s \<longleftrightarrow>
     (let ep = endpoints s Control_in; c = fst (buf_ctrls s (0, True)) in
      ep_in ep \<and> current_transfer ep = Some Control_in_transfer \<and> chain_transfer ep = None \<and> halt_state ep = HS_NONE \<and>
      transfers s Control_in_transfer = acknowledging f \<and>
      bc_avail c \<and> bc_full c \<and> \<not> bc_stall c \<and> bc_data1 c \<and> bc_len c = 0)"

definition ack_filled :: "completed_func option \<Rightarrow> 'a usb_state_scheme \<Rightarrow> 'a usb_state_scheme" where
  "ack_filled f s =
     (let ep = endpoints s Control_in;
          buf = \<lparr>buf_data = unat (dpram_buffer_offset ep), buf_data_len = 0, buf_data_max = ucast (buffer_size ep), buf_valid = True\<rparr>
      in s\<lparr>endpoints := (endpoints s)(Control_in := ep\<lparr>current_hw_buffer := if buf_valid (current_hw_buffer ep)
             then (current_hw_buffer ep)\<lparr>buf_data_len := 0\<rparr> else buf, current_transfer := Some Control_in_transfer,
             chain_transfer := None\<rparr>),
           transfers := (transfers s)(Control_in_transfer :=
             (acknowledging f)\<lparr>packets_to_submit := 1, outstanding_packet := True\<rparr>)\<rparr>)"

definition ack_state :: "completed_func option \<Rightarrow> 'a usb_state_scheme \<Rightarrow> 'a usb_state_scheme" where
  "ack_state f s =
     (let ep = endpoints (ack_filled f s) Control_in
      in s\<lparr>endpoints := (endpoints s)(Control_in := ep\<lparr>first_buffer_after_reset := False, next_pid := 0,
             current_hw_buffer := (current_hw_buffer ep)\<lparr>buf_valid := False\<rparr>, owned_buffer_count := 0\<rparr>),
           transfers := (transfers s)(Control_in_transfer := acknowledging f),
           buf_ctrls := (buf_ctrls s)((0, True) :=
             (\<lparr>bc_avail = True, bc_full = True, bc_data1 = True, bc_sel = first_buffer_after_reset ep, bc_stall = False, bc_len = 0\<rparr>,
              snd (buf_ctrls s (0, True))))\<rparr>)"

lemma ack_state_given:
  "planned Control_in (endpoints s Control_in) \<Longrightarrow> control_ready (endpoints s Control_in) \<Longrightarrow> ack_given f (ack_state f s)"
  by (simp add: planned_def control_ready_def ack_given_def ack_state_def ack_filled_def Let_def)

lemma start_ack:
  assumes "planned Control_in (endpoints s Control_in)" "control_ready (endpoints s Control_in)"
  shows "usb_start_empty_control_in_transfer (run prog (Suc m)) f s = Some (ack_state f s)"
proof -
  obtain ep where ep: "endpoints s Control_in = ep" by simp
  note c = assms(1) [unfolded planned_def ep] assms(2) [unfolded control_ready_def ep]
  let ?v = "ack_filled f s" and ?t = "ack_state f s"
  define u where "u = ?v\<lparr>transfers := (transfers s)(Control_in_transfer := (acknowledging f)\<lparr>packets_to_submit := 1\<rparr>)\<rparr>"
  have start: "usb_start_empty_control_in_transfer (run prog (Suc m)) f s = give_as_many (run prog (Suc m)) Control_in u"
    using c by (cases ep; cases "current_hw_buffer ep") (simp add: usb_start_empty_control_in_transfer_def usb_start_empty_transfer_def
        usb_current_packet_buffer_def set_buffer_len_def usb_reset_and_start_transfer_def usb_reset_transfer_def usb_start_transfer_def
        upd_ep_def upd_tr_def u_def ack_filled_def acknowledging_def ep Let_def del: run.simps)
  have u: "may_give_buffer Control_in u" "ep_in (endpoints u Control_in)" "owned_buffer_count (endpoints u Control_in) = 1"
    using c by (simp_all add: may_give_buffer_def u_def ack_filled_def acknowledging_def ep Let_def)
  have "usb_call_on_packet (run prog (Suc m)) Control_in u = usb_packet_done (run prog m) Control_in ?v"
    by (simp add: usb_call_on_packet_def u_def ack_filled_def acknowledging_def upd_tr_def call_void_def invoke_def void_def
        usb_transfer_current_packet_only_def option.map_comp comp_def option.map_ident Let_def)
  also have "\<dots> = Some ?t"
  proof -
    define v1 where "v1 = upd_tr Control_in_transfer (outstanding_packet_update (\<lambda>_. False)) ?v"
    have v1: "endpoints v1 = endpoints ?v" "transfers v1 Control_in_transfer = (acknowledging f)\<lparr>packets_to_submit := 1\<rparr>"
      by (simp_all add: v1_def upd_tr_def ack_filled_def acknowledging_def Let_def)
    have ep_v: "current_transfer (endpoints ?v Control_in) = Some Control_in_transfer" "halt_state (endpoints ?v Control_in) = HS_NONE"
      "ep_in (endpoints ?v Control_in)" "buf_data_len (current_hw_buffer (endpoints ?v Control_in)) = 0"
      using c by (simp_all add: ack_filled_def ep Let_def)
    have check: "check_for_transfer_completion (run prog m) Control_in v1 = Some v1"
      by (simp add: check_for_transfer_completion_def v1 ep_v acknowledging_def Let_def)
    have "\<exists>w. usb_give_buffer Control_in 0 v1 = Some w \<and> invalidate_buffer Control_in w = ?t"
      using c ep_v by (cases ep; cases "current_hw_buffer ep") (simp add: usb_give_buffer_def upd_ep_def upd_tr_def set_buf_ctrl_narrow_def buf_ctrl_wide_def
          set_buf_ctrl_wide_def v1_def ack_filled_def ack_state_def acknowledging_def invalidate_buffer_def ep Let_def)
    then obtain w where w: "usb_give_buffer Control_in 0 v1 = Some w" "invalidate_buffer Control_in w = ?t" by blast
    have t: "transfers ?t Control_in_transfer = acknowledging f" "current_transfer (endpoints ?t Control_in) = Some Control_in_transfer"
      by (simp_all add: ack_state_def ack_filled_def Let_def)
    have "give_as_many (run prog m) Control_in ?t = Some ?t"
      by (simp add: give_as_many.simps [of _ _ ?t] may_give_buffer_def t acknowledging_def)
    then show ?thesis
      using w ep_v by (simp add: usb_packet_done_def v1_def [symmetric] check v1 current_buffer_def t Let_def) (simp add: acknowledging_def)
  qed
  finally have call: "usb_call_on_packet (run prog (Suc m)) Control_in u = Some ?t" .
  have "owned_buffer_count (endpoints ?t Control_in) = 0" "\<not> may_give_buffer Control_in ?t"
    by (simp_all add: ack_state_def may_give_buffer_def ack_filled_def Let_def)
  then show ?thesis
    using start u call by (simp add: give_as_many.simps [of _ _ u] give_as_many.simps [of _ _ ?t] del: run.simps)
qed


subsection \<open>A request\<close>

text \<open>A setup packet arrives.  The interrupt line follows the bit of the status register.\<close>

definition setup_arrives :: "usb_setup_packet \<Rightarrow> 'a usb_state_scheme \<Rightarrow> 'a usb_state_scheme" where
  "setup_arrives p s = s\<lparr>setup_packet := p, hw := (hw s)\<lparr>sie_setup_rec := True, ints_setup_req := True\<rparr>\<rparr>"

definition line_follows :: "'a usb_state_scheme \<Rightarrow> 'a usb_state_scheme" where
  "line_follows s = s\<lparr>hw := (hw s)\<lparr>ints_setup_req := sie_setup_rec (hw s)\<rparr>\<rparr>"

text \<open>The host takes a packet DATA1 of the control pipe, whose buffer has a fixed place.\<close>

definition take_control :: "'a usb_state_scheme \<Rightarrow> (bytes \<times> 'a usb_state_scheme) option" where
  "take_control s =
     (let w = buf_ctrls s (0, True); c = fst w
      in if bc_avail c \<and> bc_full c \<and> \<not> bc_stall c \<and> bc_data1 c then
           Some (take (unat (bc_len c)) (drop 0x100 (dpram s)),
             s\<lparr>hw := (hw s)\<lparr>buf_status := buf_status (hw s) OR 1, ints_buff_status := True,
                  buf_cpu_should_handle := buf_cpu_should_handle (hw s) AND NOT 1\<rparr>,
                buf_ctrls := (buf_ctrls s)((0, True) := (c\<lparr>bc_avail := False, bc_full := False\<rparr>, snd w))\<rparr>)
         else None)"

definition host_request ::
    "program \<Rightarrow> nat \<Rightarrow> usb_setup_packet \<Rightarrow> 'a boot_state_scheme \<Rightarrow> (bytes \<times> 'a boot_state_scheme) option" where
  "host_request prog n p s = do {
     s \<leftarrow> device_interrupt prog n (setup_arrives p s);
     (bs, s) \<leftarrow> take_control (line_follows s);
     s \<leftarrow> device_interrupt prog n s;
     Some (bs, s)
   }"

text \<open>The resets at the beginning of \<open>usb_handle_setup_packet\<close>.\<close>

definition setup_prepared :: "usb_hw \<Rightarrow> usb_hw \<Rightarrow> 'a usb_state_scheme \<Rightarrow> 'a usb_state_scheme" where
  "setup_prepared h h' s =
     upd_ep Control_out (next_pid_update (\<lambda>_. 1)) (upd_ep Control_in (next_pid_update (\<lambda>_. 1))
       (reset_at False Control_out h' (reset_at False Control_in h s)))"

lemma control_resets:
  assumes "wired s"
  shows "\<exists>h h'. lines_of h' = lines_of (hw s) \<and>
    (do { s \<leftarrow> usb_soft_reset_endpoint cb Control_in s; s \<leftarrow> usb_soft_reset_endpoint cb Control_out s;
          Some (upd_ep Control_out (next_pid_update (\<lambda>_. 1)) (upd_ep Control_in (next_pid_update (\<lambda>_. 1)) s)) }) =
      Some (setup_prepared h h' s)"
proof -
  note p = wiredD(1) [OF assms, of Control_in, unfolded planned_def] wiredD(1) [OF assms, of Control_out, unfolded planned_def]
  obtain h where h: "usb_soft_reset_endpoint cb Control_in s = Some (reset_at False Control_in h s)" "lines_of h = lines_of (hw s)"
    using plain_reset [of s Control_in cb False] p by (auto simp: usb_soft_reset_endpoint_def)
  define u where "u = reset_at False Control_in h s"
  have u: "on_stall_change (endpoints u Control_out) = None" "default_transfer (endpoints u Control_out) = None" "hw u = h"
    using p by (simp_all add: u_def)
  then obtain h' where "usb_soft_reset_endpoint cb Control_out u = Some (reset_at False Control_out h' u)" "lines_of h' = lines_of h"
    using plain_reset [of u Control_out cb False] by (auto simp: usb_soft_reset_endpoint_def)
  then show ?thesis using h u(3) by (intro exI [of _ h] exI [of _ h']) (simp add: u_def setup_prepared_def)
qed

lemma setup_prepared_facts:
  assumes "wired s" "lines_of h' = lines_of (hw s)"
  shows "wired (setup_prepared h h' s)" "control_ready (endpoints (setup_prepared h h' s) Control_in)"
    "msc_side (setup_prepared h h' s) = msc_side s" "device (setup_prepared h h' s) = device s"
proof -
  note p = wiredD(1) [OF assms(1), of Control_in, unfolded planned_def] wiredD(1) [OF assms(1), of Control_out, unfolded planned_def]
  have "wiring (setup_prepared h h' s) = wiring (reset_at False Control_out h' (reset_at False Control_in h s))"
    unfolding setup_prepared_def by (simp add: wiring_updates)
  then show "wired (setup_prepared h h' s)"
    using wired_wiring [of "setup_prepared h h' s"] wired_wiring [OF wiring_reset_at] assms(1) by (metis (full_types))
  show "control_ready (endpoints (setup_prepared h h' s) Control_in)"
    using p by (simp add: setup_prepared_def control_ready_def upd_ep_def ep_after_reset_def ep_buffer_count_def)
  show "msc_side (setup_prepared h h' s) = msc_side s" "device (setup_prepared h h' s) = device s"
    using p assms(2) by (simp_all add: setup_prepared_def msc_side_def msc_core_def upd_ep_def)
qed

lemma no_buffers: "buf_status (hw s) = 0 \<Longrightarrow> usb_handle_buffer cb s = Some s"
  by (simp add: usb_handle_buffer_def upt_rec USB_MAX_ENDPOINTS_def Let_def)

lemma interrupt_setup:
  assumes "quiet_hw (hw s)" "usb_handle_setup_packet (run prog n) p (setup_arrives p s) = Some t"
    "lines_of (hw t) = lines_of (hw (setup_arrives p s))"
  shows "device_interrupt prog n (setup_arrives p s) = Some (t\<lparr>hw := (hw t)\<lparr>sie_setup_rec := False\<rparr>\<rparr>)"
    "quiet_hw (hw (line_follows (t\<lparr>hw := (hw t)\<lparr>sie_setup_rec := False\<rparr>\<rparr>)))"
proof -
  let ?t = "t\<lparr>hw := (hw t)\<lparr>sie_setup_rec := False\<rparr>\<rparr>"
  have l: "buf_status (hw ?t) = 0" "\<not> ints_bus_reset (hw s)" "\<not> ints_error (hw s)" "\<not> ints_bus_reset (hw t)" "\<not> ints_error (hw t)"
    using assms(1,3) by (simp_all add: lines_of_def setup_arrives_def quiet_hw_def)
  then show "device_interrupt prog n (setup_arrives p s) = Some ?t"
    using assms(2) no_buffers [of ?t "run prog n"]
    by (simp add: device_interrupt_def isr_usbctrl_def setup_arrives_def Let_def)
  show "quiet_hw (hw (line_follows ?t))" using l by (simp add: quiet_hw_def line_follows_def)
qed

text \<open>The acknowledgement is taken; then the function of the request runs.\<close>

lemma ack_taken:
  assumes "ack_given f s" "quiet_hw (hw s)"
  shows "\<exists>u t. take_control s = Some ([], u) \<and> device_interrupt prog n u =
      (case f of None \<Rightarrow> Some t | Some g \<Rightarrow> call_void (run prog n) (On_complete g Control_in Control_in_transfer) t) \<and>
    quiet_hw (hw t) \<and> msc_core t = msc_core s \<and> dpram t = dpram s \<and> device t = device s \<and> dev_addr_ctrl (hw t) = dev_addr_ctrl (hw s)"
proof -
  define h where "h = (hw s)\<lparr>buf_status := 1, ints_buff_status := True, buf_cpu_should_handle := buf_cpu_should_handle (hw s) AND NOT 1\<rparr>"
  define c where "c = (fst (buf_ctrls s (0, True)))\<lparr>bc_avail := False, bc_full := False\<rparr>"
  define u where "u = s\<lparr>hw := h, buf_ctrls := (buf_ctrls s)((0, True) := (c, snd (buf_ctrls s (0, True))))\<rparr>"
  note a = assms(1) [unfolded ack_given_def Let_def]
  have take: "take_control s = Some ([], u)"
    using a assms(2) by (simp add: take_control_def u_def h_def c_def quiet_hw_def Let_def)
  define E where "E = current_transfer_update (\<lambda>_. None) (current_take_buffer_update (\<lambda>_. 0)
      (owned_buffer_count_update (\<lambda>n. n + 1) (endpoints s Control_in)))"
  define t where "t = u\<lparr>hw := h\<lparr>buf_status := 0\<rparr>,
      transfers := (transfers s)(Control_in_transfer := (acknowledging f)\<lparr>packets_to_handle := 0, completed := True\<rparr>),
      endpoints := (endpoints s)(Control_in := E)\<rparr>"
  have h: "buf_status h = push_bit 0 1" "\<not> bit (buf_cpu_should_handle h) 0" "\<not> ints_setup_req h" "\<not> ints_bus_reset h" "\<not> ints_error h"
    "ints_buff_status h"
    using assms(2) by (simp_all add: h_def quiet_hw_def bit_simps)
  have "device_interrupt prog n u = handle_buffer_bit (run prog n) 0 u"
    using h by (intro interrupt_buffer) (simp_all add: u_def)
  also have "\<dots> = usb_handle_transfer (run prog n) 0 True 0 (u\<lparr>hw := h\<lparr>buf_status := 0\<rparr>\<rparr>)"
    using h(1,2) by (simp add: handle_buffer_bit_def hw_clear_buf_status_def u_def Let_def del: run.simps)
  also have "\<dots> = (case f of None \<Rightarrow> Some t | Some g \<Rightarrow> call_void (run prog n) (On_complete g Control_in Control_in_transfer) t)"
    using a by (cases f) (simp_all add: usb_handle_transfer_def handle_endpoint_def upd_ep_def upd_tr_def acknowledging_def u_def
        check_for_transfer_completion_def t_def E_def Let_def del: run.simps)
  finally show ?thesis using take h
    by (intro exI [of _ u] exI [of _ t]) (simp add: t_def u_def quiet_hw_def msc_core_def h_def)
qed

subsection \<open>SET_CONFIGURATION\<close>

definition set_configuration :: "u16 \<Rightarrow> usb_setup_packet" where
  "set_configuration c = \<lparr>bmRequestType = 0, bRequest = 9, wValue = c, wIndex = 0, wLength = 0\<rparr>"

lemma wired_controller:
  "wired (s\<lparr>hw := h\<rparr>) = wired s" "wired (s\<lparr>buf_ctrls := b\<rparr>) = wired s" "wired (s\<lparr>setup_packet := p\<rparr>) = wired s"
  "wiring (s\<lparr>hw := h\<rparr>) = wiring s" "wiring (s\<lparr>buf_ctrls := b\<rparr>) = wiring s" "wiring (s\<lparr>setup_packet := p\<rparr>) = wiring s"
  by (simp_all add: wiring_defs wired_def)

lemma quiet_controller:
  "quiet_view am (s\<lparr>hw := h\<rparr>) = quiet_view am s" "quiet_view am (s\<lparr>buf_ctrls := b\<rparr>) = quiet_view am s"
  "quiet_view am (s\<lparr>setup_packet := p\<rparr>) = quiet_view am s" "quiet_view am (s\<lparr>dpram := d\<rparr>) = quiet_view am s"
  by (simp_all add: quiet_view_def)

lemma interrupt_keeps:
  assumes "wired s" "device_interrupt prog n s = Some t"
  shows "wired t \<and> wiring t = wiring s \<and> quiet_view (prog_am prog) t = quiet_view (prog_am prog) s"
  using interrupt_wired [OF assms] interrupt_wiring [OF wired_set_up [OF assms(1)] assms(2)]
    device.okD [OF device.isr_ok [OF refl]] assms(2) by (simp add: device_interrupt_def)

lemma request_keeps:
  assumes "wired s" "host_request prog n p s = Some (bs, t)"
  shows "wired t \<and> wiring t = wiring s \<and> quiet_view (prog_am prog) t = quiet_view (prog_am prog) s"
proof -
  obtain u v w where u: "device_interrupt prog n (setup_arrives p s) = Some u" and v: "take_control (line_follows u) = Some (bs, v)"
    and t: "device_interrupt prog n v = Some t"
    using assms(2) by (auto simp: host_request_def bind_eq_Some_conv)
  have "wired (setup_arrives p s)" using assms(1) by (simp add: setup_arrives_def wired_controller)
  from interrupt_keeps [OF this u] have k: "wired u" "wiring u = wiring s" "quiet_view (prog_am prog) u = quiet_view (prog_am prog) s"
    by (simp_all add: setup_arrives_def wired_controller quiet_controller)
  moreover from this v have "wired v" "wiring v = wiring u" "quiet_view (prog_am prog) v = quiet_view (prog_am prog) u"
    by (auto simp: take_control_def line_follows_def wired_controller quiet_controller Let_def split: if_splits)
  ultimately show ?thesis using interrupt_keeps [OF _ t] by simp
qed

lemma set_configuration_handled:
  assumes "wired s"
  shows "\<exists>t. usb_handle_setup_packet (run prog (Suc (Suc m))) (set_configuration 1) s = Some t \<and>
    lines_of (hw t) = lines_of (hw s) \<and> ack_given None t \<and> msc_waiting t"
proof -
  let ?cb = "run prog (Suc (Suc m))"
  obtain h h' where l: "lines_of h' = lines_of (hw s)" and r: "do { s \<leftarrow> usb_soft_reset_endpoint ?cb Control_in s;
      s \<leftarrow> usb_soft_reset_endpoint ?cb Control_out s;
      Some (upd_ep Control_out (next_pid_update (\<lambda>_. 1)) (upd_ep Control_in (next_pid_update (\<lambda>_. 1)) s)) } = Some (setup_prepared h h' s)"
    using control_resets [OF assms, of ?cb] by blast
  define u where "u = setup_prepared h h' s"
  obtain a b where a: "usb_soft_reset_endpoint ?cb Control_in s = Some a" "usb_soft_reset_endpoint ?cb Control_out a = Some b"
      "upd_ep Control_out (next_pid_update (\<lambda>_. 1)) (upd_ep Control_in (next_pid_update (\<lambda>_. 1)) b) = u"
    using r by (auto simp: u_def bind_eq_Some_conv simp del: run.simps)
  note u = setup_prepared_facts [OF assms l, of h, folded u_def]
  obtain t where t: "usb_handle_set_config ?cb 1 u = Some t" "wired t" "msc_waiting t" "endpoints t Control_in = endpoints u Control_in"
    "lines_of (hw t) = lines_of (hw u)"
    using set_config_waits [OF u(1), of 1 prog m] by (auto simp del: run.simps)
  have p: "planned Control_in (endpoints t Control_in)" "control_ready (endpoints t Control_in)"
    using wiredD(1) [OF t(2), of Control_in] t(4) u(2) by simp_all
  have "boot_device_config ! 5 = 1" by code_simp
  then have "usb_find_configuration 1 u" using u(1) by (simp add: usb_find_configuration_def wired_def)
  then have "usb_handle_setup_packet ?cb (set_configuration 1) s = Some (ack_state None t)"
    using a t(1) start_ack [OF p, of prog "Suc m" None]
    by (simp add: usb_handle_setup_packet_def set_configuration_def default_handle_device_setup_request_def usb_constants Let_def
        del: run.simps)
  moreover have "msc_waiting (ack_state None t)"
    using waiting_side [of "ack_state None t" t] wiredD(3) [OF t(2)] t(3) by (simp add: ack_state_def ack_filled_def msc_core_def Let_def)
  moreover have "lines_of (hw (ack_state None t)) = lines_of (hw s)"
    using t(5) u(3) by (simp add: ack_state_def Let_def msc_side_def)
  ultimately show ?thesis using ack_state_given [OF p] by blast
qed

lemma waiting_ready:
  assumes "msc_waiting s" "wired s" "quiet_hw (hw s)"
  shows "ready (0, False) (0, False) s"
proof -
  have "dpram_buffer_offset (endpoints s Msc_in) = 0x180" "dpram_buffer_offset (endpoints s Msc_out) = 0x200"
    using wiredD(1) [OF assms(2), of Msc_in] wiredD(1) [OF assms(2), of Msc_out] by (simp_all add: planned_def)
  moreover have "endpoint_array s = [None, Some Msc_in, Some Msc_out, Some Picoboot_out, Some Picoboot_in]"
    "ep_ctrls s (1, True) = Some \<lparr>ec_double = True, ec_offset = 0x180\<rparr>" "ep_ctrls s (2, False) = Some \<lparr>ec_double = True, ec_offset = 0x200\<rparr>"
    using assms(2) by (simp_all add: wired_def)
  ultimately show ?thesis
    using assms(1,3) by (simp add: ready_def msc_waiting_def host_sees_def ep_registers_def out_registers_def)
qed

lemma host_configures:
  assumes "wired s" "quiet_hw (hw s)" "2 \<le> n"
  shows "\<exists>t. host_request prog n (set_configuration 1) s = Some ([], t) \<and> ready (0, False) (0, False) t"
proof -
  let ?p = "set_configuration 1"
  define m where "m = n - 2"
  have n: "n = Suc (Suc m)" using assms(3) by (simp add: m_def)
  have "wired (setup_arrives ?p s)" using assms(1) by (simp add: setup_arrives_def wired_controller)
  from set_configuration_handled [OF this, of prog m] obtain t where t: "usb_handle_setup_packet (run prog n) ?p (setup_arrives ?p s) = Some t"
    "lines_of (hw t) = lines_of (hw (setup_arrives ?p s))" "ack_given None t" "msc_waiting t"
    unfolding n by blast
  define u where "u = t\<lparr>hw := (hw t)\<lparr>sie_setup_rec := False\<rparr>\<rparr>"
  note int = interrupt_setup [OF assms(2) t(1,2), folded u_def]
  have "ack_given None (line_follows u)" "msc_core (line_follows u) = msc_core t" "dpram (line_follows u) = dpram t"
    using t(3) by (simp_all add: line_follows_def u_def ack_given_def msc_core_def)
  with ack_taken [OF this(1) int(2), of prog n] obtain v w where v: "take_control (line_follows u) = Some ([], v)"
    "device_interrupt prog n v = Some w" "quiet_hw (hw w)" "msc_core w = msc_core t" "dpram w = dpram t" by auto
  then have req: "host_request prog n ?p s = Some ([], w)" by (simp add: host_request_def int(1))
  have w: "wired w" using request_keeps [OF assms(1) req] by blast
  moreover have "msc_waiting w" using waiting_side [OF v(4) wiredD(3) [OF w] t(4)] .
  ultimately show ?thesis using req waiting_ready v(3) by blast
qed

subsection \<open>SET_ADDRESS\<close>

definition set_address :: "u8 \<Rightarrow> usb_setup_packet" where
  "set_address addr = \<lparr>bmRequestType = 0, bRequest = 5, wValue = ucast addr, wIndex = 0, wLength = 0\<rparr>"

lemma set_address_handled:
  assumes "wired s" "addr \<noteq> 0" "addr \<le> 127"
  shows "\<exists>t. usb_handle_setup_packet (run prog (Suc m)) (set_address addr) s = Some t \<and> lines_of (hw t) = lines_of (hw s) \<and>
    ack_given (Some Tf_set_address) t \<and> pending_address (device t) = addr \<and> current_address (device t) = current_address (device s)"
proof -
  let ?cb = "run prog (Suc m)"
  obtain h h' where l: "lines_of h' = lines_of (hw s)" and r: "do { s \<leftarrow> usb_soft_reset_endpoint ?cb Control_in s;
      s \<leftarrow> usb_soft_reset_endpoint ?cb Control_out s;
      Some (upd_ep Control_out (next_pid_update (\<lambda>_. 1)) (upd_ep Control_in (next_pid_update (\<lambda>_. 1)) s)) } = Some (setup_prepared h h' s)"
    using control_resets [OF assms(1), of ?cb] by blast
  define u where "u = setup_prepared h h' s"
  obtain a b where a: "usb_soft_reset_endpoint ?cb Control_in s = Some a" "usb_soft_reset_endpoint ?cb Control_out a = Some b"
      "upd_ep Control_out (next_pid_update (\<lambda>_. 1)) (upd_ep Control_in (next_pid_update (\<lambda>_. 1)) b) = u"
    using r by (auto simp: u_def bind_eq_Some_conv simp del: run.simps)
  note u = setup_prepared_facts [OF assms(1) l, of h, folded u_def]
  define v where "v = u\<lparr>device := (device u)\<lparr>pending_address := addr\<rparr>\<rparr>"
  have p: "planned Control_in (endpoints v Control_in)" "control_ready (endpoints v Control_in)"
    using wiredD(1) [OF u(1), of Control_in] u(2) by (simp_all add: v_def)
  have "(ucast (ucast addr :: u16) :: u8) = addr" by (simp add: ucast_down_ucast_id is_down)
  then have "usb_handle_setup_packet ?cb (set_address addr) s = Some (ack_state (Some Tf_set_address) v)"
    using a assms(2,3) start_ack [OF p, of prog m "Some Tf_set_address"]
    by (simp add: usb_handle_setup_packet_def set_address_def default_handle_device_setup_request_def usb_constants v_def Let_def
        del: run.simps)
  moreover have "lines_of (hw (ack_state (Some Tf_set_address) v)) = lines_of (hw s)"
    using u(3) by (simp add: ack_state_def v_def Let_def msc_side_def)
  ultimately show ?thesis using ack_state_given [OF p] u(4) by (auto simp: ack_state_def v_def Let_def)
qed

text \<open>C35: A device that is told its address answers the status stage with the old one: the address register changes when
  the host has taken the empty packet, and not before.\<close>

theorem address_after_acknowledgement:
  assumes "wired s" "quiet_hw (hw s)" "addr \<noteq> 0" "addr \<le> 127" "0 < n"
  shows "\<exists>u v t. device_interrupt prog n (setup_arrives (set_address addr) s) = Some u \<and>
      dev_addr_ctrl (hw u) = dev_addr_ctrl (hw s) \<and> current_address (device u) = current_address (device s) \<and>
      take_control (line_follows u) = Some ([], v) \<and> dev_addr_ctrl (hw v) = dev_addr_ctrl (hw s) \<and>
      device_interrupt prog n v = Some t \<and> dev_addr_ctrl (hw t) = ucast addr \<and> current_address (device t) = addr"
proof -
  let ?p = "set_address addr"
  define m where "m = n - 1"
  have n: "n = Suc m" using assms(5) by (simp add: m_def)
  have "wired (setup_arrives ?p s)" using assms(1) by (simp add: setup_arrives_def wired_controller)
  from set_address_handled [OF this assms(3,4), of prog m] obtain t where
    t: "usb_handle_setup_packet (run prog n) ?p (setup_arrives ?p s) = Some t" "lines_of (hw t) = lines_of (hw (setup_arrives ?p s))"
      "ack_given (Some Tf_set_address) t" "pending_address (device t) = addr" "current_address (device t) = current_address (device s)"
    unfolding n by (auto simp: setup_arrives_def simp del: run.simps)
  define u where "u = t\<lparr>hw := (hw t)\<lparr>sie_setup_rec := False\<rparr>\<rparr>"
  note int = interrupt_setup [OF assms(2) t(1,2), folded u_def]
  have u: "ack_given (Some Tf_set_address) (line_follows u)" "device (line_follows u) = device t"
    "dev_addr_ctrl (hw (line_follows u)) = dev_addr_ctrl (hw s)" "dev_addr_ctrl (hw u) = dev_addr_ctrl (hw s)" "device u = device t"
    using t(2,3) by (simp_all add: line_follows_def u_def ack_given_def lines_of_def setup_arrives_def)
  from ack_taken [OF u(1) int(2), of prog n] obtain v w where v: "take_control (line_follows u) = Some ([], v)"
    "device_interrupt prog n v = call_void (run prog n) (On_complete Tf_set_address Control_in Control_in_transfer) w"
    "device w = device t" by (auto simp: u(2) simp del: run.simps)
  have "device_interrupt prog n v = Some (tf_set_address w)"
    using v(2) by (simp add: n call_void_def invoke_def void_def)
  moreover have "dev_addr_ctrl (hw v) = dev_addr_ctrl (hw s)"
    using v(1) u(3) by (auto simp: take_control_def Let_def split: if_splits)
  moreover have "dev_addr_ctrl (hw (tf_set_address w)) = ucast addr" "current_address (device (tf_set_address w)) = addr"
    using v(3) t(4) by (simp_all add: tf_set_address_def usb_handle_set_address_def)
  ultimately show ?thesis using int(1) u v(1) t(5) by auto
qed

theorem address_after_acknowledgement_witness:
  "\<exists>s u v t. usb_boot example_program 1 7 9 0 0 (watchdog_hw cold_disk) zero_ram Map.empty 7 = Some s \<and>
     device_interrupt example_program 1 (setup_arrives (set_address 5) (s\<lparr>hw := zero_usb_hw\<rparr>)) = Some u \<and> dev_addr_ctrl (hw u) = 0 \<and>
     take_control (line_follows u) = Some ([], v) \<and> device_interrupt example_program 1 v = Some t \<and> dev_addr_ctrl (hw t) = 5"
proof -
  obtain s where s: "usb_boot example_program 1 7 9 0 0 (watchdog_hw cold_disk) zero_ram Map.empty 7 = Some s" "wired s"
    using boot_wires_device [of 0 1 example_program 7 9 0 "watchdog_hw cold_disk" zero_ram Map.empty 7] by auto
  have "wired (s\<lparr>hw := zero_usb_hw\<rparr>)" "quiet_hw (hw (s\<lparr>hw := zero_usb_hw\<rparr>))" "dev_addr_ctrl (hw (s\<lparr>hw := zero_usb_hw\<rparr>)) = 0"
    using s(2) by (simp_all add: wired_controller quiet_hw_def zero_usb_hw_def)
  with address_after_acknowledgement [OF this(1,2), of 5 1 example_program] show ?thesis using s(1) by (auto simp del: run.simps)
qed

subsection \<open>From the start to the dump\<close>

text \<open>
  What happens before: interrupts, in which the controller has put any values in its registers, its buffers and
  the setup packet (resets of the bus, requests for descriptors and addresses, packets, errors); turns of the worker,
  with the tasks that the host has sent, as long as they call no code of the client (\<open>foreign\<close> has the answers of the
  flash chip, which may be different in each turn); and stores to the area \<open>S\<close> of the stack, which an interrupt uses as long
  as the worker has not started.  \<open>T\<close> collects the addresses that the tasks of these turns write.  Each event is
  one step: an interrupt in the middle of a turn is taken as one before or after it.
\<close>

inductive bus_history :: "program \<Rightarrow> nat \<Rightarrow> u32 set \<Rightarrow> 'a boot_state_scheme \<Rightarrow> u32 set \<Rightarrow> 'a boot_state_scheme \<Rightarrow> bool"
  for prog :: program and n :: nat and S :: "u32 set" and a :: "'a boot_state_scheme" where
  no_event: "bus_history prog n S a {} a"
| interrupt_event: "bus_history prog n S a T s \<Longrightarrow> length d = length (dpram s) \<Longrightarrow>
    device_interrupt prog n (s\<lparr>hw := h, buf_ctrls := b, setup_packet := p, dpram := d\<rparr>) = Some t \<Longrightarrow>
    bus_history prog n S a T t"
| worker_event: "bus_history prog n S a T s \<Longrightarrow> no_client env \<Longrightarrow> device_worker prog n env s = Some (busy, t) \<Longrightarrow>
    bus_history prog n S a (T \<union> turn_area env s) t"
| stack_event: "bus_history prog n S a T s \<Longrightarrow> dom f \<subseteq> S \<Longrightarrow> bus_history prog n S a T (s\<lparr>mem := mem s ++ f\<rparr>)"

lemma wired_dpram:
  assumes "length d = length (dpram s)"
  shows "wiring (s\<lparr>dpram := d\<rparr>) = wiring s" "wired (s\<lparr>dpram := d\<rparr>) = wired s"
proof -
  show "wiring (s\<lparr>dpram := d\<rparr>) = wiring s" using assms by (simp add: wiring_defs)
  then show "wired (s\<lparr>dpram := d\<rparr>) = wired s" by (rule wired_wiring)
qed

lemma turn_keeps_wired: "turn_keeps am A s t \<Longrightarrow> wired s \<Longrightarrow> wired t"
  using wired_wiring by (auto simp: turn_keeps_def)

lemma stack_keeps:
  assumes "dom f \<subseteq> S" shows "turn_keeps am S s (s\<lparr>mem := mem s ++ f\<rparr>)"
proof -
  have "wiring (s\<lparr>mem := mem s ++ f\<rparr>) = wiring s" by (simp add: wiring_defs)
  then show ?thesis using assms by (auto simp: turn_keeps_def map_add_def domIff subset_iff split: option.splits)
qed

lemma history_keeps:
  assumes "bus_history prog n S a T s" "wired a"
  shows "wired s \<and> turn_keeps (prog_am prog) (S \<union> T) a s"
  using assms
proof induction
  case no_event
  then show ?case using turn_mono [OF turn_refl] by simp
next
  case (interrupt_event T s d p b h t)
  let ?s = "s\<lparr>hw := h, buf_ctrls := b, setup_packet := p, dpram := d\<rparr>"
  have IH: "wired s" "turn_keeps (prog_am prog) (S \<union> T) a s" using interrupt_event.IH [OF interrupt_event.prems] by blast+
  have s: "wired ?s" "wiring ?s = wiring s" "quiet_view (prog_am prog) ?s = quiet_view (prog_am prog) s"
    using IH(1) interrupt_event.hyps(2) by (simp_all add: wired_dpram wired_controller quiet_controller)
  have t: "wired t" "turn_keeps (prog_am prog) {} s t"
    using interrupt_keeps [OF s(1) interrupt_event.hyps(3)] s by (auto intro: quiet_turn_keeps)
  show ?case using t(1) turn_trans [OF IH(2) t(2)] by simp
next
  case (worker_event T s env busy t)
  have IH: "wired s" "turn_keeps (prog_am prog) (S \<union> T) a s" using worker_event.IH [OF worker_event.prems] by blast+
  have t: "turn_keeps (prog_am prog) (turn_area env s) s t"
    by (rule device_worker_keeps [OF worker_event.hyps(3,2) wired_set_up [OF IH(1)]])
  show ?case using turn_keeps_wired [OF t IH(1)] turn_trans [OF IH(2) t] by (simp add: Un_assoc)
next
  case (stack_event T s f)
  have IH: "wired s" "turn_keeps (prog_am prog) (S \<union> T) a s" using stack_event.IH [OF stack_event.prems] by blast+
  note t = stack_keeps [OF stack_event.hyps(2), of "prog_am prog" s]
  show ?case using turn_keeps_wired [OF t IH(1)] turn_mono [OF turn_trans [OF IH(2) t]] by simp
qed

text \<open>An endpoint of the device with the number, direction and packet size of a descriptor.\<close>

definition endpoint_matches :: "'a usb_state_scheme \<Rightarrow> usb_endpoint_descriptor \<Rightarrow> bool" where
  "endpoint_matches s e \<longleftrightarrow>
     (case endpoint_array s ! unat (bEndpointAddress e AND 0x0f) of
        None \<Rightarrow> False
      | Some x \<Rightarrow> ep_num (endpoints s x) = bEndpointAddress e AND 0x0f \<and>
          ep_in (endpoints s x) = (bEndpointAddress e AND USB_DIR_IN \<noteq> 0) \<and> buffer_size (endpoints s x) = wMaxPacketSize e)"

text \<open>The request for the configuration.\<close>

definition get_configuration_descriptor :: usb_setup_packet where
  "get_configuration_descriptor =
     \<lparr>bmRequestType = 0x80, bRequest = USB_REQUEST_GET_DESCRIPTOR, wValue = push_bit 8 USB_DT_CONFIG, wIndex = 0, wLength = 255\<rparr>"

lemma wired_descriptors:
  assumes "wired s"
  shows "descriptor_bytes (device s) get_configuration_descriptor = Some (boot_device_config, 55)"
    "\<forall>e \<in> {bulk_endpoint 0x81, bulk_endpoint 0x02, bulk_endpoint 0x03, bulk_endpoint 0x84}. endpoint_matches s e"
proof -
  have "length boot_device_config = 55" "of_le16 (drop 2 boot_device_config) = 55" by code_simp+
  then show "descriptor_bytes (device s) get_configuration_descriptor = Some (boot_device_config, 55)"
    using assms by (simp add: wired_def descriptor_bytes_def get_configuration_descriptor_def Let_def usb_constants)
  have array: "endpoint_array s = [None, Some Msc_in, Some Msc_out, Some Picoboot_out, Some Picoboot_in]"
    and "\<forall>e. planned e (endpoints s e)" using assms by (simp_all add: wired_def)
  then have p: "planned Msc_in (endpoints s Msc_in)" "planned Msc_out (endpoints s Msc_out)"
    "planned Picoboot_out (endpoints s Picoboot_out)" "planned Picoboot_in (endpoints s Picoboot_in)" by blast+
  then show "\<forall>e \<in> {bulk_endpoint 0x81, bulk_endpoint 0x02, bulk_endpoint 0x03, bulk_endpoint 0x84}. endpoint_matches s e"
    by (simp add: endpoint_matches_def bulk_endpoint_def array planned_def USB_DIR_IN_def)
qed

lemma wired_told:
  assumes "wired s"
  shows "\<exists>bs is. descriptor_bytes (device s) get_configuration_descriptor = Some (bs, length bs) \<and>
    parse_configuration bs = Some (configuration_values, is) \<and>
    concat (map snd is) = [bulk_endpoint 0x81, bulk_endpoint 0x02, bulk_endpoint 0x03, bulk_endpoint 0x84] \<and>
    list_all (endpoint_matches s) (concat (map snd is))"
proof -
  let ?is = "[simple_parsed msc_interface_values, simple_parsed picoboot_interface_values]"
  have "length boot_device_config = 55" by code_simp
  moreover have eps: "concat (map snd ?is) = [bulk_endpoint 0x81, bulk_endpoint 0x02, bulk_endpoint 0x03, bulk_endpoint 0x84]"
    by (simp add: simple_parsed_def msc_interface_values_def picoboot_interface_values_def)
  moreover have "list_all (endpoint_matches s) (concat (map snd ?is))"
    using wired_descriptors(2) [OF assms] unfolding eps by simp
  ultimately show ?thesis using wired_descriptors(1) [OF assms] parse_boot_device_config
    by (intro exI [of _ boot_device_config] exI [of _ ?is]) (simp only: simp_thms)
qed

lemma wired_types:
  "wired s \<Longrightarrow> length (dpram s) = 4096 \<and> length (sector_buf s) = 512 \<and> length (picoboot_buf s) = 256 \<and>
      length (uf2_valid_ram_blocks s) = 160 \<and>
      endpoint_array s = [None, Some Msc_in, Some Msc_out, Some Picoboot_out, Some Picoboot_in] \<and>
      (\<forall>e. planned e (endpoints s e)) \<and> tr_type (transfers s Picoboot_cmd_transfer) = Some Picoboot_cmd_type \<and>
      (default_transfer (endpoints s Msc_out) = None \<or>
       default_transfer (endpoints s Msc_out) = Some Msc_cmd_transfer \<and> tr_type (transfers s Msc_cmd_transfer) = Some Msc_cmd_type)"
  using wiredD(5) by (fastforce simp: wired_def buffer_sizes_def commands_set_up_def)

text \<open>C34: With both interfaces enabled (the mask of disabled interfaces is 0, or has both bits set, which the code takes
  for 0), the start gives every buffer its size and every endpoint its number, direction, buffers and default transfer;
  nothing that happens afterwards changes them: no interrupt, whatever the controller has in its registers, and no
  turn of the worker, whatever the host sent it to do, as long as it calls no code of the client.  So from the start on the
  table of endpoints, the descriptors of the transfers and the buffers have the types that the handlers rely on.
  They are also what the host is told: the configuration that it reads lists exactly these endpoints, with their
  direction and packet size.  (With one of the two interfaces disabled the table keeps null entries.)\<close>

theorem start_fixes_types:
  assumes "disable_mask = 0 \<or> disable_mask AND 3 = 3" "0 < n"
  shows "\<exists>s0. usb_boot prog n gitref git_rev gpio_mask disable_mask wd m frames now = Some s0 \<and>
    (\<forall>S T s. bus_history prog n S s0 T s \<longrightarrow>
      length (dpram s) = 4096 \<and> length (sector_buf s) = 512 \<and> length (picoboot_buf s) = 256 \<and>
      length (uf2_valid_ram_blocks s) = 160 \<and>
      endpoint_array s = [None, Some Msc_in, Some Msc_out, Some Picoboot_out, Some Picoboot_in] \<and>
      (\<forall>e. planned e (endpoints s e)) \<and> tr_type (transfers s Picoboot_cmd_transfer) = Some Picoboot_cmd_type \<and>
      (default_transfer (endpoints s Msc_out) = None \<or>
       default_transfer (endpoints s Msc_out) = Some Msc_cmd_transfer \<and> tr_type (transfers s Msc_cmd_transfer) = Some Msc_cmd_type) \<and>
      serial_number_string s = six_hex_text gitref @ six_hex_text git_rev @ [0] \<and>
      (\<exists>bs is. descriptor_bytes (device s) get_configuration_descriptor = Some (bs, length bs) \<and>
        parse_configuration bs = Some (configuration_values, is) \<and>
        concat (map snd is) = [bulk_endpoint 0x81, bulk_endpoint 0x02, bulk_endpoint 0x03, bulk_endpoint 0x84] \<and>
        list_all (endpoint_matches s) (concat (map snd is))))"
proof -
  obtain s0 where s0: "usb_boot prog n gitref git_rev gpio_mask disable_mask wd m frames now = Some s0" "wired s0"
    "serial_number_string s0 = six_hex_text gitref @ six_hex_text git_rev @ [0]"
    using boot_wires_device [OF assms] by blast
  have kept: "serial_number_string s = six_hex_text gitref @ six_hex_text git_rev @ [0] \<and> wired s"
    if "bus_history prog n S s0 T s" for S T s
    using history_keeps [OF that s0(2)] s0(3) unfolding turn_keeps_def wiring_def prod.inject by simp
  show ?thesis
    by (intro exI [of _ s0] conjI [OF s0(1)] allI impI, drule kept, elim conjE, frule wired_types, drule wired_told)
      (intro conjI; elim conjE; assumption)
qed

theorem start_fixes_types_witness:
  "\<exists>s. usb_boot example_program 1 7 9 0 0 (watchdog_hw cold_disk) zero_ram Map.empty 7 = Some s \<and> length (dpram s) = 4096 \<and>
     endpoint_array s ! 2 = Some Msc_out"
  using start_fixes_types [of 0 1 example_program 7 9 0 "watchdog_hw cold_disk" zero_ram Map.empty 7] no_event by fastforce

text \<open>The memory of the program is not in the cache SRAM.\<close>

lemma sram_outside_bitsets:
  assumes "addressmap_ok am" "k < MEM_SIZE am"
  shows "\<not> bitset_byte am (SRAM_BASE am + of_nat k)"
proof -
  have a: "unat (XIP_SRAM_END am) + 4096 \<le> unat (SRAM_BASE am)" "unat (SRAM_END am) < 2 ^ 31" "MEM_SIZE am < 2 ^ 20"
    "unat (SRAM_BASE am) < unat (SRAM_END am)"
    using assms(1) by (simp_all add: addressmap_ok_def)
  then have "unat (SRAM_BASE am + of_nat k) = unat (SRAM_BASE am) + k" using assms(2) by (intro unat_add_small) simp
  then have "\<not> xip_byte am (SRAM_BASE am + of_nat k)" using a(1) by (simp add: xip_byte_def word_less_nat_alt)
  then show ?thesis using bitset_in_xip [OF assms(1)] by blast
qed

lemma quiet_sram:
  assumes "quiet_view am t = quiet_view am s" "addressmap_ok am" "k < MEM_SIZE am"
  shows "mem t (SRAM_BASE am + of_nat k) = mem s (SRAM_BASE am + of_nat k)"
proof -
  have "outside_bitsets am (mem t) = outside_bitsets am (mem s)" using assms(1) by (simp add: quiet_view_def)
  from fun_cong [OF this, of "SRAM_BASE am + of_nat k"] show ?thesis
    using sram_outside_bitsets [OF assms(2,3)] by (simp add: outside_bitsets_def)
qed

text \<open>What the dump gives back, when the memory is \<open>s\<close> and was \<open>m\<close> with the frames of the boot code over it.\<close>

lemma history_ram:
  assumes "turn_keeps am A s0 s" "quiet_view am s0 = quiet_view am a" "mem a = m ++ frames" "addressmap_ok am" "sram_mapped am m"
    and "k < MEM_SIZE am"
  shows "mem s (SRAM_BASE am + of_nat k) \<noteq> None"
    and "SRAM_BASE am + of_nat k \<notin> A \<Longrightarrow> dom frames \<subseteq> A \<Longrightarrow> mem s (SRAM_BASE am + of_nat k) = m (SRAM_BASE am + of_nat k)"
proof -
  let ?x = "SRAM_BASE am + of_nat k"
  have k: "(?x \<notin> A \<longrightarrow> mem s ?x = mem s0 ?x) \<and> (mem s0 ?x \<noteq> None \<longrightarrow> mem s ?x \<noteq> None)"
    using assms(1) sram_outside_bitsets [OF assms(4,6)] by (simp add: turn_keeps_def)
  have s0: "mem s0 ?x = (m ++ frames) ?x" using quiet_sram [OF assms(2,4,6)] assms(3) by simp
  show "mem s ?x \<noteq> None" using k s0 assms(5,6) by (auto simp: sram_mapped_def map_add_def split: option.splits)
  show "mem s ?x = m ?x" if "?x \<notin> A" "dom frames \<subseteq> A"
  proof -
    have "frames ?x = None" using that by (auto simp: domIff subset_iff)
    then show ?thesis using k s0 that(1) by (simp add: map_add_def)
  qed
qed

text \<open>C1: The boot code starts with both interfaces enabled (the mask of disabled interfaces is 0, or has both bits set, which
  the code takes for 0), from any contents of the RAM; the frames of its compiled code are in an area of the RAM below
  the stack pointer (\<open>stacktop\<close> after a reset, the end of the RAM after a reboot).  Then come interrupts, whatever the controller
  has in its registers, and turns of the worker with the tasks that the host has sent, each as one step and in any order, as long
  as no code of the client is called and the chip is not reset.  When the host then selects the configuration, mounts the disk and reads
  \<open>CRASHDMP.XXD\<close>, with no turn of the worker in between, the file gives every byte of the RAM as it is then; and at every
  address outside of the stack area that none of the tasks wrote, it is the byte that the RAM held at the start.\<close>

theorem host_dumps_ram_after_boot:
  assumes "disable_mask = 0 \<or> disable_mask AND 3 = 3" "5 \<le> n" "copy < 2" "dom frames \<subseteq> boot_stack sp depth"
    and "disk_ok (prog_am prog) (prog_gen prog) html (six_hex_text gitref @ six_hex_text git_rev @ [0]) m"
  shows "\<exists>s0. usb_boot prog n gitref git_rev gpio_mask disable_mask wd m frames now = Some s0 \<and>
    (\<forall>k < MEM_SIZE (prog_am prog). mem s0 (SRAM_BASE (prog_am prog) + of_nat k) = (m ++ frames) (SRAM_BASE (prog_am prog) + of_nat k)) \<and>
    (\<forall>T s h. bus_history prog n (boot_stack sp depth) s0 T s \<longrightarrow> quiet_hw h \<longrightarrow>
      (\<exists>t v file. host_request prog n (set_configuration 1) (s\<lparr>hw := h\<rparr>) = Some ([], t) \<and>
        mount (wire_disk prog n (0, False) (0, False) t) = Some v \<and>
        read_file (wire_disk prog n (0, False) (0, False) t) v copy (ascii_bytes ''CRASHDMPXXD'') = Some file \<and>
        (\<forall>k < MEM_SIZE (prog_am prog). mem s (SRAM_BASE (prog_am prog) + of_nat k) = Some (dumped_byte file k) \<and>
          (SRAM_BASE (prog_am prog) + of_nat k \<notin> boot_stack sp depth \<union> T \<longrightarrow>
            m (SRAM_BASE (prog_am prog) + of_nat k) = Some (dumped_byte file k)))))"
proof -
  let ?am = "prog_am prog"
  note ok = disk_okD [OF assms(5)]
  have n: "0 < n" using assms(2) by simp
  obtain s0 where s0: "usb_boot prog n gitref git_rev gpio_mask disable_mask wd m frames now = Some s0" "wired s0"
    "serial_number_string s0 = six_hex_text gitref @ six_hex_text git_rev @ [0]"
    "quiet_view ?am s0 = quiet_view ?am (usb_boot_state wd gpio_mask (m ++ frames) now)"
    using boot_wires_device [OF assms(1) n] by blast
  have start: "mem (usb_boot_state wd gpio_mask (m ++ frames) now) = m ++ frames" by (simp add: usb_boot_state_def)
  then have "\<forall>k < MEM_SIZE ?am. mem s0 (SRAM_BASE ?am + of_nat k) = (m ++ frames) (SRAM_BASE ?am + of_nat k)"
    using quiet_sram [OF s0(4) ok(1)] by simp
  moreover have "\<exists>t v file. host_request prog n (set_configuration 1) (s\<lparr>hw := h\<rparr>) = Some ([], t) \<and>
        mount (wire_disk prog n (0, False) (0, False) t) = Some v \<and>
        read_file (wire_disk prog n (0, False) (0, False) t) v copy (ascii_bytes ''CRASHDMPXXD'') = Some file \<and>
        (\<forall>k < MEM_SIZE ?am. mem s (SRAM_BASE ?am + of_nat k) = Some (dumped_byte file k) \<and>
          (SRAM_BASE ?am + of_nat k \<notin> boot_stack sp depth \<union> T \<longrightarrow> m (SRAM_BASE ?am + of_nat k) = Some (dumped_byte file k)))"
    if h: "bus_history prog n (boot_stack sp depth) s0 T s" "quiet_hw h" for T s h
  proof -
    have s: "wired s" "turn_keeps ?am (boot_stack sp depth \<union> T) s0 s" using history_keeps [OF h(1) s0(2)] by blast+
    note ram = history_ram [OF s(2) s0(4) start ok(1,2)]
    have w: "wired (s\<lparr>hw := h\<rparr>)" using s(1) by (simp add: wired_controller)
    obtain t where t: "host_request prog n (set_configuration 1) (s\<lparr>hw := h\<rparr>) = Some ([], t)" "ready (0, False) (0, False) t"
      using host_configures [OF w, of n prog] h(2) assms(2) by auto
    have t': "wired t" "wiring t = wiring s" "quiet_view ?am t = quiet_view ?am s"
      using request_keeps [OF w t(1)] by (simp_all add: wired_controller quiet_controller)
    have mem: "mem t (SRAM_BASE ?am + of_nat k) = mem s (SRAM_BASE ?am + of_nat k)" if "k < MEM_SIZE ?am" for k
      by (rule quiet_sram [OF t'(3) ok(1) that])
    have "wiring t = wiring s0" using t'(2) s(2) by (simp add: turn_keeps_def)
    then have "serial_number_string t = six_hex_text gitref @ six_hex_text git_rev @ [0]"
      using s0(3) unfolding wiring_def prod.inject by simp
    then have disk: "disk_ok ?am (prog_gen prog) html (serial_number_string t) (mem t)"
      using assms(5) mem ram(1) by (simp add: disk_ok_def sram_mapped_def)
    then have "serving prog html t ((0, False), (0, False), t)"
      using t(2) wiredD(4) [OF t'(1)] by (simp add: serving_def)
    from wire_fat_disk [OF this assms(2)] have wire: "fat_disk ?am (prog_gen prog) html (serial_number_string t) (mem t)
        (volume_serial (timerawl t) (boot_device t)) (wire_disk prog n (0, False) (0, False) t)" .
    have "mem s (SRAM_BASE ?am + of_nat k) = Some (dumped_byte (crash_text ?am (mem t)) k)" if "k < MEM_SIZE ?am" for k
      using dumped_byte_crash_text [OF ok(1) that, of "mem t"] ram(1) [OF that] mem [OF that] by auto
    moreover have "m (SRAM_BASE ?am + of_nat k) = mem s (SRAM_BASE ?am + of_nat k)"
      if "k < MEM_SIZE ?am" "SRAM_BASE ?am + of_nat k \<notin> boot_stack sp depth \<union> T" for k
      using ram(2) [OF that le_supI1 [OF assms(4)]] by (rule sym)
    ultimately show ?thesis
      using t(1) fat_disk.mount_device [OF wire disk] fat_disk.read_crash_file [OF wire disk assms(3)] by fastforce
  qed
  ultimately show ?thesis using s0(1) by blast
qed

text \<open>For the witness: the bytes of the stack in the dump of the \<open>README\<close>.\<close>

definition readme_frames :: memory where
  "readme_frames = map_of (zip (map (\<lambda>k. 0x20041ea0 + of_nat k) [0 ..< 96])
     [0x04, 0x0e, 0x10, 0x50, 0, 0, 0, 0, 0x01, 0, 0, 0, 0x1b, 0x0a, 0, 0x10,
      0, 0, 0, 0, 0xec, 0x09, 0x10, 0x50, 0, 0, 0, 0, 0x99, 0x0f, 0, 0x10,
      0, 0, 0x11, 0x50, 0x05, 0, 0, 0, 0x01, 0, 0, 0, 0xad, 0x0f, 0, 0x10,
      0, 0, 0x11, 0x50, 0xad, 0x11, 0, 0x10, 0, 0, 0, 0, 0, 0xf0, 0x01, 0x40,
      0x40, 0, 0, 0, 0, 0, 0xfc, 0x1f, 0x01, 0x1f, 0x04, 0x20, 0, 0, 0, 0x18,
      0, 0, 0, 0, 0x17, 0x24, 0, 0x10, 0, 0, 0xfc, 0x1f, 0xad, 0x02, 0, 0x10])"

lemma readme_frames_in_stack: "dom readme_frames \<subseteq> boot_stack (stacktop rp2040) 96"
proof
  fix a assume "a \<in> dom readme_frames"
  then obtain k :: nat where "k < 96" "a = 0x20041ea0 + of_nat k"
    by (auto simp: readme_frames_def dest!: map_of_SomeD set_zip_leftD)
  then show "a \<in> boot_stack (stacktop rp2040) 96"
    using unat_add_small [of "0x20041ea0" k] by (simp add: boot_stack_def stacktop_def rp2040_def)
qed

theorem host_dumps_ram_after_boot_witness:
  "\<exists>s0 t v file. usb_boot (example_program\<lparr>prog_gen := repo_generated\<rparr>) 5 0 0x123456 0 0 (watchdog_hw cold_disk) zero_ram readme_frames 7 = Some s0 \<and>
     host_request (example_program\<lparr>prog_gen := repo_generated\<rparr>) 5 (set_configuration 1) (s0\<lparr>hw := zero_usb_hw\<rparr>) = Some ([], t) \<and>
     mount (wire_disk (example_program\<lparr>prog_gen := repo_generated\<rparr>) 5 (0, False) (0, False) t) = Some v \<and>
     read_file (wire_disk (example_program\<lparr>prog_gen := repo_generated\<rparr>) 5 (0, False) (0, False) t) v 1
       (ascii_bytes ''CRASHDMPXXD'') = Some file \<and> dumped_byte file 0x1234 = 0 \<and> dumped_byte file 0x41ea1 = 0x0e"
proof -
  let ?P = "example_program\<lparr>prog_gen := repo_generated\<rparr>"
  have am: "prog_am ?P = rp2040" by (simp add: example_program_def)
  have "disk_ok (prog_am ?P) (prog_gen ?P) repo_welcome (six_hex_text 0 @ six_hex_text 0x123456 @ [0]) zero_ram"
    using repo_disk_ok by (simp add: disk_ok_def example_program_def)
  from host_dumps_ram_after_boot [OF _ _ _ readme_frames_in_stack this, of 0 5 1 0 "watchdog_hw cold_disk" 7] obtain s0 where
    s0: "usb_boot ?P 5 0 0x123456 0 0 (watchdog_hw cold_disk) zero_ram readme_frames 7 = Some s0"
    and ram: "\<forall>k < MEM_SIZE (prog_am ?P). mem s0 (SRAM_BASE (prog_am ?P) + of_nat k) = (zero_ram ++ readme_frames) (SRAM_BASE (prog_am ?P) + of_nat k)"
    and all: "\<forall>T s h. bus_history ?P 5 (boot_stack (stacktop rp2040) 96) s0 T s \<longrightarrow> quiet_hw h \<longrightarrow>
      (\<exists>t v file. host_request ?P 5 (set_configuration 1) (s\<lparr>hw := h\<rparr>) = Some ([], t) \<and>
        mount (wire_disk ?P 5 (0, False) (0, False) t) = Some v \<and>
        read_file (wire_disk ?P 5 (0, False) (0, False) t) v 1 (ascii_bytes ''CRASHDMPXXD'') = Some file \<and>
        (\<forall>k < MEM_SIZE (prog_am ?P). mem s (SRAM_BASE (prog_am ?P) + of_nat k) = Some (dumped_byte file k) \<and>
          (SRAM_BASE (prog_am ?P) + of_nat k \<notin> boot_stack (stacktop rp2040) 96 \<union> T \<longrightarrow>
            zero_ram (SRAM_BASE (prog_am ?P) + of_nat k) = Some (dumped_byte file k))))"
    by auto
  have "quiet_hw zero_usb_hw" by (simp add: quiet_hw_def zero_usb_hw_def)
  from all [rule_format, OF no_event this] obtain t v dump where
    f: "host_request ?P 5 (set_configuration 1) (s0\<lparr>hw := zero_usb_hw\<rparr>) = Some ([], t)"
      "mount (wire_disk ?P 5 (0, False) (0, False) t) = Some v"
      "read_file (wire_disk ?P 5 (0, False) (0, False) t) v 1 (ascii_bytes ''CRASHDMPXXD'') = Some dump"
    and dump: "\<forall>k < MEM_SIZE rp2040. mem s0 (SRAM_BASE rp2040 + of_nat k) = Some (dumped_byte dump k) \<and>
      (SRAM_BASE rp2040 + of_nat k \<notin> boot_stack (stacktop rp2040) 96 \<union> {} \<longrightarrow>
        zero_ram (SRAM_BASE rp2040 + of_nat k) = Some (dumped_byte dump k))"
    unfolding am by blast
  have "zero_ram (SRAM_BASE rp2040 + of_nat 0x1234) = Some 0" "SRAM_BASE rp2040 + of_nat 0x1234 \<notin> boot_stack (stacktop rp2040) 96 \<union> {}"
    by (simp_all add: rp2040_def zero_ram_def boot_stack_def stacktop_def)
  then have "dumped_byte dump 0x1234 = 0" using dump [rule_format, of "0x1234"] by (simp add: MEM_SIZE_rp2040)
  moreover have "readme_frames 0x20041ea1 = Some 0x0e" by code_simp
  then have "dumped_byte dump 0x41ea1 = 0x0e"
    using dump [rule_format, of "0x41ea1"] ram [unfolded am, rule_format, of "0x41ea1"]
    by (simp add: MEM_SIZE_rp2040) (simp add: rp2040_def)
  ultimately show ?thesis using s0 f by blast
qed

end
