(* ===== verification/Flash_Driver.thy ===== *)
theory Flash_Driver
  imports Prelude
begin

text \<open>
  \<open>bootrom/program_flash_generic.c\<close>: the driver of the flash chip behind the serial interface (SSI).

  What the driver does to the chip is a log of events on the bus: the chip select line, the pads, the bytes
  that are sent.  The chip is a parameter: its answer to a byte is a function of the log up to and including
  the byte.  A byte written to the data register is exchanged and its answer is put into the receive FIFO;
  that the loop of \<open>flash_put_get\<close> does exchange the bytes in order and loses none, whatever the speed of the
  interface, is shown in \<open>Flash_Fifo\<close>.
\<close>

subsection \<open>The bus\<close>

text \<open>A pad: output disabled, pull-up, pull-down.\<close>

record pad =
  pad_od :: bool
  pad_pue :: bool
  pad_pde :: bool

datatype outover = OUTOVER_NORMAL | OUTOVER_INVERT | OUTOVER_LOW | OUTOVER_HIGH

text \<open>The frame format that the SSI is configured for: bytes both ways, or memory reads with a command.\<close>

datatype ssi_mode = Ssi_bytes | Ssi_xip_read u8

datatype spi_event =
  Cs outover | Spi_byte u8 | Pads "pad list" | Ssi_config ssi_mode | Flush_cache | Connect_pads

record flash_bus =
  spi_log :: "spi_event list"
  rx_fifo :: bytes
  sd_pads :: "pad list"
  fl_aborted :: bool

type_synonym chip = "spi_event list \<Rightarrow> u8"

definition log_event :: "spi_event \<Rightarrow> 'a flash_bus_scheme \<Rightarrow> 'a flash_bus_scheme" where
  "log_event ev bus = bus\<lparr>spi_log := spi_log bus @ [ev]\<rparr>"

definition flash_cs_force :: "outover \<Rightarrow> 'a flash_bus_scheme \<Rightarrow> 'a flash_bus_scheme" where
  "flash_cs_force over = log_event (Cs over)"

text \<open>A write to the data register.\<close>

definition put_dr0 :: "chip \<Rightarrow> u8 \<Rightarrow> 'a flash_bus_scheme \<Rightarrow> 'a flash_bus_scheme" where
  "put_dr0 chip b bus =
     (let bus = log_event (Spi_byte b) bus in bus\<lparr>rx_fifo := rx_fifo bus @ [chip (spi_log bus)]\<rparr>)"

definition put_bytes :: "chip \<Rightarrow> bytes \<Rightarrow> 'a flash_bus_scheme \<Rightarrow> 'a flash_bus_scheme" where
  "put_bytes chip bs bus = fold (put_dr0 chip) bs bus"

subsection \<open>Commands\<close>

definition FLASHCMD_PAGE_PROGRAM :: u8 where "FLASHCMD_PAGE_PROGRAM = 0x02"
definition FLASHCMD_READ_DATA :: u8 where "FLASHCMD_READ_DATA = 0x03"
definition FLASHCMD_READ_STATUS :: u8 where "FLASHCMD_READ_STATUS = 0x05"
definition FLASHCMD_WRITE_ENABLE :: u8 where "FLASHCMD_WRITE_ENABLE = 0x06"
definition FLASHCMD_SECTOR_ERASE :: u8 where "FLASHCMD_SECTOR_ERASE = 0x20"
definition FLASHCMD_READ_SFDP :: u8 where "FLASHCMD_READ_SFDP = 0x5a"
definition FLASHCMD_READ_JEDEC_ID :: u8 where "FLASHCMD_READ_JEDEC_ID = 0x9f"

lemmas flash_commands =
  FLASHCMD_PAGE_PROGRAM_def FLASHCMD_READ_DATA_def FLASHCMD_READ_STATUS_def FLASHCMD_WRITE_ENABLE_def
  FLASHCMD_SECTOR_ERASE_def FLASHCMD_READ_SFDP_def FLASHCMD_READ_JEDEC_ID_def

definition flash_was_aborted :: "'a flash_bus_scheme \<Rightarrow> bool" where
  "flash_was_aborted bus = fl_aborted bus"

definition flash_abort :: "'a flash_bus_scheme \<Rightarrow> 'a flash_bus_scheme" where
  "flash_abort bus = bus\<lparr>fl_aborted := True\<rparr>"

text \<open>
  The bytes that the code takes from \<open>tx\<close>, or zeroes for a null pointer; the result is what it stores to
  \<open>rx\<close>.  It is \<^term>\<open>None\<close> if \<open>tx\<close> is too short, if fewer bytes are on the way than are to be skipped (the
  loop does not end), and after an abort, when the loop ends at a time that depends on the interface.
\<close>

definition flash_put_get ::
    "chip \<Rightarrow> bytes option \<Rightarrow> nat \<Rightarrow> nat \<Rightarrow> 'a flash_bus_scheme \<Rightarrow> (bytes \<times> 'a flash_bus_scheme) option" where
  "flash_put_get chip tx n rx_skip bus =
     (let bs = (case tx of Some d \<Rightarrow> take n d | None \<Rightarrow> replicate n 0) in
      if fl_aborted bus \<or> length bs < n then None
      else
        let bus = put_bytes chip bs bus; rx = rx_fifo bus in
        if length rx < rx_skip + n then None
        else Some (take n (drop rx_skip rx),
                   flash_cs_force OUTOVER_HIGH (bus\<lparr>rx_fifo := drop (rx_skip + n) rx\<rparr>)))"

definition flash_do_cmd ::
    "chip \<Rightarrow> u8 \<Rightarrow> bytes option \<Rightarrow> nat \<Rightarrow> 'a flash_bus_scheme \<Rightarrow> (bytes \<times> 'a flash_bus_scheme) option" where
  "flash_do_cmd chip cmd tx n bus =
     flash_put_get chip tx n 1 (put_dr0 chip cmd (flash_cs_force OUTOVER_LOW bus))"

text \<open>The four bytes that \<open>flash_put_cmd_addr\<close> sends.\<close>

definition cmd_addr_bytes :: "u8 \<Rightarrow> u32 \<Rightarrow> bytes" where
  "cmd_addr_bytes cmd addr =
     (let addr = addr OR push_bit 24 (ucast cmd)
      in map (\<lambda>i. ucast (drop_bit 24 (push_bit (8 * i) addr))) [0..<4])"

definition flash_put_cmd_addr :: "chip \<Rightarrow> u8 \<Rightarrow> u32 \<Rightarrow> 'a flash_bus_scheme \<Rightarrow> 'a flash_bus_scheme" where
  "flash_put_cmd_addr chip cmd addr bus =
     put_bytes chip (cmd_addr_bytes cmd addr) (flash_cs_force OUTOVER_LOW bus)"

text \<open>A chip may stay busy for ever.\<close>

partial_function (option) flash_wait_ready ::
    "chip \<Rightarrow> 'a flash_bus_scheme \<Rightarrow> 'a flash_bus_scheme option" where [code]:
  "flash_wait_ready chip bus =
     Option.bind (flash_do_cmd chip FLASHCMD_READ_STATUS None 1 bus)
       (\<lambda>(rx, bus). if rx ! 0 AND 1 \<noteq> 0 \<and> \<not> flash_was_aborted bus then flash_wait_ready chip bus else Some bus)"

definition flash_enable_write :: "chip \<Rightarrow> 'a flash_bus_scheme \<Rightarrow> 'a flash_bus_scheme option" where
  "flash_enable_write chip bus = map_option snd (flash_do_cmd chip FLASHCMD_WRITE_ENABLE None 0 bus)"

definition flash_page_program ::
    "chip \<Rightarrow> u32 \<Rightarrow> bytes \<Rightarrow> 'a flash_bus_scheme \<Rightarrow> 'a flash_bus_scheme option" where
  "flash_page_program chip addr data bus = do {
     bus \<leftarrow> flash_enable_write chip bus;
     (rx, bus) \<leftarrow> flash_put_get chip (Some data) 256 4 (flash_put_cmd_addr chip FLASHCMD_PAGE_PROGRAM addr bus);
     flash_wait_ready chip bus
   }"

partial_function (option) range_program_loop ::
    "chip \<Rightarrow> u32 \<Rightarrow> u32 \<Rightarrow> bytes \<Rightarrow> 'a flash_bus_scheme \<Rightarrow> 'a flash_bus_scheme option" where [code]:
  "range_program_loop chip goal addr data bus =
     (if addr < goal \<and> \<not> flash_was_aborted bus then
        Option.bind (flash_page_program chip addr data bus)
          (\<lambda>bus. range_program_loop chip goal (addr + 256) (drop 256 data) bus)
      else Some bus)"

definition flash_range_program ::
    "chip \<Rightarrow> u32 \<Rightarrow> bytes \<Rightarrow> u32 \<Rightarrow> 'a flash_bus_scheme \<Rightarrow> 'a flash_bus_scheme option" where
  "flash_range_program chip addr data n = range_program_loop chip (addr + n) addr data"

definition flash_user_erase :: "chip \<Rightarrow> u32 \<Rightarrow> u8 \<Rightarrow> 'a flash_bus_scheme \<Rightarrow> 'a flash_bus_scheme option" where
  "flash_user_erase chip addr cmd bus = do {
     bus \<leftarrow> flash_enable_write chip bus;
     (rx, bus) \<leftarrow> flash_put_get chip None 0 4 (flash_put_cmd_addr chip cmd addr bus);
     flash_wait_ready chip bus
   }"

definition flash_sector_erase :: "chip \<Rightarrow> u32 \<Rightarrow> 'a flash_bus_scheme \<Rightarrow> 'a flash_bus_scheme option" where
  "flash_sector_erase chip addr = flash_user_erase chip addr FLASHCMD_SECTOR_ERASE"

partial_function (option) range_erase_loop ::
    "chip \<Rightarrow> u32 \<Rightarrow> u8 \<Rightarrow> u32 \<Rightarrow> u32 \<Rightarrow> 'a flash_bus_scheme \<Rightarrow> 'a flash_bus_scheme option" where [code]:
  "range_erase_loop chip block_size block_cmd goal addr bus =
     (if addr < goal \<and> \<not> flash_was_aborted bus then
        if addr AND (block_size - 1) = 0 \<and> goal - addr \<ge> block_size then
          Option.bind (flash_user_erase chip addr block_cmd bus)
            (\<lambda>bus. range_erase_loop chip block_size block_cmd goal (addr + block_size) bus)
        else
          Option.bind (flash_sector_erase chip addr bus)
            (\<lambda>bus. range_erase_loop chip block_size block_cmd goal (addr + 4096) bus)
      else Some bus)"

definition flash_range_erase ::
    "chip \<Rightarrow> u32 \<Rightarrow> u32 \<Rightarrow> u32 \<Rightarrow> u8 \<Rightarrow> 'a flash_bus_scheme \<Rightarrow> 'a flash_bus_scheme option" where
  "flash_range_erase chip addr n block_size block_cmd = range_erase_loop chip block_size block_cmd (addr + n) addr"

definition flash_read_data ::
    "chip \<Rightarrow> u32 \<Rightarrow> nat \<Rightarrow> 'a flash_bus_scheme \<Rightarrow> (bytes \<times> 'a flash_bus_scheme) option" where
  "flash_read_data chip addr n bus =
     flash_put_get chip None n 4 (flash_put_cmd_addr chip FLASHCMD_READ_DATA addr bus)"

subsection \<open>The size of the chip\<close>

definition flash_read_sfdp ::
    "chip \<Rightarrow> u32 \<Rightarrow> nat \<Rightarrow> 'a flash_bus_scheme \<Rightarrow> (bytes \<times> 'a flash_bus_scheme) option" where
  "flash_read_sfdp chip addr n bus =
     flash_put_get chip None n 5 (put_dr0 chip 0 (flash_put_cmd_addr chip FLASHCMD_READ_SFDP addr bus))"

definition bytes_to_u32le :: "bytes \<Rightarrow> u32" where
  "bytes_to_u32le b =
     ucast (b ! 0) OR push_bit 8 (ucast (b ! 1)) OR push_bit 16 (ucast (b ! 2)) OR push_bit 24 (ucast (b ! 3))"

text \<open>\<open>while (array_size_word >>= 1) ++ctr;\<close>\<close>

function count_shifts :: "u32 \<Rightarrow> nat \<Rightarrow> nat" where
  "count_shifts x ctr = (let x = drop_bit 1 x in if x = 0 then ctr else count_shifts x (ctr + 1))"
  by auto

termination
proof (relation "measure (\<lambda>(x, _). unat x)")
  fix x y :: u32 and ctr :: nat
  assume y: "y = drop_bit 1 x" "y \<noteq> 0"
  have "unat y = unat x div 2"
    using y(1) by (simp only: drop_bit_eq_div unat_div) simp
  moreover have "unat y \<noteq> 0"
    using y(2) by (simp only: unsigned_eq_0_iff not_False_eq_True)
  ultimately show "((y, ctr + 1), (x, ctr)) \<in> measure (\<lambda>(x, _). unat x)" by simp
qed simp

declare count_shifts.simps [simp del]

definition sfdp_log2_bits :: "u32 \<Rightarrow> u32" where
  "sfdp_log2_bits w =
     (if w AND push_bit 31 1 \<noteq> 0 then w AND NOT (push_bit 31 1) else of_nat (count_shifts (w + 1) 0))"

definition sfdp_size :: "u32 \<Rightarrow> int option" where
  "sfdp_size w =
     (let n = sfdp_log2_bits w in if n < 11 \<or> n > 37 then None else Some (uint (n - 3)))"

definition sfdp_size_log2 ::
    "chip \<Rightarrow> 'a flash_bus_scheme \<Rightarrow> (int option \<times> 'a flash_bus_scheme) option" where
  "sfdp_size_log2 chip bus = do {
     (rxbuf, bus) \<leftarrow> flash_read_sfdp chip 0 16 bus;
     if bytes_to_u32le rxbuf \<noteq> 0x50444653 \<or> rxbuf ! 8 \<noteq> 0 then Some (None, bus)
     else do {
       let param_table_ptr = bytes_to_u32le (drop 12 rxbuf) AND 0xffffff;
       (rxbuf, bus) \<leftarrow> flash_read_sfdp chip param_table_ptr 8 bus;
       Some (sfdp_size (bytes_to_u32le (drop 4 rxbuf)), bus)
     }
   }"

definition jedec_size_log2 :: "chip \<Rightarrow> 'a flash_bus_scheme \<Rightarrow> (int \<times> 'a flash_bus_scheme) option" where
  "jedec_size_log2 chip bus = do {
     (rxbuf, bus) \<leftarrow> flash_do_cmd chip FLASHCMD_READ_JEDEC_ID None 3 bus;
     let array_size_byte = rxbuf ! 2;
     Some (if array_size_byte < 8 \<or> array_size_byte > 34 then -1 else uint array_size_byte, bus)
   }"

definition flash_size_log2 :: "chip \<Rightarrow> 'a flash_bus_scheme \<Rightarrow> (int \<times> 'a flash_bus_scheme) option" where
  "flash_size_log2 chip bus = do {
     (n, bus) \<leftarrow> sfdp_size_log2 chip bus;
     case n of Some k \<Rightarrow> Some (k, bus) | None \<Rightarrow> jedec_size_log2 chip bus
   }"

subsection \<open>Set-up, and the way in and out of memory mapped reads\<close>

definition connect_internal_flash :: "'a flash_bus_scheme \<Rightarrow> 'a flash_bus_scheme" where
  "connect_internal_flash = log_event Connect_pads"

text \<open>Disabling the interface empties its FIFOs.\<close>

definition flash_init_spi :: "'a flash_bus_scheme \<Rightarrow> 'a flash_bus_scheme" where
  "flash_init_spi bus = log_event (Ssi_config Ssi_bytes) (bus\<lparr>rx_fifo := []\<rparr>)"

definition set_pads :: "pad list \<Rightarrow> 'a flash_bus_scheme \<Rightarrow> 'a flash_bus_scheme" where
  "set_pads ps bus = log_event (Pads ps) (bus\<lparr>sd_pads := ps\<rparr>)"

definition flash_exit_xip :: "chip \<Rightarrow> 'a flash_bus_scheme \<Rightarrow> 'a flash_bus_scheme option" where
  "flash_exit_xip chip bus = do {
     let bus = flash_init_spi bus;
     let save = sd_pads bus ! 0;
     let tmp = save\<lparr>pad_od := True, pad_pue := False, pad_pde := True\<rparr>;
     let bus = flash_cs_force OUTOVER_HIGH bus;
     (rx, bus) \<leftarrow> flash_put_get chip None 4 0 (set_pads (replicate 4 tmp) bus);
     let tmp = tmp\<lparr>pad_pde := False, pad_pue := True\<rparr>;
     let bus = flash_cs_force OUTOVER_LOW bus;
     (rx, bus) \<leftarrow> flash_put_get chip None 4 0 (set_pads (replicate 4 tmp) bus);
     let bus = flash_cs_force OUTOVER_LOW bus;
     let up = save\<lparr>pad_pde := False, pad_pue := True\<rparr>;
     let bus = flash_cs_force OUTOVER_LOW (set_pads [save, save, up, up] bus);
     (rx, bus) \<leftarrow> flash_put_get chip (Some [0xff, 0xff]) 2 0 bus;
     Some (flash_cs_force OUTOVER_NORMAL bus)
   }"

definition flash_flush_cache :: "'a flash_bus_scheme \<Rightarrow> 'a flash_bus_scheme" where
  "flash_flush_cache bus = flash_cs_force OUTOVER_NORMAL (log_event Flush_cache bus)"

definition flash_enter_cmd_xip :: "'a flash_bus_scheme \<Rightarrow> 'a flash_bus_scheme" where
  "flash_enter_cmd_xip bus = log_event (Ssi_config (Ssi_xip_read FLASHCMD_READ_DATA)) (bus\<lparr>rx_fifo := []\<rparr>)"

subsection \<open>What the chip answers to a sequence of bytes\<close>

primrec answers :: "chip \<Rightarrow> spi_event list \<Rightarrow> bytes \<Rightarrow> bytes" where
  "answers chip log [] = []"
| "answers chip log (b # bs) = chip (log @ [Spi_byte b]) # answers chip (log @ [Spi_byte b]) bs"

lemma length_answers [simp]: "length (answers chip log bs) = length bs"
  by (induction bs arbitrary: log) simp_all

lemma answers_append:
  "answers chip log (bs @ cs) = answers chip log bs @ answers chip (log @ map Spi_byte bs) cs"
  by (induction bs arbitrary: log) simp_all

lemma put_bytes_eq:
  "put_bytes chip bs bus =
     bus\<lparr>spi_log := spi_log bus @ map Spi_byte bs, rx_fifo := rx_fifo bus @ answers chip (spi_log bus) bs\<rparr>"
  by (induction bs arbitrary: bus) (simp_all add: put_bytes_def put_dr0_def log_event_def Let_def)

lemma put_bytes_append: "put_bytes chip (bs @ cs) bus = put_bytes chip cs (put_bytes chip bs bus)"
  by (simp add: put_bytes_def)

lemma put_dr0_eq: "put_dr0 chip b bus = put_bytes chip [b] bus"
  by (simp add: put_bytes_def)

end
