(* ===== verification/Flash_Fifo.thy ===== *)
theory Flash_Fifo
  imports Flash_Driver
begin

text \<open>
  The loop of \<open>flash_put_get\<close> against the FIFOs of the serial interface, one register access at a time.

  The interface works while the loop runs, and the loop may be interrupted for any time between two accesses.
  The state of \<open>Flash_Driver\<close> is extended by the transmit FIFO, the bytes inside the shift stage (at most
  two, the reserve that the code makes for them), the local variables of the loop and the place in its body.
  A step is one access of the loop, one movement of the interface, or an interrupt that requests an abort
  (\<open>flash_abort\<close>), which the loop sees in a turn in which it finds nothing else to do.
\<close>

subsection \<open>The state\<close>

text \<open>\<open>Pc_get\<close> carries \<open>did_something\<close>; \<open>Pc_check\<close> is the look at the abort flag, \<open>Pc_exit\<close> behind the \<open>break\<close>.\<close>

datatype loop_pc = Pc_loop | Pc_rx_level nat | Pc_put nat nat | Pc_get nat bool | Pc_check | Pc_exit

record ssi_state = flash_bus +
  tx_fifo :: bytes
  in_shift :: bytes
  rx_lost :: bool
  to_send :: bytes
  rx_skipping :: nat
  rx_counting :: nat
  received :: bytes
  loop_at :: loop_pc

definition SSI_FIFO_DEPTH :: nat where "SSI_FIFO_DEPTH = 16"
definition max_in_flight :: nat where "max_in_flight = 16 - 2"

definition in_flight :: "ssi_state \<Rightarrow> nat" where
  "in_flight s = length (tx_fifo s) + length (in_shift s) + length (rx_fifo s)"

definition loop_condition :: "ssi_state \<Rightarrow> bool" where
  "loop_condition s \<longleftrightarrow> to_send s \<noteq> [] \<or> rx_skipping s \<noteq> 0 \<or> rx_counting s \<noteq> 0"

text \<open>The two exits of the loop: its condition, and the \<open>break\<close>.\<close>

definition loop_done :: "ssi_state \<Rightarrow> bool" where
  "loop_done s \<longleftrightarrow> loop_at s = Pc_loop \<and> \<not> loop_condition s \<or> loop_at s = Pc_exit"

subsection \<open>The interface\<close>

text \<open>A byte goes from the transmit FIFO to the shift stage; a byte is exchanged with the chip.\<close>

definition shift_load :: "ssi_state \<Rightarrow> ssi_state" where
  "shift_load s =
     (if tx_fifo s \<noteq> [] \<and> length (in_shift s) < 2
      then s\<lparr>in_shift := in_shift s @ [hd (tx_fifo s)], tx_fifo := tl (tx_fifo s)\<rparr> else s)"

definition rx_push :: "u8 \<Rightarrow> ssi_state \<Rightarrow> ssi_state" where
  "rx_push b s =
     (if length (rx_fifo s) < SSI_FIFO_DEPTH then s\<lparr>rx_fifo := rx_fifo s @ [b]\<rparr> else s\<lparr>rx_lost := True\<rparr>)"

definition shift_done :: "chip \<Rightarrow> ssi_state \<Rightarrow> ssi_state" where
  "shift_done chip s =
     (if in_shift s \<noteq> []
      then let s = log_event (Spi_byte (hd (in_shift s))) (s\<lparr>in_shift := tl (in_shift s)\<rparr>)
           in rx_push (chip (spi_log s)) s
      else s)"

subsection \<open>The loop\<close>

definition dr0_write :: "u8 \<Rightarrow> ssi_state \<Rightarrow> ssi_state" where
  "dr0_write b s = s\<lparr>tx_fifo := tx_fifo s @ [b]\<rparr>"

definition loop_put :: "nat \<Rightarrow> nat \<Rightarrow> ssi_state \<Rightarrow> ssi_state" where
  "loop_put tx_level rx_level s =
     (if to_send s \<noteq> [] \<and> tx_level + rx_level < max_in_flight
      then dr0_write (hd (to_send s)) s\<lparr>to_send := tl (to_send s)\<rparr> else s)"

definition loop_get :: "nat \<Rightarrow> ssi_state \<Rightarrow> ssi_state" where
  "loop_get rx_level s =
     (if rx_level \<noteq> 0
      then let b = hd (rx_fifo s); s = s\<lparr>rx_fifo := tl (rx_fifo s)\<rparr>
           in if rx_skipping s \<noteq> 0 then s\<lparr>rx_skipping := rx_skipping s - 1\<rparr>
              else s\<lparr>received := received s @ [b], rx_counting := rx_counting s - 1\<rparr>
      else s)"

definition loop_step :: "ssi_state \<Rightarrow> ssi_state" where
  "loop_step s =
     (case loop_at s of
        Pc_loop \<Rightarrow> if loop_condition s then s\<lparr>loop_at := Pc_rx_level (length (tx_fifo s))\<rparr> else s
      | Pc_rx_level tx_level \<Rightarrow> s\<lparr>loop_at := Pc_put tx_level (length (rx_fifo s))\<rparr>
      | Pc_put tx_level rx_level \<Rightarrow>
          (loop_put tx_level rx_level s)
            \<lparr>loop_at := Pc_get rx_level (to_send s \<noteq> [] \<and> tx_level + rx_level < max_in_flight)\<rparr>
      | Pc_get rx_level did_something \<Rightarrow>
          (loop_get rx_level s)\<lparr>loop_at := if did_something \<or> rx_level \<noteq> 0 then Pc_loop else Pc_check\<rparr>
      | Pc_check \<Rightarrow> s\<lparr>loop_at := if flash_was_aborted s then Pc_exit else Pc_loop\<rparr>
      | Pc_exit \<Rightarrow> s)"

datatype actor = Act_cpu | Act_load | Act_shift | Act_abort

definition fifo_step :: "chip \<Rightarrow> actor \<Rightarrow> ssi_state \<Rightarrow> ssi_state" where
  "fifo_step chip a s =
     (case a of
        Act_cpu \<Rightarrow> loop_step s | Act_load \<Rightarrow> shift_load s | Act_shift \<Rightarrow> shift_done chip s
      | Act_abort \<Rightarrow> flash_abort s)"

text \<open>The states that can be reached, whoever moves when; and the run under a given schedule.\<close>

inductive fifo_reach :: "chip \<Rightarrow> ssi_state \<Rightarrow> ssi_state \<Rightarrow> bool" for chip s0 where
  fifo_reach_start: "fifo_reach chip s0 s0"
| fifo_reach_step: "fifo_reach chip s0 s \<Longrightarrow> fifo_reach chip s0 (fifo_step chip a s)"

primrec fifo_run :: "chip \<Rightarrow> (nat \<Rightarrow> actor) \<Rightarrow> ssi_state \<Rightarrow> nat \<Rightarrow> ssi_state" where
  "fifo_run chip sched s0 0 = s0"
| "fifo_run chip sched s0 (Suc n) = fifo_step chip (sched n) (fifo_run chip sched s0 n)"

text \<open>The CPU and the interface move again and again; an abort may come or not.\<close>

definition fair :: "(nat \<Rightarrow> actor) \<Rightarrow> bool" where
  "fair sched \<longleftrightarrow> (\<forall>a n. a \<noteq> Act_abort \<longrightarrow> (\<exists>m\<ge>n. sched m = a))"

text \<open>
  A start of the loop: \<^term>\<open>rx_skip\<close> bytes are under way, wherever they are, and no more than the receive
  FIFO holds.
\<close>

definition loop_start :: "bytes option \<Rightarrow> nat \<Rightarrow> nat \<Rightarrow> ssi_state \<Rightarrow> bool" where
  "loop_start tx n rx_skip s \<longleftrightarrow>
     loop_at s = Pc_loop \<and> received s = [] \<and> rx_skipping s = rx_skip \<and> rx_counting s = n \<and>
     to_send s = (case tx of Some d \<Rightarrow> take n d | None \<Rightarrow> replicate n 0) \<and> length (to_send s) = n \<and>
     in_flight s = rx_skip \<and> rx_skip \<le> SSI_FIFO_DEPTH \<and> length (in_shift s) \<le> 2 \<and> \<not> rx_lost s"

text \<open>The bus that \<open>Flash_Driver\<close> sees: every byte that was written has been exchanged.\<close>

definition settled :: "chip \<Rightarrow> ssi_state \<Rightarrow> flash_bus" where
  "settled chip s = put_bytes chip (in_shift s @ tx_fifo s) (flash_bus.truncate s)"

subsection \<open>The invariant\<close>

text \<open>
  The levels that the loop has read account for all but two of the bytes under way, and the receive FIFO holds
  at least what the loop has seen in it.
\<close>

definition levels_ok :: "ssi_state \<Rightarrow> bool" where
  "levels_ok s \<longleftrightarrow>
     (case loop_at s of
        Pc_loop \<Rightarrow> True
      | Pc_rx_level t \<Rightarrow> in_flight s \<le> t + length (in_shift s) + length (rx_fifo s)
      | Pc_put t r \<Rightarrow> in_flight s \<le> t + r + 2 \<and> r \<le> length (rx_fifo s)
      | Pc_get r d \<Rightarrow> r \<le> length (rx_fifo s)
      | Pc_check \<Rightarrow> True
      | Pc_exit \<Rightarrow> True)"

definition fifo_inv :: "ssi_state \<Rightarrow> bool" where
  "fifo_inv s \<longleftrightarrow>
     in_flight s \<le> SSI_FIFO_DEPTH \<and> length (in_shift s) \<le> 2 \<and> \<not> rx_lost s \<and> levels_ok s \<and>
     rx_skipping s + rx_counting s = in_flight s + length (to_send s)"


lemmas fifo_defs =
  fifo_step_def loop_step_def flash_abort_def shift_load_def shift_done_def rx_push_def loop_put_def loop_get_def dr0_write_def
  log_event_def

lemma fifo_inv_start: "loop_start tx n rx_skip s \<Longrightarrow> fifo_inv s"
  by (auto simp: loop_start_def fifo_inv_def levels_ok_def split: option.splits)

lemma fifo_inv_load: "fifo_inv s \<Longrightarrow> fifo_inv (shift_load s)"
  by (cases "tx_fifo s")
    (auto simp: fifo_inv_def levels_ok_def in_flight_def shift_load_def split: loop_pc.splits)

lemma fifo_inv_shift: "fifo_inv s \<Longrightarrow> fifo_inv (shift_done chip s)"
  by (cases "in_shift s")
    (auto simp: fifo_inv_def levels_ok_def in_flight_def shift_done_def rx_push_def log_event_def Let_def
      split: loop_pc.splits)

lemma fifo_inv_put:
  "fifo_inv s \<Longrightarrow> loop_at s = Pc_put t r \<Longrightarrow> fifo_inv ((loop_put t r s)\<lparr>loop_at := Pc_get r d\<rparr>)"
  by (cases "to_send s")
    (auto simp: fifo_inv_def levels_ok_def in_flight_def loop_put_def dr0_write_def max_in_flight_def
      SSI_FIFO_DEPTH_def)

lemma fifo_inv_get:
  "fifo_inv s \<Longrightarrow> loop_at s = Pc_get r d \<Longrightarrow> pc = Pc_loop \<or> pc = Pc_check \<Longrightarrow> fifo_inv ((loop_get r s)\<lparr>loop_at := pc\<rparr>)"
  by (cases "rx_fifo s") (auto simp: fifo_inv_def levels_ok_def in_flight_def loop_get_def Let_def)

lemma fifo_inv_place: "fifo_inv s \<Longrightarrow> pc = Pc_loop \<or> pc = Pc_exit \<Longrightarrow> fifo_inv (s\<lparr>loop_at := pc\<rparr>)"
  by (auto simp: fifo_inv_def levels_ok_def in_flight_def)

lemma fifo_inv_abort: "fifo_inv s \<Longrightarrow> fifo_inv (flash_abort s)"
  by (auto simp: fifo_inv_def levels_ok_def in_flight_def flash_abort_def split: loop_pc.splits)

lemma fifo_inv_cpu: "fifo_inv s \<Longrightarrow> fifo_inv (loop_step s)"
proof (cases "loop_at s")
  case Pc_loop
  assume "fifo_inv s"
  then show ?thesis using Pc_loop by (simp add: loop_step_def fifo_inv_def levels_ok_def in_flight_def)
next
  case (Pc_rx_level t)
  assume "fifo_inv s"
  then show ?thesis using Pc_rx_level by (simp add: loop_step_def fifo_inv_def levels_ok_def in_flight_def)
qed (simp_all add: loop_step_def fifo_inv_put fifo_inv_get fifo_inv_place)

lemma fifo_inv_step: "fifo_inv s \<Longrightarrow> fifo_inv (fifo_step chip a s)"
  by (simp add: fifo_step_def fifo_inv_load fifo_inv_shift fifo_inv_cpu fifo_inv_abort split: actor.split)

lemma fifo_inv_reach: "fifo_reach chip s0 s \<Longrightarrow> fifo_inv s0 \<Longrightarrow> fifo_inv s"
  by (induction rule: fifo_reach.induct) (auto intro: fifo_inv_step)

lemma fifo_run_reach: "fifo_reach chip s0 (fifo_run chip sched s0 n)"
  by (induction n) (auto intro: fifo_reach.intros)

lemma fifo_inv_run: "fifo_inv s0 \<Longrightarrow> fifo_inv (fifo_run chip sched s0 n)"
  using fifo_inv_reach fifo_run_reach by blast

subsection \<open>The order of the bytes\<close>

text \<open>What the log and the received bytes will be in the end; no step changes it.\<close>

definition outlook :: "chip \<Rightarrow> ssi_state \<Rightarrow> spi_event list \<times> bytes" where
  "outlook chip s =
     (let bs = in_shift s @ tx_fifo s @ to_send s
      in (spi_log s @ map Spi_byte bs,
          received s @ drop (rx_skipping s) (rx_fifo s @ answers chip (spi_log s) bs)))"

lemma outlook_load: "outlook chip (shift_load s) = outlook chip s"
  by (cases "tx_fifo s") (simp_all add: outlook_def shift_load_def)

lemma outlook_shift: "fifo_inv s \<Longrightarrow> outlook chip (shift_done chip s) = outlook chip s"
  by (cases "in_shift s")
    (auto simp: outlook_def shift_done_def rx_push_def log_event_def Let_def fifo_inv_def in_flight_def)

lemma outlook_put: "outlook chip (loop_put t r s) = outlook chip s"
  by (cases "to_send s") (simp_all add: outlook_def loop_put_def dr0_write_def)

lemma outlook_get: "r \<le> length (rx_fifo s) \<Longrightarrow> outlook chip (loop_get r s) = outlook chip s"
  by (cases "rx_fifo s"; cases "rx_skipping s") (simp_all add: outlook_def loop_get_def Let_def)

lemma outlook_pc [simp]: "outlook chip (s\<lparr>loop_at := pc\<rparr>) = outlook chip s"
  by (simp add: outlook_def)

lemma outlook_abort [simp]: "outlook chip (flash_abort s) = outlook chip s"
  by (simp add: outlook_def flash_abort_def)

lemma outlook_step: "fifo_inv s \<Longrightarrow> outlook chip (fifo_step chip a s) = outlook chip s"
  by (auto simp: fifo_step_def loop_step_def outlook_load outlook_shift outlook_put outlook_get fifo_inv_def
      levels_ok_def split: actor.split loop_pc.split)

lemma frame_step:
  "sd_pads (fifo_step chip a s) = sd_pads s \<and> fl_aborted (fifo_step chip a s) = (a = Act_abort \<or> fl_aborted s)"
  by (auto simp: fifo_defs Let_def split: actor.split loop_pc.split)

lemma outlook_reach:
  assumes "fifo_reach chip s0 s" "fifo_inv s0"
  shows "outlook chip s = outlook chip s0 \<and> sd_pads s = sd_pads s0"
  using assms
proof (induction rule: fifo_reach.induct)
  case (fifo_reach_step s a)
  then show ?case using fifo_inv_reach by (metis frame_step outlook_step)
qed simp

text \<open>The loop is left by the \<open>break\<close> only after an abort.\<close>

lemma exit_aborted_step:
  "(loop_at s = Pc_exit \<Longrightarrow> fl_aborted s) \<Longrightarrow> loop_at (fifo_step chip a s) = Pc_exit \<Longrightarrow> fl_aborted (fifo_step chip a s)"
  by (auto simp: fifo_defs flash_was_aborted_def Let_def split: actor.splits loop_pc.splits if_splits)

lemma exit_aborted:
  assumes "fifo_reach chip s0 s" "loop_at s0 = Pc_loop" "loop_at s = Pc_exit" shows "fl_aborted s"
  using assms
proof (induction rule: fifo_reach.induct)
  case (fifo_reach_step s a)
  then show ?case by (intro exit_aborted_step) auto
qed simp


lemma done_in_flight: "fifo_inv s \<Longrightarrow> loop_done s \<Longrightarrow> loop_at s \<noteq> Pc_exit \<Longrightarrow> in_flight s = 0 \<and> to_send s = []"
  by (auto simp: fifo_inv_def loop_done_def loop_condition_def)

text \<open>
  For the witnesses: one command byte is in the transmit FIFO and one byte is to be read; the CPU and the
  interface take turns.
\<close>

definition one_byte_read :: ssi_state where
  "one_byte_read =
     \<lparr>spi_log = [], rx_fifo = [], sd_pads = [], fl_aborted = False, tx_fifo = [5], in_shift = [],
      rx_lost = False, to_send = [0], rx_skipping = 1, rx_counting = 1, received = [], loop_at = Pc_loop\<rparr>"

definition round_robin :: "nat \<Rightarrow> actor" where
  "round_robin n = (if n mod 3 = 0 then Act_cpu else if n mod 3 = 1 then Act_load else Act_shift)"

definition counting_chip :: chip where
  "counting_chip log = of_nat (length log) + 0x40"

lemma one_byte_read_start: "loop_start None 1 1 one_byte_read"
  by (simp add: loop_start_def one_byte_read_def in_flight_def SSI_FIFO_DEPTH_def)

lemma round_robin_fair: "fair round_robin"
  unfolding fair_def
proof (intro allI impI)
  fix a and n :: nat
  assume "a \<noteq> Act_abort"
  have "(3 * n + 1) mod 3 = 1" "(3 * n + 2) mod 3 = 2" by presburger+
  then have turn: "round_robin (3 * n) = Act_cpu" "round_robin (3 * n + 1) = Act_load"
      "round_robin (3 * n + 2) = Act_shift"
    by (simp_all add: round_robin_def)
  show "\<exists>m\<ge>n. round_robin m = a"
  proof (cases a)
    case Act_cpu
    then show ?thesis using turn(1) by (intro exI [of _ "3 * n"]) simp
  next
    case Act_load
    then show ?thesis using turn(2) by (intro exI [of _ "3 * n + 1"]) simp
  next
    case Act_shift
    then show ?thesis using turn(3) by (intro exI [of _ "3 * n + 2"]) simp
  qed (use \<open>a \<noteq> Act_abort\<close> in simp)
qed

lemma one_byte_read_run:
  "fifo_run counting_chip round_robin one_byte_read 24 =
     \<lparr>spi_log = [Spi_byte 5, Spi_byte 0], rx_fifo = [], sd_pads = [], fl_aborted = False, tx_fifo = [],
      in_shift = [], rx_lost = False, to_send = [], rx_skipping = 0, rx_counting = 0, received = [0x42],
      loop_at = Pc_loop\<rparr>"
  by code_simp

text \<open>The same with an abort, which comes first, before the interface has moved.\<close>

definition abort_first :: "nat \<Rightarrow> actor" where
  "abort_first n = (if n = 0 then Act_abort else Act_cpu)"

lemma aborted_read_run:
  "fifo_run counting_chip abort_first one_byte_read 10 =
     one_byte_read\<lparr>fl_aborted := True, tx_fifo := [5, 0], to_send := [], loop_at := Pc_exit\<rparr>"
  by code_simp

text \<open>Wherever the loop is: what it has stored and what is on the wire begins the result of the whole loop.\<close>

lemma put_get_so_far:
  assumes "loop_start tx n rx_skip s0" "\<not> fl_aborted s0" "fifo_reach chip s0 s"
  shows "flash_put_get chip tx n rx_skip (settled chip s0) =
      Some (snd (outlook chip s0), flash_cs_force OUTOVER_HIGH
        ((flash_bus.truncate s0)\<lparr>spi_log := fst (outlook chip s0), rx_fifo := []\<rparr>))"
    and "\<exists>more. snd (outlook chip s0) = received s @ more"
    and "\<exists>rest. fst (outlook chip s0) = spi_log s @ map Spi_byte rest"
proof -
  define bs where "bs = in_shift s0 @ tx_fifo s0"
  define all where "all = rx_fifo s0 @ answers chip (spi_log s0) (bs @ to_send s0)"
  have out: "outlook chip s0 = (spi_log s0 @ map Spi_byte (bs @ to_send s0), drop rx_skip all)"
    using assms(1) by (simp add: outlook_def loop_start_def bs_def all_def Let_def)
  have len: "length all = rx_skip + n"
    using assms(1) by (auto simp: all_def bs_def loop_start_def in_flight_def)
  have put: "put_bytes chip (to_send s0) (settled chip s0) =
      flash_bus.truncate s0\<lparr>spi_log := spi_log s0 @ map Spi_byte (bs @ to_send s0), rx_fifo := all\<rparr>"
    by (simp add: settled_def put_bytes_eq answers_append all_def bs_def flash_bus.defs)
  have "(case tx of Some d \<Rightarrow> take n d | None \<Rightarrow> replicate n 0) = to_send s0" "length (to_send s0) = n"
    using assms(1) unfolding loop_start_def by argo+
  moreover have "\<not> fl_aborted (settled chip s0)"
    using assms(2) by (simp add: settled_def put_bytes_eq flash_bus.defs)
  ultimately show "flash_put_get chip tx n rx_skip (settled chip s0) =
      Some (snd (outlook chip s0), flash_cs_force OUTOVER_HIGH
        ((flash_bus.truncate s0)\<lparr>spi_log := fst (outlook chip s0), rx_fifo := []\<rparr>))"
    using len by (simp add: flash_put_get_def put out Let_def)
  have same: "outlook chip s = outlook chip s0" using outlook_reach [OF assms(3) fifo_inv_start [OF assms(1)]] by simp
  show "\<exists>more. snd (outlook chip s0) = received s @ more" "\<exists>rest. fst (outlook chip s0) = spi_log s @ map Spi_byte rest"
    unfolding same [symmetric] by (auto simp: outlook_def Let_def intro!: exI [of _ "in_shift s @ tx_fifo s @ to_send s"])
qed



text \<open>C27: Under any interruption, neither FIFO ever holds more than its sixteen bytes and no received byte is
  lost.\<close>

theorem fifos_never_overflow:
  assumes "loop_start tx n rx_skip s0" "fifo_reach chip s0 s"
  shows "length (tx_fifo s) \<le> SSI_FIFO_DEPTH \<and> length (rx_fifo s) \<le> SSI_FIFO_DEPTH \<and>
    in_flight s \<le> SSI_FIFO_DEPTH \<and> \<not> rx_lost s"
  using fifo_inv_reach [OF assms(2) fifo_inv_start [OF assms(1)]] by (auto simp: fifo_inv_def in_flight_def)

theorem fifos_never_overflow_witness:
  "\<not> rx_lost (fifo_run counting_chip round_robin one_byte_read 24)"
  using fifos_never_overflow [OF one_byte_read_start fifo_run_reach] by blast

subsection \<open>The loop ends\<close>

text \<open>
  Every movement of a byte makes the potential smaller, and so does the first abort; a step that leaves it
  changes only the place.
\<close>

definition potential :: "ssi_state \<Rightarrow> nat" where
  "potential s = 4 * length (to_send s) + 3 * length (tx_fifo s) + 2 * length (in_shift s) + length (rx_fifo s) +
     (if fl_aborted s then 0 else 1)"

lemma potential_load:
  "if tx_fifo s \<noteq> [] \<and> length (in_shift s) < 2 then potential (shift_load s) < potential s else shift_load s = s"
  by (cases "tx_fifo s") (auto simp: shift_load_def potential_def)

lemma potential_shift:
  "if in_shift s \<noteq> [] then potential (shift_done chip s) < potential s else shift_done chip s = s"
  by (cases "in_shift s") (auto simp: shift_done_def rx_push_def log_event_def potential_def Let_def)

lemma potential_put: "loop_put t r s = s \<or> potential (loop_put t r s) < potential s"
  by (cases "to_send s") (auto simp: loop_put_def dr0_write_def potential_def)

lemma potential_get:
  "r \<le> length (rx_fifo s) \<Longrightarrow> loop_get r s = s \<or> potential (loop_get r s) < potential s"
  by (cases "rx_fifo s") (auto simp: loop_get_def potential_def Let_def)

lemma potential_abort: "if fl_aborted s then flash_abort s = s else potential (flash_abort s) < potential s"
  by (simp add: flash_abort_def potential_def)

lemma potential_pc [simp]: "potential (s\<lparr>loop_at := pc\<rparr>) = potential s"
  by (simp add: potential_def)

lemma potential_step:
  assumes "fifo_inv s"
  shows "potential (fifo_step chip a s) < potential s \<or> (\<exists>pc. fifo_step chip a s = s\<lparr>loop_at := pc\<rparr>)"
proof -
  have same: "\<exists>pc. s = s\<lparr>loop_at := pc\<rparr>" by (rule exI [of _ "loop_at s"]) simp
  show ?thesis
  proof (cases a)
    case Act_cpu
    show ?thesis
    proof (cases "loop_at s")
      case Pc_loop
      then show ?thesis using same Act_cpu by (auto simp: fifo_step_def loop_step_def)
    next
      case (Pc_put t r)
      then show ?thesis
        using potential_put [of t r s] Act_cpu by (auto simp: fifo_step_def loop_step_def)
    next
      case (Pc_get r d)
      then have "r \<le> length (rx_fifo s)" using assms by (simp add: fifo_inv_def levels_ok_def)
      then show ?thesis
        using potential_get [of r s] Act_cpu Pc_get by (auto simp: fifo_step_def loop_step_def)
    next
      case Pc_exit
      then show ?thesis using same Act_cpu by (simp add: fifo_step_def loop_step_def)
    qed (use Act_cpu in \<open>auto simp: fifo_step_def loop_step_def\<close>)
  next
    case Act_load
    then show ?thesis using potential_load [of s] same by (auto simp: fifo_step_def split: if_splits)
  next
    case Act_shift
    then show ?thesis using potential_shift [of s chip] same by (auto simp: fifo_step_def split: if_splits)
  next
    case Act_abort
    then show ?thesis using potential_abort [of s] same by (auto simp: fifo_step_def split: if_splits)
  qed
qed


lemma cpu_steps:
  assumes "fair sched"
    and still: "\<And>m. n \<le> m \<Longrightarrow> sched m \<noteq> Act_cpu \<Longrightarrow> fifo_run chip sched s0 (Suc m) = fifo_run chip sched s0 m"
    and "n \<le> m"
  shows "\<exists>k\<ge>m. fifo_run chip sched s0 k = (loop_step ^^ i) (fifo_run chip sched s0 m)"
proof (induction i)
  case (Suc i)
  then obtain k where k: "m \<le> k" "fifo_run chip sched s0 k = (loop_step ^^ i) (fifo_run chip sched s0 m)"
    by blast
  define l where "l = (LEAST l. k \<le> l \<and> sched l = Act_cpu)"
  have "\<exists>l. k \<le> l \<and> sched l = Act_cpu" using assms(1) by (auto simp: fair_def)
  then have l: "k \<le> l" "sched l = Act_cpu" unfolding l_def by (metis (mono_tags, lifting) LeastI)+
  have wait: "k \<le> j \<Longrightarrow> j \<le> l \<Longrightarrow> fifo_run chip sched s0 j = fifo_run chip sched s0 k" for j
  proof (induction j rule: dec_induct)
    case (step j)
    then have "sched j \<noteq> Act_cpu"
      using not_less_Least [of j "\<lambda>l. k \<le> l \<and> sched l = Act_cpu"] by (simp add: l_def)
    then have "fifo_run chip sched s0 (Suc j) = fifo_run chip sched s0 j"
      using step(1) k(1) assms(3) by (intro still) simp_all
    then show ?case using step by simp
  qed simp
  have "fifo_run chip sched s0 (Suc l) = (loop_step ^^ Suc i) (fifo_run chip sched s0 m)"
    using wait [OF l(1) order_refl] by (simp add: fifo_step_def l(2) k(2))
  then show ?case using k(1) l(1) by (metis le_SucI le_trans)
qed auto

lemma comes_back:
  "\<exists>i. loop_at ((loop_step ^^ i) s) = Pc_loop \<or> loop_at ((loop_step ^^ i) s) = Pc_exit"
proof -
  let ?P = "\<lambda>s. \<exists>i. loop_at ((loop_step ^^ i) s) = Pc_loop \<or> loop_at ((loop_step ^^ i) s) = Pc_exit"
  have later: "?P s" if "?P (loop_step s)" for s
    using that by (metis comp_apply funpow_Suc_right)
  have now: "?P s" if "loop_at s = Pc_loop \<or> loop_at s = Pc_exit" for s using that by (intro exI [of _ 0]) simp
  have check: "?P s" if "loop_at s = Pc_check" for s by (rule later, rule now) (use that in \<open>simp add: loop_step_def\<close>)
  have get: "?P s" if "loop_at s = Pc_get r d" for s r d
  proof (rule later, cases "d \<or> r \<noteq> 0")
    case True
    show "?P (loop_step s)" by (rule now) (use that True in \<open>simp add: loop_step_def\<close>)
  next
    case False
    show "?P (loop_step s)" by (rule check) (use that False in \<open>simp add: loop_step_def\<close>)
  qed
  have put: "?P s" if "loop_at s = Pc_put t r" for s t r
    by (rule later, rule get) (use that in \<open>simp add: loop_step_def\<close>)
  have level: "?P s" if "loop_at s = Pc_rx_level t" for s t
    by (rule later, rule put) (use that in \<open>simp add: loop_step_def\<close>)
  show ?thesis by (cases "loop_at s") (blast intro: now check get put level)+
qed

lemma fifo_progress:
  assumes inv: "fifo_inv s0" and fair: "fair sched"
    and live: "\<And>m. \<not> loop_done (fifo_run chip sched s0 m)"
  shows "\<exists>m. potential (fifo_run chip sched s0 m) < potential (fifo_run chip sched s0 n)"
proof (rule ccontr)
  let ?run = "fifo_run chip sched s0"
  assume "\<not> ?thesis"
  then have low: "\<And>m. potential (?run n) \<le> potential (?run m)" by (simp add: not_less)
  have pc: "\<exists>pc. ?run m = ?run n\<lparr>loop_at := pc\<rparr>" if "n \<le> m" for m
    using that
  proof (induction m rule: dec_induct)
    case base
    show ?case by (rule exI [of _ "loop_at (?run n)"]) simp
  next
    case (step m)
    have "potential (?run (Suc m)) < potential (?run m) \<or> (\<exists>pc. ?run (Suc m) = ?run m\<lparr>loop_at := pc\<rparr>)"
      using potential_step [OF fifo_inv_run [OF inv]] by simp
    then show ?case using step.IH low [of "Suc m"] by auto
  qed
  have idle: "in_shift (?run n) = []" "tx_fifo (?run n) = []"
  proof -
    obtain m where m: "n \<le> m" "sched m = Act_shift" using fair by (auto simp: fair_def)
    obtain p where "?run m = ?run n\<lparr>loop_at := p\<rparr>" using pc [OF m(1)] by blast
    then show shift: "in_shift (?run n) = []"
      using low [of "Suc m"] m(2) potential_shift [of "?run m" chip]
      by (simp add: fifo_step_def split: if_splits)
    obtain m where m: "n \<le> m" "sched m = Act_load" using fair by (auto simp: fair_def)
    obtain p where "?run m = ?run n\<lparr>loop_at := p\<rparr>" using pc [OF m(1)] by blast
    then show "tx_fifo (?run n) = []"
      using low [of "Suc m"] m(2) shift potential_load [of "?run m"]
      by (simp add: fifo_step_def split: if_splits)
  qed
  have still: "?run (Suc m) = ?run m" if "n \<le> m" "sched m \<noteq> Act_cpu" for m
  proof -
    have "fl_aborted (?run m)" if "sched m = Act_abort"
      using potential_abort [of "?run m"] low [of "Suc m"] pc [OF \<open>n \<le> m\<close>] that by (auto simp: fifo_step_def split: if_splits)
    then show ?thesis
      using pc [OF that(1)] idle that(2)
      by (cases "sched m") (auto simp: fifo_step_def shift_load_def shift_done_def flash_abort_def)
  qed
  note steps = cpu_steps [OF fair still]
  obtain i where i: "loop_at ((loop_step ^^ i) (?run n)) = Pc_loop \<or> loop_at ((loop_step ^^ i) (?run n)) = Pc_exit"
    using comes_back by blast
  obtain k where k: "n \<le> k" "?run k = (loop_step ^^ i) (?run n)" using steps [of n n i] by auto
  have "loop_at (?run k) \<noteq> Pc_exit" using live [of k] by (auto simp: loop_done_def)
  then have "\<exists>k\<ge>n. loop_at (?run k) = Pc_loop" using i k by auto
  then obtain k where k: "n \<le> k" "loop_at (?run k) = Pc_loop" by blast
  have kidle: "in_shift (?run k) = []" "tx_fifo (?run k) = []" using pc [OF k(1)] idle by auto
  have cond: "loop_condition (?run k)" using live [of k] k(2) by (simp add: loop_done_def)
  obtain l where l: "?run l = (loop_step ^^ 4) (?run k)" using steps [OF _ _ k(1), of 4] by auto
  have "potential (?run l) < potential (?run k)"
    unfolding l using k(2) kidle cond fifo_inv_run [OF inv, of chip sched k]
    by (cases "to_send (?run k)"; cases "rx_fifo (?run k)")
      (auto simp: eval_nat_numeral loop_step_def loop_put_def loop_get_def dr0_write_def potential_def
        fifo_inv_def in_flight_def max_in_flight_def loop_condition_def Let_def)
  moreover have "potential (?run k) = potential (?run n)" using pc [OF k(1)] by auto
  ultimately show False using low [of l] by simp
qed

lemma fifo_run_ends:
  assumes "loop_start tx n rx_skip s0" and fair: "fair sched"
  shows "\<exists>m. loop_done (fifo_run chip sched s0 m)"
proof (rule ccontr)
  assume live: "\<not> ?thesis"
  have inv: "fifo_inv s0" using assms(1) by (rule fifo_inv_start)
  have "\<exists>m. potential (fifo_run chip sched s0 m) + i \<le> potential s0" for i
  proof (induction i)
    case 0
    show ?case by (rule exI [of _ 0]) simp
  next
    case (Suc i)
    then obtain m where m: "potential (fifo_run chip sched s0 m) + i \<le> potential s0" by blast
    obtain k where "potential (fifo_run chip sched s0 k) < potential (fifo_run chip sched s0 m)"
      using fifo_progress [OF inv fair, of chip m] live by blast
    then have "potential (fifo_run chip sched s0 k) + Suc i \<le> potential s0" using m by simp
    then show ?case by blast
  qed
  from this [of "Suc (potential s0)"] show False by simp
qed

text \<open>C26: The loop ends under every fair schedule of the CPU and the interface, with an abort at any time or with
  none: it cannot wait for a byte that is not on its way.  Without an abort it ends by its condition, with every byte
  sent and every byte counted.\<close>

theorem put_get_ends:
  assumes "loop_start tx n rx_skip s0" and fair: "fair sched"
  shows "\<exists>m. loop_done (fifo_run chip sched s0 m) \<and>
    (fl_aborted (fifo_run chip sched s0 m) \<or> loop_at (fifo_run chip sched s0 m) = Pc_loop \<and> \<not> loop_condition (fifo_run chip sched s0 m))"
proof -
  obtain m where m: "loop_done (fifo_run chip sched s0 m)" using fifo_run_ends [OF assms] by blast
  have "fl_aborted (fifo_run chip sched s0 m)" if "loop_at (fifo_run chip sched s0 m) = Pc_exit"
    using exit_aborted [OF fifo_run_reach _ that] assms(1) by (simp add: loop_start_def)
  then show ?thesis using m by (intro exI [of _ m]) (auto simp: loop_done_def)
qed

theorem put_get_ends_witness: "\<exists>m. loop_done (fifo_run counting_chip round_robin one_byte_read m)"
  using put_get_ends [OF one_byte_read_start round_robin_fair, of counting_chip] by blast

end
