(* ===== verification/Flash_Frames.thy ===== *)
theory Flash_Frames
  imports Flash_Driver
begin

text \<open>
  What the flash driver sends, as frames: the bytes between two edges of the chip select line.  The theory
  shows the frames of every command, and which commands a program or erase of a range sends, page by page and
  block by block.  The polls of the status register are not counted as commands: their number is the chip's.
\<close>

subsection \<open>Frames on the wire\<close>

definition wire_step :: "spi_event \<Rightarrow> bytes option \<times> bytes list \<Rightarrow> bytes option \<times> bytes list" where
  "wire_step e w =
     (case (e, w) of
        (Cs OUTOVER_LOW, None, fs) \<Rightarrow> (Some [], fs)
      | (Cs OUTOVER_LOW, Some bs, fs) \<Rightarrow> (Some bs, fs)
      | (Cs _, Some bs, fs) \<Rightarrow> (None, fs @ [bs])
      | (Spi_byte b, Some bs, fs) \<Rightarrow> (Some (bs @ [b]), fs)
      | (_, w) \<Rightarrow> w)"

definition wire :: "spi_event list \<Rightarrow> bytes option \<times> bytes list" where
  "wire log = fold wire_step log (None, [])"

definition commands :: "spi_event list \<Rightarrow> bytes list" where
  "commands log = filter (\<lambda>f. f \<noteq> [] \<and> hd f \<noteq> FLASHCMD_READ_STATUS) (snd (wire log))"

definition frame :: "bytes \<Rightarrow> spi_event list" where
  "frame bs = Cs OUTOVER_LOW # map Spi_byte bs @ [Cs OUTOVER_HIGH]"

text \<open>Between two commands: the chip is not selected, nothing is left to read, no abort.\<close>

definition bus_idle :: "'a flash_bus_scheme \<Rightarrow> bool" where
  "bus_idle bus \<longleftrightarrow> rx_fifo bus = [] \<and> \<not> fl_aborted bus \<and> fst (wire (spi_log bus)) = None"

lemma fold_wire_bytes: "fold wire_step (map Spi_byte bs) (Some cs, fs) = (Some (cs @ bs), fs)"
  by (induction bs arbitrary: cs) (simp_all add: wire_step_def)

lemma wire_append: "wire (log @ es) = fold wire_step es (wire log)"
  by (simp add: wire_def)

lemma wire_frame:
  assumes "fst (wire log) = None"
  shows "wire (log @ frame bs) = (None, snd (wire log) @ [bs])"
proof -
  obtain fs where "wire log = (None, fs)" using assms by (cases "wire log") simp
  then show ?thesis
    by (simp add: wire_append frame_def wire_step_def [of "Cs OUTOVER_LOW"] fold_wire_bytes) (simp add: wire_step_def)
qed

lemma commands_frame:
  "fst (wire log) = None \<Longrightarrow>
     commands (log @ frame bs) =
       commands log @ (if bs \<noteq> [] \<and> hd bs \<noteq> FLASHCMD_READ_STATUS then [bs] else [])"
  by (simp add: commands_def wire_frame)

text \<open>A bus on which one more frame was sent.\<close>

definition sent :: "bytes \<Rightarrow> 'a flash_bus_scheme \<Rightarrow> 'a flash_bus_scheme" where
  "sent bs bus = bus\<lparr>spi_log := spi_log bus @ frame bs\<rparr>"

lemma bus_idle_sent [simp]: "bus_idle bus \<Longrightarrow> bus_idle (sent bs bus)"
  by (simp add: bus_idle_def sent_def wire_frame)

lemma commands_sent:
  "bus_idle bus \<Longrightarrow>
     commands (spi_log (sent bs bus)) =
       commands (spi_log bus) @ (if bs \<noteq> [] \<and> hd bs \<noteq> FLASHCMD_READ_STATUS then [bs] else [])"
  by (simp add: bus_idle_def sent_def commands_frame)

subsection \<open>One exchange\<close>

text \<open>The bytes that are sent for \<open>tx\<close>, and what is read while the frame \<open>bs\<close> goes out.\<close>

definition tx_data :: "bytes option \<Rightarrow> nat \<Rightarrow> bytes" where
  "tx_data tx n = (case tx of Some d \<Rightarrow> take n d | None \<Rightarrow> replicate n 0)"

definition frame_answers :: "chip \<Rightarrow> bytes \<Rightarrow> 'a flash_bus_scheme \<Rightarrow> bytes" where
  "frame_answers chip bs bus = answers chip (spi_log bus @ [Cs OUTOVER_LOW]) bs"

lemma length_frame_answers [simp]: "length (frame_answers chip bs bus) = length bs"
  by (simp add: frame_answers_def)

lemma exchange_frame:
  assumes "bus_idle bus" "length (tx_data tx n) = n"
  shows "flash_put_get chip tx n (length hdr) (put_bytes chip hdr (flash_cs_force OUTOVER_LOW bus)) =
           Some (drop (length hdr) (frame_answers chip (hdr @ tx_data tx n) bus), sent (hdr @ tx_data tx n) bus)"
  using assms
  by (simp add: flash_put_get_def tx_data_def [symmetric] put_bytes_eq flash_cs_force_def log_event_def Let_def
      bus_idle_def sent_def frame_def frame_answers_def answers_append)

lemma length_cmd_addr_bytes [simp]: "length (cmd_addr_bytes cmd addr) = 4"
  by (simp add: cmd_addr_bytes_def Let_def)

lemma do_cmd_frame:
  assumes "bus_idle bus" "length (tx_data tx n) = n"
  shows "flash_do_cmd chip cmd tx n bus =
           Some (tl (frame_answers chip (cmd # tx_data tx n) bus), sent (cmd # tx_data tx n) bus)"
  using exchange_frame [OF assms, of chip "[cmd]"] by (simp add: flash_do_cmd_def put_dr0_eq drop_Suc)

lemma cmd_addr_frame:
  assumes "bus_idle bus" "length (tx_data tx n) = n"
  shows "flash_put_get chip tx n 4 (flash_put_cmd_addr chip cmd addr bus) =
           Some (drop 4 (frame_answers chip (cmd_addr_bytes cmd addr @ tx_data tx n) bus),
                 sent (cmd_addr_bytes cmd addr @ tx_data tx n) bus)"
  using exchange_frame [OF assms, of chip "cmd_addr_bytes cmd addr"] by (simp add: flash_put_cmd_addr_def)

text \<open>Command and address: the address has 24 bits, and the bits above them change the command.\<close>

definition addr_bytes :: "u32 \<Rightarrow> bytes" where
  "addr_bytes addr = [ucast (drop_bit 16 addr), ucast (drop_bit 8 addr), ucast addr]"

lemma cmd_addr_bytes_eq: "cmd_addr_bytes cmd addr = (cmd OR ucast (drop_bit 24 addr)) # addr_bytes addr"
proof -
  have four: "[0..<4] = [0, 1, 2, 3 :: nat]" by (simp add: upt_rec)
  show ?thesis
    unfolding cmd_addr_bytes_def Let_def four addr_bytes_def
    by (simp, intro conjI; rule bit_word_eqI) (auto simp: bit_simps)
qed

lemma cmd_addr_bytes_24:
  assumes "addr < 0x1000000"
  shows "cmd_addr_bytes cmd addr = cmd # addr_bytes addr"
proof -
  have "drop_bit 24 addr = 0"
    using assms by (simp add: drop_bit_eq_div word_eq_iff_unsigned unat_div word_less_nat_alt flip: unat_eq_zero)
  then show ?thesis by (simp add: cmd_addr_bytes_eq)
qed


subsection \<open>Waiting for the chip\<close>

definition status_poll :: bytes where "status_poll = [FLASHCMD_READ_STATUS, 0]"

definition chip_busy :: "chip \<Rightarrow> spi_event list \<Rightarrow> bool" where
  "chip_busy chip log \<longleftrightarrow> answers chip (log @ [Cs OUTOVER_LOW]) status_poll ! 1 AND 1 \<noteq> 0"

text \<open>The chip gets ready if it is asked often enough.\<close>

definition gets_ready :: "chip \<Rightarrow> bool" where
  "gets_ready chip \<longleftrightarrow> (\<forall>log. \<exists>k. \<not> chip_busy chip (log @ concat (replicate k (frame status_poll))))"

lemma tx_data_simps [simp]:
  "tx_data None n = replicate n 0" "length d \<ge> n \<Longrightarrow> length (tx_data (Some d) n) = n" "tx_data tx 0 = []"
  by (simp_all add: tx_data_def split: option.split)

lemma wait_ready_step:
  assumes "bus_idle bus"
  shows "flash_wait_ready chip bus =
           (if chip_busy chip (spi_log bus) then flash_wait_ready chip (sent status_poll bus)
            else Some (sent status_poll bus))"
proof -
  have "\<not> flash_was_aborted (sent status_poll bus)"
    using assms by (simp add: bus_idle_def sent_def flash_was_aborted_def)
  moreover have "flash_do_cmd chip FLASHCMD_READ_STATUS None 1 bus =
      Some (tl (frame_answers chip status_poll bus), sent status_poll bus)"
    using do_cmd_frame [OF assms, of None 1] by (simp add: status_poll_def)
  moreover have "tl (frame_answers chip status_poll bus) ! 0 = answers chip (spi_log bus @ [Cs OUTOVER_LOW]) status_poll ! 1"
    by (simp add: frame_answers_def status_poll_def nth_tl)
  ultimately show ?thesis by (subst flash_wait_ready.simps) (simp add: chip_busy_def)
qed

text \<open>A step of the driver that ends between commands and has sent the commands \<open>cs\<close>.\<close>

definition sends :: "('a flash_bus_scheme \<Rightarrow> 'a flash_bus_scheme option) \<Rightarrow> bytes list \<Rightarrow> 'a flash_bus_scheme \<Rightarrow> bool" where
  "sends f cs bus \<longleftrightarrow>
     (\<exists>bus'. f bus = Some bus' \<and> bus_idle bus' \<and> commands (spi_log bus') = commands (spi_log bus) @ cs)"

lemma sends_bind:
  "sends f cs bus \<Longrightarrow> (\<And>bus'. bus_idle bus' \<Longrightarrow> sends g ds bus') \<Longrightarrow>
     sends (\<lambda>bus. Option.bind (f bus) g) (cs @ ds) bus"
  unfolding sends_def by fastforce

lemma sends_cong: "f bus = g bus \<Longrightarrow> sends g cs bus \<Longrightarrow> sends f cs bus"
  by (simp add: sends_def)

lemma sends_wait_ready:
  assumes "gets_ready chip" "bus_idle bus"
  shows "sends (flash_wait_ready chip) [] bus"
proof -
  obtain k where "\<not> chip_busy chip (spi_log bus @ concat (replicate k (frame status_poll)))"
    using assms(1) by (auto simp: gets_ready_def)
  then show ?thesis
    using assms(2)
  proof (induction k arbitrary: bus)
    case 0
    then show ?case by (simp add: sends_def wait_ready_step commands_sent status_poll_def)
  next
    case (Suc k)
    have "commands (spi_log (sent status_poll bus)) = commands (spi_log bus)"
      using Suc.prems by (simp add: commands_sent status_poll_def)
    moreover have "sends (flash_wait_ready chip) [] (sent status_poll bus)"
      using Suc.prems by (intro Suc.IH) (simp_all add: sent_def bus_idle_def wire_frame)
    ultimately show ?case
      using Suc.prems by (simp add: sends_def wait_ready_step)
  qed
qed

subsection \<open>Program and erase\<close>

lemma sends_enable_write: "bus_idle bus \<Longrightarrow> sends (flash_enable_write chip) [[FLASHCMD_WRITE_ENABLE]] bus"
  by (simp add: sends_def flash_enable_write_def do_cmd_frame commands_sent flash_commands)

lemma sends_cmd_addr:
  assumes "bus_idle bus" "length (tx_data tx n) = n" "addr < 0x1000000" "cmd \<noteq> FLASHCMD_READ_STATUS"
  shows "sends (\<lambda>bus. map_option snd (flash_put_get chip tx n 4 (flash_put_cmd_addr chip cmd addr bus)))
           [cmd # addr_bytes addr @ tx_data tx n] bus"
  using assms by (simp add: sends_def cmd_addr_frame commands_sent cmd_addr_bytes_24)

lemma bind_snd: "Option.bind f (\<lambda>(x, y). g y) = Option.bind (map_option snd f) g"
  by (cases f) (auto split: prod.split)

definition page_commands :: "u32 \<Rightarrow> bytes \<Rightarrow> bytes list" where
  "page_commands addr data = [[FLASHCMD_WRITE_ENABLE], FLASHCMD_PAGE_PROGRAM # addr_bytes addr @ take 256 data]"

definition erase_commands :: "u8 \<Rightarrow> u32 \<Rightarrow> bytes list" where
  "erase_commands cmd addr = [[FLASHCMD_WRITE_ENABLE], cmd # addr_bytes addr]"

lemma sends_page_program:
  assumes "gets_ready chip" "addr < 0x1000000" "256 \<le> length data" "bus_idle bus"
  shows "sends (flash_page_program chip addr data) (page_commands addr data) bus"
proof -
  have "sends (\<lambda>bus. Option.bind (flash_enable_write chip bus) (\<lambda>bus.
          Option.bind (map_option snd (flash_put_get chip (Some data) 256 4
              (flash_put_cmd_addr chip FLASHCMD_PAGE_PROGRAM addr bus))) (flash_wait_ready chip)))
        ([[FLASHCMD_WRITE_ENABLE]] @ ([FLASHCMD_PAGE_PROGRAM # addr_bytes addr @ tx_data (Some data) 256] @ [])) bus"
    using assms
    by (intro sends_bind sends_enable_write sends_cmd_addr sends_wait_ready) (simp_all add: flash_commands)
  then show ?thesis
    by (simp add: sends_def flash_page_program_def bind_snd page_commands_def tx_data_def)
qed

lemma sends_user_erase:
  assumes "gets_ready chip" "addr < 0x1000000" "cmd \<noteq> FLASHCMD_READ_STATUS" "bus_idle bus"
  shows "sends (flash_user_erase chip addr cmd) (erase_commands cmd addr) bus"
proof -
  have "sends (\<lambda>bus. Option.bind (flash_enable_write chip bus) (\<lambda>bus.
          Option.bind (map_option snd (flash_put_get chip None 0 4 (flash_put_cmd_addr chip cmd addr bus)))
            (flash_wait_ready chip)))
        ([[FLASHCMD_WRITE_ENABLE]] @ ([cmd # addr_bytes addr @ tx_data None 0] @ [])) bus"
    using assms
    by (intro sends_bind sends_enable_write sends_cmd_addr sends_wait_ready) simp_all
  then show ?thesis
    by (simp add: sends_def flash_user_erase_def bind_snd erase_commands_def)
qed


lemma sends_then_loop:
  assumes "sends f cs bus" "\<And>bus'. bus_idle bus' \<Longrightarrow> sends g ds bus'" "h bus = Option.bind (f bus) g"
  shows "sends h (cs @ ds) bus"
  using sends_bind [OF assms(1,2)] assms(3) by (simp add: sends_def)

lemma sends_nothing: "bus_idle bus \<Longrightarrow> h bus = Some bus \<Longrightarrow> sends h [] bus"
  by (simp add: sends_def)

lemma not_aborted: "bus_idle bus \<Longrightarrow> \<not> flash_was_aborted bus"
  by (simp add: bus_idle_def flash_was_aborted_def)

lemma upt_concat_Suc:
  "concat (map f [0..<Suc k]) = f 0 @ concat (map (\<lambda>i. f (Suc i)) [0..<k])"
  by (simp only: upt_conv_Cons [OF zero_less_Suc] list.map concat.simps map_Suc_upt [symmetric] map_map o_def)

lemma sends_program_loop:
  fixes bus :: "'a flash_bus_scheme"
  assumes "gets_ready chip" "bus_idle bus" "unat goal \<le> 0x1000000"
    and "k = (unat goal - unat addr + 255) div 256" "256 * k \<le> length data"
  shows "sends (range_program_loop chip goal addr data)
           (concat (map (\<lambda>i. page_commands (addr + of_nat (256 * i)) (drop (256 * i) data)) [0..<k])) bus"
  using assms
proof (induction k arbitrary: addr data bus)
  case 0
  then have "\<not> addr < goal" by (simp add: word_less_nat_alt)
  then show ?case
    using 0 by (simp add: range_program_loop.simps sends_nothing)
next
  case (Suc k)
  then have less: "addr < goal" "unat addr < 0x1000000" by (auto simp: word_less_nat_alt)
  then have next_addr: "unat (addr + 256) = unat addr + 256" using unat_add_small [of addr 256] by simp
  have "sends (range_program_loop chip goal addr data)
      (page_commands addr data @
       concat (map (\<lambda>i. page_commands (addr + 256 + of_nat (256 * i)) (drop (256 * i) (drop 256 data))) [0..<k])) bus"
  proof (rule sends_then_loop [OF sends_page_program])
    show "addr < 0x1000000" using less(2) by (simp add: word_less_nat_alt)
    show "256 \<le> length data" using Suc.prems(5) unfolding mult_Suc_right by (rule add_leD1)
    show "range_program_loop chip goal addr data bus =
        Option.bind (flash_page_program chip addr data bus)
          (range_program_loop chip goal (addr + 256) (drop 256 data))"
      using less(1) not_aborted [OF Suc.prems(2)] by (subst range_program_loop.simps) simp
    have "k = (unat goal - unat (addr + 256) + 255) div 256"
      using Suc.prems(4) next_addr less by (simp add: word_less_nat_alt)
    then show "sends (range_program_loop chip goal (addr + 256) (drop 256 data))
        (concat (map (\<lambda>i. page_commands (addr + 256 + of_nat (256 * i)) (drop (256 * i) (drop 256 data))) [0..<k])) bus'"
      if "bus_idle bus'" for bus' :: "'a flash_bus_scheme"
      using Suc.prems that by (intro Suc.IH) (simp_all only: length_drop mult_Suc_right, linarith)
  qed (use Suc.prems in simp_all)
  then show ?case by (simp only: upt_concat_Suc) (simp add: ac_simps)
qed

text \<open>For the witnesses: a chip that answers zeroes and so is never busy, on a bus where nothing has happened.\<close>

definition zero_chip :: chip where "zero_chip log = 0"

definition new_bus :: flash_bus where
  "new_bus = \<lparr>spi_log = [], rx_fifo = [], sd_pads = replicate 4 \<lparr>pad_od = False, pad_pue = False, pad_pde = True\<rparr>,
     fl_aborted = False\<rparr>"

lemma zero_chip_ready: "gets_ready zero_chip"
  unfolding gets_ready_def by (intro allI exI [of _ 0]) (simp add: chip_busy_def status_poll_def zero_chip_def)

lemma new_bus_idle: "bus_idle new_bus"
  by (simp add: bus_idle_def new_bus_def wire_def)

text \<open>C31: A program of a range in the first 16 MB ends with every chip that gets ready, and sends, page by page and
  each after a write enable, the data in order to the addresses of the range, rounded up to whole pages.\<close>

theorem range_program_pages:
  assumes "gets_ready chip" "bus_idle bus" "unat addr + unat n \<le> 0x1000000"
    and "k = (unat n + 255) div 256" "256 * k \<le> length data"
  shows "sends (\<lambda>bus. flash_range_program chip addr data n bus)
           (concat (map (\<lambda>i. page_commands (addr + of_nat (256 * i)) (drop (256 * i) data)) [0..<k])) bus"
proof -
  have "unat (addr + n) = unat addr + unat n"
    using unat_add_small [of addr "unat n"] assms(3) by simp
  then show ?thesis
    using assms unfolding flash_range_program_def by (intro sends_program_loop) simp_all
qed

theorem range_program_pages_witness:
  "sends (\<lambda>bus. flash_range_program zero_chip 0x1000 (replicate 512 0xab) 300 bus)
     (concat (map (\<lambda>i. page_commands (0x1000 + of_nat (256 * i)) (drop (256 * i) (replicate 512 0xab))) [0..<2]))
     new_bus"
  by (rule range_program_pages [OF zero_chip_ready new_bus_idle]) simp_all

text \<open>
  The blocks of an erase: command, first byte and length.  They follow each other from \<open>a\<close> to \<open>g\<close>.
\<close>

fun tiling :: "nat \<Rightarrow> (u8 \<times> nat \<times> nat) list \<Rightarrow> nat \<Rightarrow> bool" where
  "tiling a [] g \<longleftrightarrow> a = g"
| "tiling a ((_, first, len) # blocks) g \<longleftrightarrow> first = a \<and> tiling (a + len) blocks g"

text \<open>A block is erased as a whole where it is aligned and fits, and sectors elsewhere.\<close>

definition erase_block_ok :: "u8 \<Rightarrow> nat \<Rightarrow> nat \<Rightarrow> (u8 \<times> nat \<times> nat) \<Rightarrow> bool" where
  "erase_block_ok block_cmd block_size goal b =
     (case b of (cmd, first, len) \<Rightarrow>
        if block_size dvd first \<and> first + block_size \<le> goal then cmd = block_cmd \<and> len = block_size
        else cmd = FLASHCMD_SECTOR_ERASE \<and> len = 4096)"


definition send_blocks :: "(u8 \<times> nat \<times> nat) list \<Rightarrow> bytes list" where
  "send_blocks blocks = concat (map (\<lambda>(cmd, first, len). erase_commands cmd (of_nat first)) blocks)"

lemma block_aligned:
  assumes "k < 32"
  shows "(addr :: u32) AND (2 ^ k - 1) = 0 \<longleftrightarrow> 2 ^ k dvd unat addr"
proof -
  have "addr AND (2 ^ k - 1) = take_bit k addr" by (simp add: take_bit_eq_mask mask_eq_exp_minus_1)
  then have "addr AND (2 ^ k - 1) = 0 \<longleftrightarrow> unat (take_bit k addr) = 0" by (simp only: unsigned_eq_0_iff)
  then show ?thesis by (simp add: unsigned_take_bit_eq take_bit_eq_0_iff)
qed

lemma unat_exp: "k < 32 \<Longrightarrow> unat (2 ^ k :: u32) = 2 ^ k"
  using unat_of_nat [of "2 ^ k", where 'a = 32] power_strict_increasing [of k 32 "2 :: nat"] by simp

lemma unat_diff_below: "(addr :: u32) < goal \<Longrightarrow> unat (goal - addr) = unat goal - unat addr"
  by (simp add: unat_sub word_le_nat_alt word_less_nat_alt)

lemma sends_erase_loop:
  assumes "gets_ready chip" "block_cmd \<noteq> FLASHCMD_READ_STATUS" "12 \<le> k" "k < 32"
    and "unat goal \<le> 0x1000000" "4096 dvd unat goal"
    and "4096 dvd unat addr" "unat addr \<le> unat goal"
  shows "\<exists>blocks. tiling (unat addr) blocks (unat goal) \<and>
           (\<forall>b \<in> set blocks. erase_block_ok block_cmd (2 ^ k) (unat goal) b) \<and>
           (\<forall>bus :: 'a flash_bus_scheme. bus_idle bus \<longrightarrow> sends (range_erase_loop chip (2 ^ k) block_cmd goal addr) (send_blocks blocks) bus)"
  using assms(7,8)
proof (induction "unat goal - unat addr" arbitrary: addr rule: less_induct)
  case less
  show ?case
  proof (cases "addr < goal")
    case False
    then have "unat addr = unat goal" using less.prems by (simp add: word_less_nat_alt)
    then show ?thesis
      using False
      by (intro exI [of _ "[]"]) (simp add: send_blocks_def range_erase_loop.simps sends_nothing)
  next
    case True
    then have lt: "unat addr < unat goal" by (simp add: word_less_nat_alt)
    define whole where "whole \<longleftrightarrow> 2 ^ k dvd unat addr \<and> unat addr + 2 ^ k \<le> unat goal"
    define cmd len where "cmd = (if whole then block_cmd else FLASHCMD_SECTOR_ERASE)"
      and "len = (if whole then 2 ^ k else 4096 :: nat)"
    have fits: "unat addr + len \<le> unat goal"
      using lt less.prems assms(6) by (auto simp: len_def whole_def elim!: dvdE)
    have dvd_len: "4096 dvd len"
      using le_imp_power_dvd [OF assms(3), of "2 :: nat"] by (simp add: len_def)
    have pos: "0 < len" by (simp add: len_def)
    have next_addr: "unat (addr + of_nat len) = unat addr + len"
      using fits assms(5) by (intro unat_add_small) simp
    obtain blocks where blocks: "tiling (unat addr + len) blocks (unat goal)"
      "\<forall>b \<in> set blocks. erase_block_ok block_cmd (2 ^ k) (unat goal) b"
      "\<forall>bus :: 'a flash_bus_scheme. bus_idle bus \<longrightarrow>
         sends (range_erase_loop chip (2 ^ k) block_cmd goal (addr + of_nat len)) (send_blocks blocks) bus"
    proof -
      have "unat goal - unat (addr + of_nat len) < unat goal - unat addr" using next_addr pos lt by linarith
      moreover have "4096 dvd unat (addr + of_nat len)" "unat (addr + of_nat len) \<le> unat goal"
        using next_addr dvd_len less.prems(1) fits by simp_all
      ultimately show thesis using less.hyps [of "addr + of_nat len"] next_addr that by auto
    qed
    have test: "addr AND (2 ^ k - 1) = 0 \<and> goal - addr \<ge> 2 ^ k \<longleftrightarrow> whole"
      using True lt assms(4)
      by (auto simp: whole_def block_aligned word_le_nat_alt unat_exp unat_diff_below)
    have loop: "range_erase_loop chip (2 ^ k) block_cmd goal addr bus =
        Option.bind (flash_user_erase chip addr cmd bus)
          (range_erase_loop chip (2 ^ k) block_cmd goal (addr + of_nat len))" if "bus_idle bus" for bus :: "'a flash_bus_scheme"
      using True test not_aborted [OF that]
      by (subst range_erase_loop.simps) (simp add: cmd_def len_def flash_sector_erase_def)
    have "sends (range_erase_loop chip (2 ^ k) block_cmd goal addr)
        (erase_commands cmd addr @ send_blocks blocks) bus" if "bus_idle bus" for bus :: "'a flash_bus_scheme"
    proof (rule sends_then_loop)
      have "addr < 0x1000000" using lt assms(5) by (simp add: word_less_nat_alt)
      moreover have "cmd \<noteq> FLASHCMD_READ_STATUS" using assms(2) by (simp add: cmd_def flash_commands)
      ultimately show "sends (flash_user_erase chip addr cmd) (erase_commands cmd addr) bus"
        using assms(1) that by (intro sends_user_erase)
    qed (use blocks(3) loop [OF that] in auto)
    moreover have "erase_block_ok block_cmd (2 ^ k) (unat goal) (cmd, unat addr, len)"
      by (simp add: erase_block_ok_def cmd_def len_def whole_def)
    ultimately show ?thesis
      using blocks(1,2) by (intro exI [of _ "(cmd, unat addr, len) # blocks"]) (simp add: send_blocks_def)
  qed
qed

text \<open>C30: An erase of a sector-aligned range in the first 16 MB ends with every chip that gets ready; the blocks it
  erases follow each other without gap or overlap from the start to the end of the range, each as large as
  its alignment and the rest of the range allow.\<close>

theorem range_erase_tiles:
  assumes "gets_ready chip" "bus_idle bus" "block_cmd \<noteq> FLASHCMD_READ_STATUS" "12 \<le> k" "k < 32"
    and "unat addr + unat n \<le> 0x1000000" "4096 dvd unat addr" "4096 dvd unat n"
  shows "\<exists>blocks. tiling (unat addr) blocks (unat addr + unat n) \<and>
           (\<forall>b \<in> set blocks. erase_block_ok block_cmd (2 ^ k) (unat addr + unat n) b) \<and>
           sends (\<lambda>bus. flash_range_erase chip addr n (2 ^ k) block_cmd bus) (send_blocks blocks) bus"
proof -
  have "unat (addr + n) = unat addr + unat n"
    using unat_add_small [of addr "unat n"] assms(6) by simp
  then show ?thesis
    using sends_erase_loop [of chip block_cmd k "addr + n" addr] assms
    by (auto simp: flash_range_erase_def)
qed

theorem range_erase_tiles_witness:
  "\<exists>blocks. tiling 0xf000 blocks 0x21000 \<and> (\<forall>b \<in> set blocks. erase_block_ok 0xd8 (2 ^ 16) 0x21000 b) \<and>
     sends (\<lambda>bus. flash_range_erase zero_chip 0xf000 0x12000 (2 ^ 16) 0xd8 bus) (send_blocks blocks) new_bus"
  using range_erase_tiles [where chip = zero_chip and bus = new_bus and block_cmd = "0xd8" and k = 16 and
    addr = "0xf000" and n = "0x12000"]
  by (simp add: flash_commands zero_chip_ready new_bus_idle)


subsection \<open>The size of the chip\<close>

lemma read_sfdp_frame:
  assumes "bus_idle bus"
  shows "flash_read_sfdp chip addr n bus =
           Some (drop 5 (frame_answers chip (cmd_addr_bytes FLASHCMD_READ_SFDP addr @ 0 # replicate n 0) bus),
                 sent (cmd_addr_bytes FLASHCMD_READ_SFDP addr @ 0 # replicate n 0) bus)"
  using exchange_frame [OF assms, of None n chip "cmd_addr_bytes FLASHCMD_READ_SFDP addr @ [0]"]
  by (simp add: flash_read_sfdp_def flash_put_cmd_addr_def put_dr0_eq put_bytes_append [symmetric])

lemma sfdp_size_bounds: "sfdp_size w = Some r \<Longrightarrow> 8 \<le> r \<and> r \<le> 34"
proof -
  assume r: "sfdp_size w = Some r"
  define m where "m = sfdp_log2_bits w"
  have m: "11 \<le> m" "m \<le> 37" "r = uint (m - 3)"
    using r by (auto simp: sfdp_size_def m_def Let_def not_less split: if_splits)
  have "11 \<le> uint m" using m(1) by (simp add: word_le_def)
  then have "uint (m - 3) = uint m - 3" using uint_sub_lem [of 3 m] by simp
  then show ?thesis using m by (simp add: word_le_def)
qed

text \<open>The count of shifts is the binary logarithm, so both encodings of the table are read as they are meant.\<close>

lemma count_shifts_exp: "n < 32 \<Longrightarrow> count_shifts (2 ^ n) ctr = ctr + n"
proof (induction n arbitrary: ctr)
  case 0
  then show ?case by (subst count_shifts.simps) (simp add: drop_bit_eq_div)
next
  case (Suc n)
  have "drop_bit 1 (2 ^ Suc n :: u32) = 2 ^ n"
    using Suc.prems by (intro bit_word_eqI) (auto simp: bit_simps)
  moreover have "(2 ^ n :: u32) \<noteq> 0" using Suc.prems by simp
  ultimately show ?case using Suc by (subst count_shifts.simps) (simp add: Let_def)
qed


lemma sfdp_size_direct:
  assumes "11 \<le> n" "n < 32"
  shows "sfdp_size (2 ^ n - 1) = Some (int n - 3)"
proof -
  have "\<not> bit (mask n :: u32) 31" using assms(2) by (simp add: bit_mask_iff)
  then have "(2 ^ n - 1 :: u32) AND push_bit 31 1 = 0"
    by (simp only: mask_eq_exp_minus_1 push_bit_of_1 and_exp_eq_0_iff_not_bit not_False_eq_True)
  then have "sfdp_log2_bits (2 ^ n - 1) = of_nat n"
    using assms(2) by (simp add: sfdp_log2_bits_def count_shifts_exp)
  moreover have "\<not> of_nat n < (11 :: u32)" "\<not> (37 :: u32) < of_nat n"
    using assms by (simp_all add: word_less_nat_alt unat_of_nat)
  moreover have "uint (of_nat n - 3 :: u32) = int n - 3"
    using uint_sub_lem [of 3 "of_nat n :: u32"] assms by (simp add: unsigned_of_nat take_bit_nat_eq_self)
  ultimately show ?thesis by (simp add: sfdp_size_def Let_def)
qed

text \<open>C32: flash_size_log2 always returns, leaving the bus between commands, and its result is -1 or the logarithm of a
  size from 256 bytes to 16 GB, whatever the chip answers; a direct count of $2^n$ bits is read as $2^{n-3}$ bytes.\<close>

theorem flash_size_log2_bounds:
  assumes "bus_idle bus"
  shows "(\<exists>r bus'. flash_size_log2 chip bus = Some (r, bus') \<and> bus_idle bus' \<and> (r = -1 \<or> 8 \<le> r \<and> r \<le> 34)) \<and>
         (\<forall>n. 11 \<le> n \<longrightarrow> n < 32 \<longrightarrow> sfdp_size (2 ^ n - 1) = Some (int n - 3))"
proof -
  have sfdp: "\<exists>r bus'. sfdp_size_log2 chip bus = Some (r, bus') \<and> bus_idle bus' \<and>
      (\<forall>k. r = Some k \<longrightarrow> 8 \<le> k \<and> k \<le> 34)"
    using assms by (auto simp: sfdp_size_log2_def read_sfdp_frame Let_def sfdp_size_bounds)
  have jedec: "\<exists>r bus'. jedec_size_log2 chip bus = Some (r, bus') \<and> bus_idle bus' \<and> (r = -1 \<or> 8 \<le> r \<and> r \<le> 34)"
    if "bus_idle bus" for bus :: "'a flash_bus_scheme"
    using that
    by (auto simp: jedec_size_log2_def do_cmd_frame Let_def not_less word_le_def)
  obtain r bus' where "sfdp_size_log2 chip bus = Some (r, bus')" "bus_idle bus'" "\<forall>k. r = Some k \<longrightarrow> 8 \<le> k \<and> k \<le> 34"
    using sfdp by blast
  then have "\<exists>r bus'. flash_size_log2 chip bus = Some (r, bus') \<and> bus_idle bus' \<and> (r = -1 \<or> 8 \<le> r \<and> r \<le> 34)"
    using jedec [of bus'] by (cases r) (auto simp: flash_size_log2_def)
  then show ?thesis using sfdp_size_direct by blast
qed

theorem flash_size_log2_bounds_witness:
  "\<exists>r bus'. flash_size_log2 zero_chip new_bus = Some (r, bus') \<and> (r = -1 \<or> 8 \<le> r \<and> r \<le> 34)"
  using flash_size_log2_bounds [OF new_bus_idle] by blast

end
