(* ===== verification/Flash_Calls.thy ===== *)
theory Flash_Calls
  imports Async_Safety Flash_Frames
begin

text \<open>
  From a task to the wire: the calls that a task makes to the flash driver (\<open>flash_calls\<close> of
  \<open>Async_Task\<close>) are run on the driver, and the commands that reach the chip are compared with what the host
  asked for.  The window of flash addresses that the tasks admit is larger than the 16 MB of the commands.
\<close>

subsection \<open>The calls\<close>

fun flash_call_run :: "chip \<Rightarrow> flash_call \<Rightarrow> 'a flash_bus_scheme \<Rightarrow> 'a flash_bus_scheme option" where
  "flash_call_run chip Flash_enter_cmd_xip bus = Some (flash_enter_cmd_xip bus)"
| "flash_call_run chip Connect_internal_flash bus = Some (connect_internal_flash bus)"
| "flash_call_run chip Flash_exit_xip bus = flash_exit_xip chip bus"
| "flash_call_run chip Gpio_setup bus = Some bus"
| "flash_call_run chip Flash_abort bus = Some (flash_abort bus)"
| "flash_call_run chip (Flash_sector_erase addr) bus = flash_sector_erase chip addr bus"
| "flash_call_run chip (Flash_page_program addr data) bus = flash_page_program chip addr data bus"
| "flash_call_run chip (Flash_read_data addr n) bus = map_option snd (flash_read_data chip addr n bus)"

primrec flash_calls_run :: "chip \<Rightarrow> flash_call list \<Rightarrow> 'a flash_bus_scheme \<Rightarrow> 'a flash_bus_scheme option" where
  "flash_calls_run chip [] bus = Some bus"
| "flash_calls_run chip (c # cs) bus = Option.bind (flash_call_run chip c bus) (flash_calls_run chip cs)"

lemma sends_calls_Cons:
  fixes bus :: "'a flash_bus_scheme"
  assumes "sends (flash_call_run chip c) ds bus"
    and "\<And>bus' :: 'a flash_bus_scheme. bus_idle bus' \<Longrightarrow> sends (flash_calls_run chip cs) es bus'"
  shows "sends (flash_calls_run chip (c # cs)) (ds @ es) bus"
proof (rule sends_then_loop [OF assms])
  show "flash_calls_run chip (c # cs) bus = Option.bind (flash_call_run chip c bus) (flash_calls_run chip cs)" by simp
qed

lemma flash_calls_run_Nil [simp]: "flash_calls_run chip [] = Some"
  by (rule ext) simp

lemma sends_call: "sends (flash_call_run chip c) cs bus \<Longrightarrow> sends (flash_calls_run chip [c]) cs bus"
  by (simp add: sends_def)

lemma sends_calls_Nil: "bus_idle bus \<Longrightarrow> sends (flash_calls_run chip []) [] bus"
  by (simp add: sends_def)

subsection \<open>Addresses above 16 MB\<close>

text \<open>What the driver sends for any address: the upper byte of the address lands in the command.\<close>

definition spilled :: "u8 \<Rightarrow> u32 \<Rightarrow> u8" where
  "spilled cmd addr = cmd OR ucast (drop_bit 24 addr)"

lemma sends_page_program_any:
  assumes "gets_ready chip" "256 \<le> length data" "bus_idle bus"
  shows "sends (flash_page_program chip addr data)
           [[FLASHCMD_WRITE_ENABLE], spilled FLASHCMD_PAGE_PROGRAM addr # addr_bytes addr @ take 256 data] bus"
proof -
  have "bit (spilled FLASHCMD_PAGE_PROGRAM addr) 1" "\<not> bit FLASHCMD_READ_STATUS 1"
    by (simp_all add: spilled_def flash_commands bit_simps)
  then have visible: "spilled FLASHCMD_PAGE_PROGRAM addr \<noteq> FLASHCMD_READ_STATUS" by auto
  have put: "sends (\<lambda>bus. map_option snd (flash_put_get chip (Some data) 256 4
        (flash_put_cmd_addr chip FLASHCMD_PAGE_PROGRAM addr bus)))
      [spilled FLASHCMD_PAGE_PROGRAM addr # addr_bytes addr @ take 256 data] bus"
    if "bus_idle bus" for bus :: "'a flash_bus_scheme"
    using that assms(2) visible
    by (simp add: sends_def cmd_addr_frame commands_sent cmd_addr_bytes_eq spilled_def tx_data_def)
  have "sends (\<lambda>bus. Option.bind (flash_enable_write chip bus) (\<lambda>bus.
          Option.bind (map_option snd (flash_put_get chip (Some data) 256 4
              (flash_put_cmd_addr chip FLASHCMD_PAGE_PROGRAM addr bus))) (flash_wait_ready chip)))
        ([[FLASHCMD_WRITE_ENABLE]] @
         ([spilled FLASHCMD_PAGE_PROGRAM addr # addr_bytes addr @ take 256 data] @ [])) bus"
    using assms by (intro sends_bind sends_enable_write put sends_wait_ready)
  then show ?thesis by (simp add: sends_def flash_page_program_def bind_snd)
qed

lemma upper_byte: "ucast (drop_bit n addr) = (of_nat (unat (addr :: u32) div 2 ^ n) :: u8)" if "n < 32"
proof -
  have "unat (drop_bit n addr) = unat addr div 2 ^ n"
    using unat_div [of addr "2 ^ n"] unat_exp [OF that] by (simp add: drop_bit_eq_div)
  then show ?thesis by (metis of_nat_unat)
qed

lemma addr_bytes_below:
  assumes "unat a mod 2 ^ 24 = unat b mod 2 ^ 24"
  shows "addr_bytes a = addr_bytes b"
proof -
  have "unat (take_bit 24 a) = unat (take_bit 24 b)"
    using assms by (simp add: take_bit_eq_mod unat_mod)
  then have "bit a i = bit b i" if "i < 24" for i
    using that by (metis bit_take_bit_iff unsigned_word_eqI)
  then show ?thesis
    unfolding addr_bytes_def by (simp, intro conjI; intro bit_word_eqI) (auto simp: bit_simps)
qed

subsection \<open>A page written by a task\<close>

definition page_write :: "async_task \<Rightarrow> bool" where
  "page_write task \<longleftrightarrow> at_type task = AT_WRITE \<and> at_data_length task = 256 \<and> \<not> at_check_last_mutation_source task"

lemma page_write_status:
  assumes "foreign_ok env" "picoboot_ok pb" "vectors_intact env am s" "\<not> rebooting s" "page_write task"
    and "is_address_flash am (at_transfer_addr task)" "is_address_flash am (at_transfer_addr task + 256)"
    and "\<not> is_address_ram am (at_transfer_addr task)" "256 dvd unat (at_transfer_addr task)"
    and "load_data (at_data task) 256 s = Some bs"
  shows "\<exists>t. execute_task_status env pb am task s = Some (PICOBOOT_OK pb, t) \<and>
           flash_calls t = flash_calls s @ [Flash_page_program (at_transfer_addr task - XIP_MAIN_BASE am) bs]"
proof -
  let ?s = "s\<lparr>last_mutation_source := at_source task\<rparr>"
  have types: "has_type task AT_WRITE" "has_type task (AT_WRITE OR AT_FLASH_ERASE)" "has_type task (AT_WRITE OR AT_READ)"
    "\<not> has_type task AT_VECTORIZE_FLASH" "\<not> has_type task AT_EXCLUSIVE" "\<not> has_type task AT_EXIT_XIP"
    "\<not> has_type task AT_EXEC" "\<not> has_type task AT_FLASH_ERASE" "\<not> has_type task AT_READ"
    "\<not> has_type task AT_ENTER_CMD_XIP"
    using assms(5) by (simp_all add: page_write_def has_type_def task_types)
  have access: "transfer_access pb am task = Inr False"
    using assms(5-9) types mask_of_dvd [of 8 "at_transfer_addr task"]
    by (simp add: transfer_access_def page_write_def flash_sizes Let_def)
  have vec: "vectors_intact env am ?s"
    using assms(3) by (simp add: vectors_intact_def split: option.splits)
  have data: "load_data (at_data task) 256 ?s = Some bs"
    using assms(10) by (cases "at_data task") (simp_all add: load_data_def split: if_splits)
  show ?thesis
    using assms(4,5) types data assms(2)
    by (simp add: execute_task_status_def watchdog_rebooting_def execute_task_body_def and_then_def exec_vectorize_def
        exec_exclusive_def exec_exit_xip_def exec_exec_def exec_mutation_def exec_erase_def exec_transfer_def access
        exec_write_def exec_read_def exec_enter_cmd_xip_def call_vector_intact [OF vec assms(1)] do_flash_page_program_def
        check_ret_def go_on_def page_write_def call_flash_def Let_def)
qed


text \<open>C28: A page that a task writes to the first 16 MB of flash is what the chip gets: a write enable, then the page at
  its offset.  One in the second 16 MB also answers OK, but the chip gets a read command instead, and
  one in the third 16 MB overwrites the page 32 MB below it.\<close>

theorem page_write_reaches_chip:
  assumes "foreign_ok env" "picoboot_ok pb" "vectors_intact env am s" "\<not> rebooting s" "page_write task"
    and "is_address_flash am (at_transfer_addr task)" "is_address_flash am (at_transfer_addr task + 256)"
    and "\<not> is_address_ram am (at_transfer_addr task)" "256 dvd unat (at_transfer_addr task)"
    and "load_data (at_data task) 256 s = Some bs" "gets_ready chip" "bus_idle bus"
    and off: "off = at_transfer_addr task - XIP_MAIN_BASE am"
  shows "\<exists>t calls. execute_task_status env pb am task s = Some (PICOBOOT_OK pb, t) \<and>
           flash_calls t = flash_calls s @ calls \<and>
           (unat off < 0x1000000 \<longrightarrow> sends (flash_calls_run chip calls) (page_commands off bs) bus) \<and>
           (0x1000000 \<le> unat off \<and> unat off < 0x2000000 \<longrightarrow>
              sends (flash_calls_run chip calls)
                [[FLASHCMD_WRITE_ENABLE], FLASHCMD_READ_DATA # addr_bytes off @ bs] bus) \<and>
           (0x2000000 \<le> unat off \<and> unat off < 0x3000000 \<longrightarrow>
              sends (flash_calls_run chip calls) (page_commands (off - 0x2000000) bs) bus)"
proof -
  obtain t where t: "execute_task_status env pb am task s = Some (PICOBOOT_OK pb, t)"
      "flash_calls t = flash_calls s @ [Flash_page_program off bs]"
    using page_write_status [OF assms(1-10)] off by auto
  have len: "length bs = 256" using assms(10) by (auto simp: load_data_def split: data_ptr.splits if_splits)
  have sent: "sends (flash_calls_run chip [Flash_page_program off bs])
      [[FLASHCMD_WRITE_ENABLE], (FLASHCMD_PAGE_PROGRAM OR of_nat (unat off div 2 ^ 24)) # addr_bytes off @ bs] bus"
    using sends_page_program_any [OF assms(11) _ assms(12), of bs off] len
    by (intro sends_call) (simp add: sends_def spilled_def upper_byte)
  have "unat (off - 0x2000000) = unat off - 0x2000000" if "0x2000000 \<le> unat off"
    using that by (simp add: unat_sub word_le_nat_alt)
  then have low: "addr_bytes (off - 0x2000000) = addr_bytes off" if "0x2000000 \<le> unat off" "unat off < 0x3000000"
    using that mod_mult_self2 [of "unat off - 0x2000000" "2 ^ 24" 2]
    by (intro addr_bytes_below) simp
  have "unat off div 2 ^ 24 = 0" if "unat off < 0x1000000" using that by simp
  moreover have "unat off div 2 ^ 24 = 1" if "0x1000000 \<le> unat off" "unat off < 0x2000000" using that by simp
  moreover have "unat off div 2 ^ 24 = 2" if "0x2000000 \<le> unat off" "unat off < 0x3000000" using that by simp
  moreover have "FLASHCMD_PAGE_PROGRAM OR 1 = FLASHCMD_READ_DATA" "FLASHCMD_PAGE_PROGRAM OR 2 = FLASHCMD_PAGE_PROGRAM"
    by (simp_all add: flash_commands)
  ultimately show ?thesis
    using t sent low len
    by (intro exI [of _ t] exI [of _ "[Flash_page_program off bs]"]) (auto simp: page_commands_def)
qed


definition example_page_write :: async_task where
  "example_page_write = reset_task\<lparr>at_type := AT_WRITE, at_data := PicobootBuf, at_transfer_addr := 0x12001000,
     at_data_length := 256\<rparr>"

theorem page_write_reaches_chip_witness:
  "\<exists>t calls. execute_task_status no_foreign picoboot_h rp2040 example_page_write example_async = Some (0, t) \<and>
     flash_calls t = calls \<and>
     sends (flash_calls_run zero_chip calls) (page_commands 0x1000 (replicate 256 7)) new_bus"
proof -
  have task: "page_write example_page_write" "at_transfer_addr example_page_write = 0x12001000"
    "load_data (at_data example_page_write) 256 example_async = Some (replicate 256 7)"
    by (simp_all add: page_write_def example_page_write_def reset_task_def load_data_def example_async_def)
  have flash: "is_address_flash rp2040 0x12001000" "is_address_flash rp2040 (0x12001000 + 256)"
    "\<not> is_address_ram rp2040 0x12001000" "XIP_MAIN_BASE rp2040 = 0x10000000"
    by (simp_all add: is_address_flash_def is_address_ram_def rp2040_def)
  have "PICOBOOT_OK picoboot_h = 0" "flash_calls example_async = []"
    by (simp_all add: picoboot_h_def example_async_def)
  then show ?thesis
    using page_write_reaches_chip [OF example_ok(1) picoboot_h_ok example_ok(2,4) task(1) _ _ _ _ task(3) zero_chip_ready
        new_bus_idle refl, of rp2040] flash task(2)
    by auto
qed

subsection \<open>An erase by a task\<close>

lemma sends_sector_erases:
  assumes "gets_ready chip" "unat off + 4096 * n \<le> 0x1000000"
  shows "bus_idle bus \<Longrightarrow>
    sends (flash_calls_run chip (map (\<lambda>i. Flash_sector_erase (off + of_nat (4096 * i))) [0..<n]))
      (concat (map (\<lambda>i. erase_commands FLASHCMD_SECTOR_ERASE (off + of_nat (4096 * i))) [0..<n])) bus"
  using assms(2)
proof (induction n arbitrary: off bus)
  case 0
  then show ?case by (simp add: sends_def)
next
  case (Suc n)
  have off: "unat (off + 4096) = unat off + 4096" using unat_add_small [of off 4096] Suc.prems(2) by simp
  have "sends (flash_calls_run chip (Flash_sector_erase off #
        map (\<lambda>i. Flash_sector_erase (off + 4096 + of_nat (4096 * i))) [0..<n]))
      (erase_commands FLASHCMD_SECTOR_ERASE off @
        concat (map (\<lambda>i. erase_commands FLASHCMD_SECTOR_ERASE (off + 4096 + of_nat (4096 * i))) [0..<n])) bus"
  proof (rule sends_calls_Cons)
    have "off < 0x1000000" using Suc.prems(2) by (simp add: word_less_nat_alt)
    then have "sends (flash_sector_erase chip off) (erase_commands FLASHCMD_SECTOR_ERASE off) bus"
      unfolding flash_sector_erase_def
      by (intro sends_user_erase assms(1) Suc.prems(1)) (simp_all add: flash_commands)
    then show "sends (flash_call_run chip (Flash_sector_erase off)) (erase_commands FLASHCMD_SECTOR_ERASE off) bus"
      by (simp add: sends_def)
  next
    fix bus' :: "'a flash_bus_scheme"
    assume "bus_idle bus'"
    then show "sends (flash_calls_run chip (map (\<lambda>i. Flash_sector_erase (off + 4096 + of_nat (4096 * i))) [0..<n]))
        (concat (map (\<lambda>i. erase_commands FLASHCMD_SECTOR_ERASE (off + 4096 + of_nat (4096 * i))) [0..<n])) bus'"
      using Suc.prems(2) off by (intro Suc.IH) simp_all
  qed
  then show ?case
    by (simp add: upt_conv_Cons map_Suc_upt [symmetric] comp_def ac_simps del: upt_Suc flash_calls_run.simps)
qed

text \<open>C29: An erase command whose range lies in the first 16 MB of flash answers OK, and the chip gets a sector erase,
  after a write enable, for each sector of the range and for no other.\<close>

theorem erase_reaches_chip:
  assumes "foreign_ok env" "addressmap_ok am" "picoboot_ok pb" "vectors_intact env am s" "\<not> rebooting s"
    and "at_type task = AT_FLASH_ERASE" "\<not> at_check_last_mutation_source task"
    and "4096 dvd unat (at_erase_addr task)" "unat (at_erase_size task) = 4096 * n" "0 < n"
    and "XIP_MAIN_BASE am \<le> at_erase_addr task"
    and "unat (at_erase_addr task) + 4096 * n \<le> unat (XIP_MAIN_BASE am) + 0x1000000"
    and "unat (XIP_MAIN_BASE am) + 0x1000000 \<le> unat (SRAM_BASE am)" "gets_ready chip" "bus_idle bus"
  shows "\<exists>t calls. execute_task_status env pb am task s = Some (PICOBOOT_OK pb, t) \<and>
           flash_calls t = flash_calls s @ calls \<and>
           sends (flash_calls_run chip calls)
             (concat (map (\<lambda>i. erase_commands FLASHCMD_SECTOR_ERASE
                (at_erase_addr task - XIP_MAIN_BASE am + of_nat (4096 * i))) [0..<n])) bus"
proof -
  let ?a = "at_erase_addr task" and ?n = "at_erase_size task" and ?off = "at_erase_addr task - XIP_MAIN_BASE am"
  have "of_nat (4096 * n) = ?n" using assms(9) by (metis of_nat_unat ucast_id)
  then have less: "unat (?a + ?n) = unat ?a + 4096 * n"
    using unat_add_small [of ?a "4096 * n"] assms(12,13) unat_less_32 [of "SRAM_BASE am"] by simp
  then have wrap: "?a < ?a + ?n" using assms(10) by (simp add: word_less_nat_alt)
  have flash: "is_address_flash am ?a" "is_address_flash am (?a + ?n)"
    using assms(11-13) less by (simp_all add: is_address_flash_nat word_le_nat_alt)
  have off: "unat ?off = unat ?a - unat (XIP_MAIN_BASE am)"
    using assms(11) by (simp add: unat_sub)
  have "erase_calls am ?a n = map (\<lambda>i. Flash_sector_erase (?off + of_nat (4096 * i))) [0..<n]"
    by (simp add: erase_calls_def algebra_simps)
  then have "sends (flash_calls_run chip (erase_calls am ?a n))
      (concat (map (\<lambda>i. erase_commands FLASHCMD_SECTOR_ERASE (?off + of_nat (4096 * i))) [0..<n])) bus"
    using sends_sector_erases [OF assms(14) _ assms(15), of ?off n] off assms(11,12)
    by (simp add: word_le_nat_alt)
  then show ?thesis
    using erase_task_status [OF assms(1-7)] assms(8,9) flash wrap by (auto simp: Let_def)
qed

theorem erase_reaches_chip_witness:
  "\<exists>t. execute_task_status no_foreign picoboot_h rp2040 example_erase example_async = Some (0, t) \<and>
     sends (flash_calls_run zero_chip (flash_calls t))
       (concat (map (\<lambda>i. erase_commands FLASHCMD_SECTOR_ERASE (0x1000 + of_nat (4096 * i))) [0..<2])) new_bus"
proof -
  have "PICOBOOT_OK picoboot_h = 0" "flash_calls example_async = []" "XIP_MAIN_BASE rp2040 = 0x10000000"
    "SRAM_BASE rp2040 = 0x20000000"
    by (simp_all add: picoboot_h_def example_async_def rp2040_def)
  then show ?thesis
    using erase_reaches_chip [OF example_ok(1) rp2040_ok picoboot_h_ok example_ok(2,4) example_erase_ok(1,4) _ _ _ _ _ _
        zero_chip_ready new_bus_idle, of 2] example_erase_ok(5,6)
    by auto
qed

end
