(* ===== verification/Boot_Clocks.thy ===== *)
theory Boot_Clocks
  imports Prelude
begin

text \<open>
  \<open>bootrom/bootrom_main.c\<close>: \<open>_usb_boot\<close> and \<open>_usb_clock_setup\<close>, with the functions of
  \<open>bootrom/bootrom_rt0.S\<close> that hold blocks in reset.  The code writes control registers and waits for
  their status; the chip, between any two statements, switches its multiplexers, starts the crystal, locks
  the PLL.  The program is the list of its statements; a schedule says who moves next.
\<close>

subsection \<open>Registers\<close>

text \<open>The source of an auxiliary multiplexer: 0 of \<open>clk_sys\<close> is the output of the system PLL.\<close>

datatype aux_source = CLKSRC_PLL_SYS | CLKSRC_OTHER "3 word"

record soc =
  rosc_enabled :: bool
  clk_ref_src :: "2 word"
  resus_enabled :: bool
  clk_sys_src :: bool
  clk_sys_auxsrc :: aux_source
  clk_sys_selected :: u32
  clk_sys_div :: u32
  clk_usb_div :: u32
  clk_usb_enabled :: bool
  clk_usb_auxsrc :: aux_source
  xosc_enabled :: bool
  xosc_stable :: bool
  reset_reg :: u32
  reset_done_reg :: u32
  pll_refdiv :: u32
  pll_fbdiv :: u32
  pll_postdiv1 :: u32
  pll_postdiv2 :: u32
  pll_pd :: bool
  pll_vcopd :: bool
  pll_postdivpd :: bool
  pll_locked :: bool
  tick_cycles :: u32
  tick_enabled :: bool
  xip_cache_enabled :: bool

text \<open>The bits of the two blocks in the register of the resets, from the header of the chip.\<close>

record reset_bits =
  pll_sys_bit :: nat
  usbctrl_bit :: nat

definition reset_bits_ok :: "reset_bits \<Rightarrow> bool" where
  "reset_bits_ok r \<longleftrightarrow> pll_sys_bit r < 32 \<and> usbctrl_bit r < 32 \<and> pll_sys_bit r \<noteq> usbctrl_bit r"

definition RESETS_RESET_PLL_SYS_BITS :: "reset_bits \<Rightarrow> u32" where
  "RESETS_RESET_PLL_SYS_BITS r = push_bit (pll_sys_bit r) 1"

definition RESETS_RESET_USBCTRL_BITS :: "reset_bits \<Rightarrow> u32" where
  "RESETS_RESET_USBCTRL_BITS r = push_bit (usbctrl_bit r) 1"

text \<open>A statement: a write, a wait for a status, or an access to the USB controller or its memory.\<close>

datatype boot_stmt = Write "soc \<Rightarrow> soc" | Await "soc \<Rightarrow> bool" | Use_usb

subsection \<open>The program\<close>

text \<open>
  A block in reset is not done; the PLL comes out of reset powered down and without lock (documented).
  The wait is for all blocks of the mask; every mask here has one.
\<close>

definition reset_block :: "reset_bits \<Rightarrow> u32 \<Rightarrow> soc \<Rightarrow> soc" where
  "reset_block r m c =
     (let c = c\<lparr>reset_reg := reset_reg c OR m, reset_done_reg := reset_done_reg c AND NOT m\<rparr>
      in if bit m (pll_sys_bit r)
         then c\<lparr>pll_pd := True, pll_vcopd := True, pll_postdivpd := True, pll_locked := False\<rparr> else c)"

definition unreset_block_wait :: "u32 \<Rightarrow> boot_stmt list" where
  "unreset_block_wait m =
     [Write (\<lambda>c. c\<lparr>reset_reg := reset_reg c AND NOT m\<rparr>),
      Await (\<lambda>c. m AND NOT (reset_done_reg c) = 0)]"

definition reset_unreset_block_wait :: "reset_bits \<Rightarrow> u32 \<Rightarrow> boot_stmt list" where
  "reset_unreset_block_wait r m = Write (reset_block r m) # unreset_block_wait m"

definition usb_clock_setup :: "reset_bits \<Rightarrow> boot_stmt list" where
  "usb_clock_setup r =
     [Write (\<lambda>c. c\<lparr>rosc_enabled := True\<rparr>),
      Write (\<lambda>c. c\<lparr>clk_ref_src := 0\<rparr>),
      Write (\<lambda>c. c\<lparr>resus_enabled := True\<rparr>),
      Write (\<lambda>c. c\<lparr>clk_sys_src := False\<rparr>),
      Await (\<lambda>c. bit (clk_sys_selected c) 0),
      Write (\<lambda>c. c\<lparr>clk_sys_div := 0x100\<rparr>),
      Write (\<lambda>c. c\<lparr>clk_usb_div := 0x100\<rparr>),
      Write (\<lambda>c. c\<lparr>xosc_enabled := True\<rparr>),
      Await xosc_stable] @
     reset_unreset_block_wait r (RESETS_RESET_PLL_SYS_BITS r) @
     [Write (\<lambda>c. c\<lparr>pll_refdiv := 1\<rparr>),
      Write (\<lambda>c. c\<lparr>pll_fbdiv := 100\<rparr>),
      Write (\<lambda>c. c\<lparr>pll_postdiv1 := 5, pll_postdiv2 := 5\<rparr>),
      Write (\<lambda>c. c\<lparr>pll_pd := False, pll_vcopd := False\<rparr>),
      Await pll_locked,
      Write (\<lambda>c. c\<lparr>pll_postdivpd := False\<rparr>),
      Write (\<lambda>c. c\<lparr>clk_sys_src := False, clk_sys_auxsrc := CLKSRC_PLL_SYS\<rparr>),
      Write (\<lambda>c. c\<lparr>clk_usb_enabled := True, clk_usb_auxsrc := CLKSRC_PLL_SYS\<rparr>),
      Write (\<lambda>c. c\<lparr>clk_sys_src := True\<rparr>),
      Await (\<lambda>c. bit (clk_sys_selected c) 1)]"

text \<open>
  The two uses of the controller: its memory is cleared, and \<open>usb_boot_device_init\<close> is called.  On the
  FPGA, which has no clock tree, the clocks are left alone.
\<close>

definition usb_boot_program :: "bool \<Rightarrow> reset_bits \<Rightarrow> boot_stmt list" where
  "usb_boot_program running_on_fpga r =
     [Write (reset_block r (RESETS_RESET_USBCTRL_BITS r))] @
     (if \<not> running_on_fpga then usb_clock_setup r else []) @
     unreset_block_wait (RESETS_RESET_USBCTRL_BITS r) @
     [Write (\<lambda>c. c\<lparr>tick_cycles := 12, tick_enabled := False\<rparr>),
      Write (\<lambda>c. c\<lparr>tick_enabled := True\<rparr>),
      Write (\<lambda>c. c\<lparr>xip_cache_enabled := False\<rparr>),
      Use_usb,
      Use_usb]"

subsection \<open>The chip\<close>

text \<open>
  What the board has: a crystal with its frequency in kHz, or none.  The frequencies and the range of the
  PLL's oscillator, 400 to 1600 MHz, are those of the data sheet.
\<close>

type_synonym board = "nat option"

definition vco_khz :: "nat \<Rightarrow> soc \<Rightarrow> nat" where
  "vco_khz xtal c = xtal * unat (pll_fbdiv c) div unat (pll_refdiv c)"

definition pll_khz :: "nat \<Rightarrow> soc \<Rightarrow> nat" where
  "pll_khz xtal c = vco_khz xtal c div (unat (pll_postdiv1 c) * unat (pll_postdiv2 c))"

definition pll_can_lock :: "reset_bits \<Rightarrow> board \<Rightarrow> soc \<Rightarrow> bool" where
  "pll_can_lock r b c \<longleftrightarrow>
     (case b of
        None \<Rightarrow> False
      | Some f \<Rightarrow> xosc_stable c \<and> \<not> bit (reset_reg c) (pll_sys_bit r) \<and> \<not> pll_pd c \<and> \<not> pll_vcopd c \<and>
                  400000 \<le> vco_khz f c \<and> vco_khz f c \<le> 1600000)"

datatype chip_event = Mux_switches | Crystal_stable | Pll_locks | Resets_done

primrec chip :: "reset_bits \<Rightarrow> board \<Rightarrow> chip_event \<Rightarrow> soc \<Rightarrow> soc" where
  "chip r b Mux_switches c = c\<lparr>clk_sys_selected := (if clk_sys_src c then 2 else 1)\<rparr>"
| "chip r b Crystal_stable c = (if xosc_enabled c \<and> b \<noteq> None then c\<lparr>xosc_stable := True\<rparr> else c)"
| "chip r b Pll_locks c = (if pll_can_lock r b c then c\<lparr>pll_locked := True\<rparr> else c)"
| "chip r b Resets_done c = c\<lparr>reset_done_reg := NOT (reset_reg c)\<rparr>"

datatype actor = Cpu | Chip chip_event

type_synonym boot_config = "nat \<times> soc"

definition cpu_step :: "boot_stmt list \<Rightarrow> boot_config \<Rightarrow> boot_config" where
  "cpu_step p = (\<lambda>(pc, c).
     if pc < length p then
       case p ! pc of
         Write f \<Rightarrow> (pc + 1, f c)
       | Await q \<Rightarrow> (if q c then pc + 1 else pc, c)
       | Use_usb \<Rightarrow> (pc + 1, c)
     else (pc, c))"

definition boot_act :: "reset_bits \<Rightarrow> board \<Rightarrow> actor \<Rightarrow> boot_config \<Rightarrow> boot_config" where
  "boot_act r b a = (case a of Cpu \<Rightarrow> cpu_step (usb_boot_program False r) | Chip e \<Rightarrow> (\<lambda>(pc, c). (pc, chip r b e c)))"

primrec boot_run :: "reset_bits \<Rightarrow> board \<Rightarrow> (nat \<Rightarrow> actor) \<Rightarrow> soc \<Rightarrow> nat \<Rightarrow> boot_config" where
  "boot_run r b sched c 0 = (0, c)"
| "boot_run r b sched c (Suc n) = boot_act r b (sched n) (boot_run r b sched c n)"

text \<open>The statements one after the other.\<close>

lemmas boot_programs = usb_boot_program_def usb_clock_setup_def unreset_block_wait_def reset_unreset_block_wait_def

lemma length_boot [simp]: "length (usb_boot_program False r) = 30"
  by (simp add: boot_programs)

subsection \<open>The invariant\<close>

text \<open>The PLL runs from the crystal and is locked; its output is ungated.\<close>

definition crystal_ok :: "board \<Rightarrow> bool" where
  "crystal_ok b \<longleftrightarrow> (\<exists>f. b = Some f \<and> 4000 \<le> f \<and> f \<le> 16000)"

definition pll_ready :: "board \<Rightarrow> soc \<Rightarrow> bool" where
  "pll_ready b c \<longleftrightarrow>
     pll_locked c \<and> \<not> pll_pd c \<and> \<not> pll_vcopd c \<and> \<not> pll_postdivpd c \<and> xosc_stable c \<and>
     (\<exists>f. b = Some f \<and> 400000 \<le> vco_khz f c \<and> vco_khz f c \<le> 1600000 \<and> pll_khz f c = 4 * f)"

text \<open>What holds at the statement number \<open>pc\<close>, by groups of registers.\<close>

definition inv_sys :: "nat \<Rightarrow> soc \<Rightarrow> bool" where
  "inv_sys pc c \<longleftrightarrow>
     clk_sys_selected c \<in> {1, 2} \<and>
     (5 \<le> pc \<and> pc \<le> 21 \<longrightarrow> \<not> clk_sys_src c) \<and>
     (6 \<le> pc \<and> pc \<le> 21 \<longrightarrow> clk_sys_selected c = 1) \<and>
     (7 \<le> pc \<longrightarrow> clk_sys_div c = 0x100) \<and>
     (20 \<le> pc \<longrightarrow> clk_sys_auxsrc c = CLKSRC_PLL_SYS) \<and>
     (22 \<le> pc \<longrightarrow> clk_sys_src c) \<and>
     (23 \<le> pc \<longrightarrow> clk_sys_selected c = 2)"

definition inv_pll :: "reset_bits \<Rightarrow> board \<Rightarrow> nat \<Rightarrow> soc \<Rightarrow> bool" where
  "inv_pll r b pc c \<longleftrightarrow>
     (xosc_stable c \<longrightarrow> b \<noteq> None) \<and>
     (9 \<le> pc \<longrightarrow> xosc_enabled c) \<and>
     (10 \<le> pc \<longrightarrow> xosc_stable c) \<and>
     (11 \<le> pc \<and> pc \<le> 16 \<longrightarrow> pll_pd c \<and> \<not> pll_locked c) \<and>
     (12 \<le> pc \<longrightarrow> \<not> bit (reset_reg c) (pll_sys_bit r)) \<and>
     (14 \<le> pc \<longrightarrow> pll_refdiv c = 1) \<and>
     (15 \<le> pc \<longrightarrow> pll_fbdiv c = 100) \<and>
     (16 \<le> pc \<longrightarrow> pll_postdiv1 c = 5 \<and> pll_postdiv2 c = 5) \<and>
     (17 \<le> pc \<longrightarrow> \<not> pll_pd c \<and> \<not> pll_vcopd c \<and> (pll_locked c \<longrightarrow> crystal_ok b)) \<and>
     (18 \<le> pc \<longrightarrow> pll_locked c) \<and>
     (19 \<le> pc \<longrightarrow> \<not> pll_postdivpd c)"

definition inv_usb :: "reset_bits \<Rightarrow> nat \<Rightarrow> soc \<Rightarrow> bool" where
  "inv_usb r pc c \<longleftrightarrow>
     (1 \<le> pc \<and> pc \<le> 23 \<longrightarrow> bit (reset_reg c) (usbctrl_bit r)) \<and>
     (24 \<le> pc \<longrightarrow> \<not> bit (reset_reg c) (usbctrl_bit r)) \<and>
     (25 \<le> pc \<longrightarrow> bit (reset_done_reg c) (usbctrl_bit r)) \<and>
     (8 \<le> pc \<longrightarrow> clk_usb_div c = 0x100) \<and>
     (21 \<le> pc \<longrightarrow> clk_usb_enabled c \<and> clk_usb_auxsrc c = CLKSRC_PLL_SYS)"

text \<open>The program counter takes one of thirty values below the end; the statement at each.\<close>

lemma pc_cases:
  assumes "pc < (30 :: nat)"
  shows "pc \<in> set [0,1,2,3,4,5,6,7,8,9,10,11,12,13,14,15,16,17,18,19,20,21,22,23,24,25,26,27,28,29]"
proof -
  have "[0,1,2,3,4,5,6,7,8,9,10,11,12,13,14,15,16,17,18,19,20,21,22,23,24,25,26,27,28,29] = [0..<30]"
    by (simp add: upt_rec)
  then show ?thesis using assms by (simp only: set_upt atLeastLessThan_iff) simp
qed

lemma mask_done: "k < 32 \<Longrightarrow> (2 ^ k AND NOT d = (0 :: u32)) = bit d k"
  using and_exp_eq_0_iff_not_bit [of "NOT d" k] by (simp add: ac_simps bit_simps)

lemma bit_reset_block [simp]:
  "reset_bits_ok r \<Longrightarrow> bit (RESETS_RESET_PLL_SYS_BITS r) (pll_sys_bit r)"
  "reset_bits_ok r \<Longrightarrow> \<not> bit (RESETS_RESET_PLL_SYS_BITS r) (usbctrl_bit r)"
  "reset_bits_ok r \<Longrightarrow> bit (RESETS_RESET_USBCTRL_BITS r) (usbctrl_bit r)"
  "reset_bits_ok r \<Longrightarrow> \<not> bit (RESETS_RESET_USBCTRL_BITS r) (pll_sys_bit r)"
  by (auto simp: reset_bits_ok_def RESETS_RESET_PLL_SYS_BITS_def RESETS_RESET_USBCTRL_BITS_def bit_simps)

lemma mask_done_blocks [simp]:
  "reset_bits_ok r \<Longrightarrow> (RESETS_RESET_PLL_SYS_BITS r AND NOT d = 0) = bit d (pll_sys_bit r)"
  "reset_bits_ok r \<Longrightarrow> (RESETS_RESET_USBCTRL_BITS r AND NOT d = 0) = bit d (usbctrl_bit r)"
  by (auto simp: reset_bits_ok_def RESETS_RESET_PLL_SYS_BITS_def RESETS_RESET_USBCTRL_BITS_def mask_done)

lemma reset_bits_32: "reset_bits_ok r \<Longrightarrow> pll_sys_bit r < 32" "reset_bits_ok r \<Longrightarrow> usbctrl_bit r < 32"
  by (auto simp: reset_bits_ok_def)

lemma inv_sys_cpu:
  assumes "reset_bits_ok r" "inv_sys pc c" "pc < 30" "cpu_step (usb_boot_program False r) (pc, c) = (pc', c')"
  shows "inv_sys pc' c'"
  using pc_cases [OF assms(3)] assms(1,2,4) unfolding list.set insert_iff empty_iff
  by (elim disjE FalseE)
     (auto simp: cpu_step_def boot_programs inv_sys_def reset_block_def Let_def split: if_splits)

lemma inv_usb_cpu:
  assumes "reset_bits_ok r" "inv_usb r pc c" "pc < 30" "cpu_step (usb_boot_program False r) (pc, c) = (pc', c')"
  shows "inv_usb r pc' c'"
  using pc_cases [OF assms(3)] assms(1,2,4) unfolding list.set insert_iff empty_iff
  by (elim disjE FalseE)
     (auto simp: cpu_step_def boot_programs inv_usb_def reset_block_def bit_simps reset_bits_32 Let_def split: if_splits)

lemma inv_pll_cpu:
  assumes "reset_bits_ok r" "inv_pll r b pc c" "pc < 30" "cpu_step (usb_boot_program False r) (pc, c) = (pc', c')"
  shows "inv_pll r b pc' c'"
  using pc_cases [OF assms(3)] assms(1,2,4) unfolding list.set insert_iff empty_iff
  by (elim disjE FalseE)
     (auto simp: cpu_step_def boot_programs inv_pll_def reset_block_def bit_simps reset_bits_32 Let_def split: if_splits)

definition boot_inv :: "reset_bits \<Rightarrow> board \<Rightarrow> boot_config \<Rightarrow> bool" where
  "boot_inv r b = (\<lambda>(pc, c). pc \<le> 30 \<and> inv_sys pc c \<and> inv_pll r b pc c \<and> inv_usb r pc c)"

lemma boot_inv_cpu:
  assumes "reset_bits_ok r" "boot_inv r b (pc, c)"
  shows "boot_inv r b (cpu_step (usb_boot_program False r) (pc, c))"
proof (cases "pc < 30")
  case True
  obtain pc' c' where s: "cpu_step (usb_boot_program False r) (pc, c) = (pc', c')" by force
  then have "pc' \<le> 30" using True by (auto simp: cpu_step_def split: boot_stmt.splits if_splits)
  with assms(2) show ?thesis
    unfolding s boot_inv_def
    using inv_sys_cpu [OF assms(1) _ True s] inv_pll_cpu [OF assms(1) _ True s] inv_usb_cpu [OF assms(1) _ True s]
    by simp
qed (use assms in \<open>simp add: cpu_step_def\<close>)

text \<open>The range of the oscillator, at the multiplier of the code, is the range of the crystal.\<close>

lemma vco_range:
  assumes "pll_refdiv c = 1" "pll_fbdiv c = 100"
  shows "vco_khz f c = f * 100"
  using assms by (simp add: vco_khz_def)

lemma inv_pll_chip:
  assumes "reset_bits_ok r" "inv_pll r b pc c"
  shows "inv_pll r b pc (chip r b e c)"
proof (cases e)
  case Pll_locks
  have "17 \<le> pc \<Longrightarrow> pll_can_lock r b c \<Longrightarrow> crystal_ok b"
    using assms(2) vco_range [of c]
    by (auto simp: inv_pll_def pll_can_lock_def crystal_ok_def split: option.splits)
  moreover have "11 \<le> pc \<Longrightarrow> pc \<le> 16 \<Longrightarrow> \<not> pll_can_lock r b c"
    using assms(2) by (auto simp: inv_pll_def pll_can_lock_def split: option.splits)
  ultimately show ?thesis using assms(2) Pll_locks by (auto simp: inv_pll_def)
qed (use assms in \<open>auto simp: inv_pll_def\<close>)

lemma boot_inv_chip:
  assumes "reset_bits_ok r" "boot_inv r b (pc, c)"
  shows "boot_inv r b (pc, chip r b e c)"
proof -
  have "inv_sys pc (chip r b e c)" "inv_usb r pc (chip r b e c)"
    using assms by (cases e; force simp: boot_inv_def inv_sys_def inv_usb_def bit_simps reset_bits_32)+
  then show ?thesis using assms inv_pll_chip by (simp add: boot_inv_def)
qed

lemma boot_inv_act: "reset_bits_ok r \<Longrightarrow> boot_inv r b x \<Longrightarrow> boot_inv r b (boot_act r b a x)"
  by (cases a; cases x) (auto simp: boot_act_def boot_inv_cpu boot_inv_chip)

text \<open>
  The registers the code may find: the one-hot status of the multiplexer, and no stable crystal on a
  board that has none.  All else may be as the user left it.
\<close>

definition found_registers :: "board \<Rightarrow> soc \<Rightarrow> bool" where
  "found_registers b c \<longleftrightarrow> clk_sys_selected c \<in> {1, 2} \<and> (xosc_stable c \<longrightarrow> b \<noteq> None)"

lemma boot_inv_run:
  "reset_bits_ok r \<Longrightarrow> found_registers b c \<Longrightarrow> boot_inv r b (boot_run r b sched c n)"
proof (induction n)
  case 0
  then show ?case by (auto simp: boot_inv_def inv_sys_def inv_pll_def inv_usb_def found_registers_def)
qed (simp add: boot_inv_act)

subsection \<open>What the invariant says\<close>

lemma crystal_inv: "inv_pll r b pc c \<Longrightarrow> 18 \<le> pc \<Longrightarrow> crystal_ok b"
  by (simp add: inv_pll_def)

lemma pll_ready_inv:
  assumes "inv_pll r b pc c" "19 \<le> pc"
  shows "pll_ready b c" "crystal_ok b"
proof -
  have c: "crystal_ok b" using crystal_inv [OF assms(1)] assms(2) by simp
  then obtain f where "b = Some f" "4000 \<le> f" "f \<le> 16000" by (auto simp: crystal_ok_def)
  moreover have "vco_khz f c = f * 100" using assms by (intro vco_range) (auto simp: inv_pll_def)
  moreover have "pll_khz f c = 4 * f"
    using assms calculation(4) by (simp add: pll_khz_def inv_pll_def)
  ultimately show "pll_ready b c" using assms by (auto simp: pll_ready_def inv_pll_def)
qed (use assms in \<open>auto simp: inv_pll_def\<close>)

definition on_reference :: "soc \<Rightarrow> bool" where
  "on_reference c \<longleftrightarrow> clk_sys_selected c = 1 \<and> \<not> clk_sys_src c"

definition sys_from_pll :: "board \<Rightarrow> soc \<Rightarrow> bool" where
  "sys_from_pll b c \<longleftrightarrow> clk_sys_auxsrc c = CLKSRC_PLL_SYS \<and> clk_sys_div c = 0x100 \<and> pll_ready b c"

definition usb_from_pll :: "board \<Rightarrow> soc \<Rightarrow> bool" where
  "usb_from_pll b c \<longleftrightarrow>
     clk_usb_enabled c \<and> clk_usb_auxsrc c = CLKSRC_PLL_SYS \<and> clk_usb_div c = 0x100 \<and> pll_ready b c"

text \<open>The registers that shape the output of the PLL and of the multiplexers behind it.\<close>

definition sys_sources :: "reset_bits \<Rightarrow> soc \<Rightarrow> bool \<times> bool \<times> u32 \<times> u32 \<times> u32 \<times> u32 \<times> bool \<times> bool \<times> bool \<times> u32 \<times> aux_source" where
  "sys_sources r c =
     (xosc_enabled c, bit (reset_reg c) (pll_sys_bit r), pll_refdiv c, pll_fbdiv c, pll_postdiv1 c, pll_postdiv2 c,
      pll_pd c, pll_vcopd c, pll_postdivpd c, clk_sys_div c, clk_sys_auxsrc c)"

definition usb_sources :: "soc \<Rightarrow> u32 \<times> bool \<times> aux_source" where
  "usb_sources c = (clk_usb_div c, clk_usb_enabled c, clk_usb_auxsrc c)"

lemma sources_cpu:
  assumes "reset_bits_ok r" "pc < 30" "cpu_step (usb_boot_program False r) (pc, c) = (pc', c')"
  shows "sys_sources r c' \<noteq> sys_sources r c \<Longrightarrow> 6 \<le> pc \<and> pc \<le> 19"
    and "usb_sources c' \<noteq> usb_sources c \<Longrightarrow> 1 \<le> pc \<and> pc \<le> 20"
  using pc_cases [OF assms(2)] assms(1,3) unfolding list.set insert_iff empty_iff
  by (elim disjE FalseE;
      auto simp: cpu_step_def boot_programs sys_sources_def usb_sources_def reset_block_def bit_simps reset_bits_32
        Let_def split: if_splits)+

lemma sources_chip: "sys_sources r (chip r b e c) = sys_sources r c" "usb_sources (chip r b e c) = usb_sources c"
  by (cases e; simp add: sys_sources_def usb_sources_def)+

lemma sources_act:
  assumes "reset_bits_ok r" "boot_act r b a (pc, c) = (pc', c')"
  shows "sys_sources r c' \<noteq> sys_sources r c \<Longrightarrow> 6 \<le> pc \<and> pc \<le> 19"
    and "usb_sources c' \<noteq> usb_sources c \<Longrightarrow> 1 \<le> pc \<and> pc \<le> 20"
proof -
  have "cpu_step (usb_boot_program False r) (pc, c) = (pc, c)" if "\<not> pc < 30"
    using that by (simp add: cpu_step_def)
  then show "sys_sources r c' \<noteq> sys_sources r c \<Longrightarrow> 6 \<le> pc \<and> pc \<le> 19"
    and "usb_sources c' \<noteq> usb_sources c \<Longrightarrow> 1 \<le> pc \<and> pc \<le> 20"
    using assms sources_cpu [OF assms(1)]
    by (cases a; cases "pc < 30"; fastforce simp: boot_act_def sources_chip)+
qed

lemma uses_usb_at:
  assumes "pc < 30" "usb_boot_program False r ! pc = Use_usb"
  shows "pc \<in> {28, 29}"
  using pc_cases [OF assms(1)] assms(2) unfolding list.set insert_iff empty_iff
  by (elim disjE FalseE) (auto simp: boot_programs)

lemma off_reference_inv: "inv_sys pc c \<Longrightarrow> 6 \<le> pc \<Longrightarrow> \<not> on_reference c \<Longrightarrow> 22 \<le> pc"
  by (auto simp: inv_sys_def on_reference_def)

lemma out_of_reset_inv: "inv_usb r pc c \<Longrightarrow> 1 \<le> pc \<Longrightarrow> \<not> bit (reset_reg c) (usbctrl_bit r) \<Longrightarrow> 24 \<le> pc"
  by (auto simp: inv_usb_def)

subsection \<open>Progress\<close>

definition fair :: "(nat \<Rightarrow> actor) \<Rightarrow> bool" where
  "fair sched \<longleftrightarrow> (\<forall>a n. \<exists>m\<ge>n. sched m = a)"

definition go_ahead :: "reset_bits \<Rightarrow> nat \<Rightarrow> soc \<Rightarrow> bool" where
  "go_ahead r pc c = (case usb_boot_program False r ! pc of Await q \<Rightarrow> q c | _ \<Rightarrow> True)"

text \<open>The event each of the waits is for.\<close>

definition awaited :: "nat \<Rightarrow> chip_event" where
  "awaited pc = (if pc = 9 then Crystal_stable else if pc = 17 then Pll_locks
     else if pc \<in> {5, 22} then Mux_switches else Resets_done)"

lemma awaited_enables:
  assumes "reset_bits_ok r" "boot_inv r b (pc, c)" "pc < 30" "pc = 9 \<Longrightarrow> b \<noteq> None" "pc = 17 \<Longrightarrow> crystal_ok b"
  shows "go_ahead r pc (chip r b (awaited pc) c)"
  using pc_cases [OF assms(3)] assms(1,2,4,5) unfolding list.set insert_iff empty_iff
  by (elim disjE FalseE)
     (auto simp: go_ahead_def awaited_def boot_programs boot_inv_def inv_sys_def inv_pll_def inv_usb_def bit_simps
       reset_bits_32 pll_can_lock_def crystal_ok_def vco_range)

lemma go_ahead_stays:
  assumes "reset_bits_ok r" "boot_inv r b (pc, c)" "pc < 30" "go_ahead r pc c"
  shows "go_ahead r pc (chip r b e c)"
  using pc_cases [OF assms(3)] assms(1,2,4) unfolding list.set insert_iff empty_iff
  by (elim disjE FalseE; cases e)
     (auto simp: go_ahead_def boot_programs boot_inv_def inv_sys_def inv_pll_def inv_usb_def bit_simps reset_bits_32)

lemma cpu_advances: "pc < 30 \<Longrightarrow> go_ahead r pc c \<Longrightarrow> fst (boot_act r b Cpu (pc, c)) = Suc pc"
  by (auto simp: boot_act_def cpu_step_def go_ahead_def split: boot_stmt.splits)

lemma act_pc: "fst (boot_act r b a (pc, c)) \<in> {pc, Suc pc}"
  by (auto simp: boot_act_def cpu_step_def split: actor.split boot_stmt.splits)

lemma run_chip:
  "boot_run r b sched c n = (pc, c') \<Longrightarrow> sched n = Chip e \<Longrightarrow> boot_run r b sched c (Suc n) = (pc, chip r b e c')"
  by (simp add: boot_act_def)

lemma run_cpu:
  "boot_run r b sched c n = (pc, c') \<Longrightarrow> sched n = Cpu \<Longrightarrow> pc < 30 \<Longrightarrow> go_ahead r pc c' \<Longrightarrow>
   fst (boot_run r b sched c (Suc n)) = Suc pc"
  by (simp add: cpu_advances)

lemma pc_mono: "fst (boot_run r b sched c n) \<le> fst (boot_run r b sched c (n + d))"
proof (induction d)
  case (Suc d)
  then show ?case
    using act_pc [of r b "sched (n + d)" "fst (boot_run r b sched c (n + d))" "snd (boot_run r b sched c (n + d))"]
    by auto
qed simp

lemma pc_mono_le: "n \<le> m \<Longrightarrow> fst (boot_run r b sched c n) \<le> fst (boot_run r b sched c m)"
  using pc_mono [of r b sched c n "m - n"] by simp

lemma boot_advances:
  assumes ok: "reset_bits_ok r" "found_registers b c" and fair: "fair sched"
    and pc: "fst (boot_run r b sched c n) = pc" "pc < 30"
    and cond: "pc = 9 \<Longrightarrow> b \<noteq> None" "pc = 17 \<Longrightarrow> crystal_ok b"
  shows "\<exists>m\<ge>n. pc < fst (boot_run r b sched c m)"
proof (rule ccontr)
  let ?run = "boot_run r b sched c"
  assume "\<not> ?thesis"
  then have at: "fst (?run m) = pc" if "n \<le> m" for m
    using pc_mono_le [OF that, of r b sched c] pc(1) that by (metis le_neq_implies_less)
  have inv: "boot_inv r b (pc, snd (?run m))" if "n \<le> m" for m
    using boot_inv_run [OF ok, of sched m] at [OF that] by (metis prod.collapse)
  obtain m where m: "n \<le> m" "sched m = Chip (awaited pc)" using fair by (auto simp: fair_def)
  have "?run (Suc m) = (pc, chip r b (awaited pc) (snd (?run m)))"
    using m(2) at [OF m(1)] by (intro run_chip) (metis prod.collapse)
  then have start: "go_ahead r pc (snd (?run (Suc m)))"
    using awaited_enables [OF ok(1) inv [OF m(1)] pc(2) cond] by simp
  have on: "go_ahead r pc (snd (?run (Suc m + d)))" for d
  proof (induction d)
    case (Suc d)
    let ?k = "Suc m + d"
    have k: "?run ?k = (pc, snd (?run ?k))" using at [of ?k] m(1) by (metis le_SucI prod.collapse trans_le_add1)
    show ?case
    proof (cases "sched ?k")
      case Cpu
      have "fst (?run (Suc ?k)) = Suc pc" using k Cpu pc(2) Suc by (rule run_cpu)
      then show ?thesis using at [of "Suc ?k"] m(1) by simp
    next
      case (Chip e)
      have "?run (Suc ?k) = (pc, chip r b e (snd (?run ?k)))" using k Chip by (rule run_chip)
      then show ?thesis
        using go_ahead_stays [OF ok(1) inv [of ?k] pc(2) Suc, of e] m(1) by simp
    qed
  qed (use start in simp)
  obtain k where k: "Suc m \<le> k" "sched k = Cpu" using fair by (auto simp: fair_def)
  have "go_ahead r pc (snd (?run k))" using on [of "k - Suc m"] k by simp
  moreover have "?run k = (pc, snd (?run k))" using at [of k] k m(1) by (metis Suc_leD order_trans prod.collapse)
  ultimately have "fst (?run (Suc k)) = Suc pc" using k(2) pc(2) by (intro run_cpu)
  then show False using at [of "Suc k"] k m(1) by simp
qed

lemma boot_gets_to:
  assumes ok: "reset_bits_ok r" "found_registers b c" and fair: "fair sched"
    and N: "N \<le> 30" "9 < N \<Longrightarrow> b \<noteq> None" "17 < N \<Longrightarrow> crystal_ok b"
  shows "\<exists>n. N \<le> fst (boot_run r b sched c n)"
  using N
proof (induction N)
  case (Suc N)
  then obtain n where n: "N \<le> fst (boot_run r b sched c n)" by auto
  show ?case
  proof (cases "fst (boot_run r b sched c n) = N")
    case True
    then obtain m where "N < fst (boot_run r b sched c m)"
      using boot_advances [OF ok fair True] Suc.prems by auto
    then show ?thesis by (intro exI [of _ m]) simp
  next
    case False
    with n show ?thesis by (intro exI [of _ n]) simp
  qed
qed simp

text \<open>A fair schedule: everybody in turn.\<close>

definition round_robin :: "nat \<Rightarrow> actor" where
  "round_robin n = [Cpu, Chip Mux_switches, Chip Crystal_stable, Chip Pll_locks, Chip Resets_done] ! (n mod 5)"

lemma fair_round_robin: "fair round_robin"
  unfolding fair_def
proof (intro allI)
  fix a and n :: nat
  define i where "i = (case a of Cpu \<Rightarrow> 0 | Chip Mux_switches \<Rightarrow> 1 | Chip Crystal_stable \<Rightarrow> 2 | Chip Pll_locks \<Rightarrow> 3
    | Chip Resets_done \<Rightarrow> (4 :: nat))"
  have "i < 5" by (simp add: i_def split: actor.split chip_event.split)
  moreover have "[Cpu, Chip Mux_switches, Chip Crystal_stable, Chip Pll_locks, Chip Resets_done] ! i = a"
    by (simp add: i_def split: actor.split chip_event.split)
  ultimately have "round_robin (5 * n + i) = a" by (simp add: round_robin_def)
  then show "\<exists>m\<ge>n. round_robin m = a" by (intro exI [of _ "5 * n + i"]) simp
qed

text \<open>The bits of the RP2040, and registers as after a reset.\<close>

definition rp2040_bits :: reset_bits where
  "rp2040_bits = \<lparr>pll_sys_bit = 12, usbctrl_bit = 24\<rparr>"

definition soc_reset :: soc where
  "soc_reset =
     \<lparr>rosc_enabled = True, clk_ref_src = 0, resus_enabled = False, clk_sys_src = False, clk_sys_auxsrc = CLKSRC_PLL_SYS,
      clk_sys_selected = 1, clk_sys_div = 0x100, clk_usb_div = 0x100, clk_usb_enabled = False,
      clk_usb_auxsrc = CLKSRC_PLL_SYS, xosc_enabled = False, xosc_stable = False, reset_reg = 0x1ffffff,
      reset_done_reg = 0, pll_refdiv = 1, pll_fbdiv = 0, pll_postdiv1 = 7, pll_postdiv2 = 7, pll_pd = True,
      pll_vcopd = True, pll_postdivpd = True, pll_locked = False, tick_cycles = 0, tick_enabled = False,
      xip_cache_enabled = True\<rparr>"

lemma rp2040 [simp]: "reset_bits_ok rp2040_bits" "found_registers b soc_reset"
  by (simp_all add: reset_bits_ok_def rp2040_bits_def found_registers_def soc_reset_def)

subsection \<open>Properties\<close>

text \<open>C36: Whatever the user left in the registers and however the chip delays: while \<open>_usb_boot\<close> runs, the
  crystal, the PLL, the divider and the auxiliary source of \<open>clk_sys\<close> change only while \<open>clk_sys\<close> runs from
  the reference clock; the sources of \<open>clk_usb\<close> change only while the USB controller is held in reset; once
  it has been on the reference, \<open>clk_sys\<close> leaves it only for the locked, ungated PLL at four times the
  crystal; out of its reset the controller has its clock from the same PLL, and it is used only when its
  reset is done.\<close>

theorem boot_switches_safely:
  assumes "reset_bits_ok r" "found_registers b c0"
    and run: "boot_run r b sched c0 n = (pc, c)" and act: "boot_act r b a (pc, c) = (pc', c')"
  shows "(sys_sources r c' \<noteq> sys_sources r c \<longrightarrow> on_reference c) \<and>
         (usb_sources c' \<noteq> usb_sources c \<longrightarrow> bit (reset_reg c) (usbctrl_bit r)) \<and>
         (6 \<le> pc \<and> \<not> on_reference c \<longrightarrow> sys_from_pll b c) \<and>
         (1 \<le> pc \<and> \<not> bit (reset_reg c) (usbctrl_bit r) \<longrightarrow> usb_from_pll b c \<and> sys_from_pll b c) \<and>
         (pc < 30 \<and> usb_boot_program False r ! pc = Use_usb \<longrightarrow>
            bit (reset_done_reg c) (usbctrl_bit r) \<and> usb_from_pll b c)"
proof -
  have inv: "inv_sys pc c" "inv_pll r b pc c" "inv_usb r pc c"
    using boot_inv_run [OF assms(1,2), of sched n] run by (simp_all add: boot_inv_def)
  have sys: "22 \<le> pc \<Longrightarrow> sys_from_pll b c" and usb: "22 \<le> pc \<Longrightarrow> usb_from_pll b c"
    using inv pll_ready_inv(1) [OF inv(2)]
    by (auto simp: sys_from_pll_def usb_from_pll_def inv_sys_def inv_usb_def)
  have "on_reference c" if "sys_sources r c' \<noteq> sys_sources r c"
    using sources_act(1) [OF assms(1) act that] inv(1) by (auto simp: on_reference_def inv_sys_def)
  moreover have "bit (reset_reg c) (usbctrl_bit r)" if "usb_sources c' \<noteq> usb_sources c"
    using sources_act(2) [OF assms(1) act that] inv(3) by (auto simp: inv_usb_def)
  moreover have "25 \<le> pc" if "pc < 30" "usb_boot_program False r ! pc = Use_usb"
    using uses_usb_at [OF that] by auto
  ultimately show ?thesis
    using off_reference_inv [OF inv(1)] out_of_reset_inv [OF inv(3)] sys usb inv(3)
    by (auto simp: inv_usb_def)
qed

theorem boot_switches_safely_witness:
  "\<exists>n pc c. boot_run rp2040_bits (Some 12000) round_robin soc_reset n = (pc, c) \<and> 28 \<le> pc \<and>
     usb_from_pll (Some 12000) c \<and> sys_from_pll (Some 12000) c"
proof -
  obtain n where n: "28 \<le> fst (boot_run rp2040_bits (Some 12000) round_robin soc_reset n)"
    using boot_gets_to [of rp2040_bits "Some 12000" soc_reset round_robin 28]
    by (auto simp: fair_round_robin crystal_ok_def)
  obtain pc c where run: "boot_run rp2040_bits (Some 12000) round_robin soc_reset n = (pc, c)" by force
  have "inv_usb rp2040_bits pc c"
    using boot_inv_run [of rp2040_bits "Some 12000" soc_reset round_robin n] run by (simp add: boot_inv_def)
  then have "\<not> bit (reset_reg c) (usbctrl_bit rp2040_bits)" using n run by (simp add: inv_usb_def)
  moreover obtain pc' c' where "boot_act rp2040_bits (Some 12000) Cpu (pc, c) = (pc', c')" by force
  ultimately show ?thesis
    using boot_switches_safely [of rp2040_bits "Some 12000" soc_reset round_robin n pc c Cpu pc' c'] run n
    by (intro exI [of _ n] exI [of _ pc] exI [of _ c]) simp
qed

text \<open>C37: With a crystal of 4 to 16 MHz \<open>_usb_boot\<close> gets through all its waits, provided that the code and
  each part of the chip get their turn again and again: from some moment on \<open>clk_sys\<close> and \<open>clk_usb\<close> run
  from the PLL at four times the crystal, 48 MHz at 12 MHz, and the controller is out of reset.\<close>

theorem boot_reaches_usb:
  assumes "reset_bits_ok r" "found_registers b c0" "fair sched"
    and b: "b = Some f" "4000 \<le> f" "f \<le> 16000"
  shows "\<exists>N. \<forall>n\<ge>N. \<exists>c. boot_run r b sched c0 n = (length (usb_boot_program False r), c) \<and>
           clk_sys_src c \<and> clk_sys_selected c = 2 \<and> sys_from_pll b c \<and> usb_from_pll b c \<and>
           pll_khz f c = 4 * f \<and> bit (reset_done_reg c) (usbctrl_bit r)"
proof -
  obtain N where N: "30 \<le> fst (boot_run r b sched c0 N)"
    using boot_gets_to [OF assms(1-3), of 30] b by (auto simp: crystal_ok_def)
  show ?thesis
  proof (rule exI, intro allI impI)
    fix n assume "N \<le> n"
    obtain pc c where run: "boot_run r b sched c0 n = (pc, c)" by force
    have inv: "pc \<le> 30" "inv_sys pc c" "inv_pll r b pc c" "inv_usb r pc c"
      using boot_inv_run [OF assms(1,2), of sched n] run by (simp_all add: boot_inv_def)
    moreover have "30 \<le> pc" using N pc_mono_le [OF \<open>N \<le> n\<close>, of r b sched c0] run by simp
    ultimately have pc: "pc = 30" by simp
    show "\<exists>c. boot_run r b sched c0 n = (length (usb_boot_program False r), c) \<and>
           clk_sys_src c \<and> clk_sys_selected c = 2 \<and> sys_from_pll b c \<and> usb_from_pll b c \<and>
           pll_khz f c = 4 * f \<and> bit (reset_done_reg c) (usbctrl_bit r)"
      using run inv pc pll_ready_inv(1) [OF inv(3)] b(1)
      by (auto simp: inv_sys_def inv_usb_def sys_from_pll_def usb_from_pll_def pll_ready_def)
  qed
qed

theorem boot_reaches_usb_witness:
  "\<exists>N. \<forall>n\<ge>N. \<exists>c. boot_run rp2040_bits (Some 12000) round_robin soc_reset n =
     (length (usb_boot_program False rp2040_bits), c) \<and>
     clk_sys_src c \<and> clk_sys_selected c = 2 \<and> sys_from_pll (Some 12000) c \<and> usb_from_pll (Some 12000) c \<and>
     pll_khz 12000 c = 4 * 12000 \<and> bit (reset_done_reg c) (usbctrl_bit rp2040_bits)"
  using boot_reaches_usb [of rp2040_bits "Some 12000" soc_reset round_robin 12000]
  by (simp add: fair_round_robin)

text \<open>C38: Without a crystal, or with one outside the range of the PLL, \<open>_usb_boot\<close> ends in a wait with the
  chip in a safe state, as its comment demands: from some moment on \<open>clk_sys\<close> runs from the reference for
  ever, the USB controller stays in reset, and the function does not return.\<close>

theorem boot_without_crystal:
  assumes "reset_bits_ok r" "found_registers b c0" "fair sched" and bad: "\<not> crystal_ok b"
  shows "(\<exists>N. \<forall>n\<ge>N. on_reference (snd (boot_run r b sched c0 n)) \<and>
             bit (reset_reg (snd (boot_run r b sched c0 n))) (usbctrl_bit r)) \<and>
         (\<forall>n. fst (boot_run r b sched c0 n) < length (usb_boot_program False r))"
proof -
  have low: "pc \<le> 17" if "boot_run r b sched c0 n = (pc, c)" for n pc c
  proof -
    have "inv_pll r b pc c" using boot_inv_run [OF assms(1,2), of sched n] that by (simp add: boot_inv_def)
    then show ?thesis using bad crystal_inv [of r b pc c] by linarith
  qed
  obtain N where N: "6 \<le> fst (boot_run r b sched c0 N)" using boot_gets_to [OF assms(1-3), of 6] by auto
  have "on_reference c \<and> bit (reset_reg c) (usbctrl_bit r)"
    if "N \<le> n" "boot_run r b sched c0 n = (pc, c)" for n pc c
  proof -
    have "6 \<le> pc" using N pc_mono_le [OF that(1), of r b sched c0] that(2) by simp
    then show ?thesis
      using boot_inv_run [OF assms(1,2), of sched n] low [OF that(2)] that(2)
      by (auto simp: boot_inv_def inv_sys_def inv_usb_def on_reference_def)
  qed
  then have "on_reference (snd (boot_run r b sched c0 n)) \<and> bit (reset_reg (snd (boot_run r b sched c0 n))) (usbctrl_bit r)"
    if "N \<le> n" for n
    using that by (cases "boot_run r b sched c0 n") auto
  moreover have "fst (boot_run r b sched c0 n) < 30" for n
    using low by (cases "boot_run r b sched c0 n") fastforce
  ultimately show ?thesis by (intro conjI exI [of _ N] allI impI) simp_all
qed

theorem boot_without_crystal_witness:
  "(\<exists>N. \<forall>n\<ge>N. on_reference (snd (boot_run rp2040_bits None round_robin soc_reset n)) \<and>
      bit (reset_reg (snd (boot_run rp2040_bits None round_robin soc_reset n))) (usbctrl_bit rp2040_bits)) \<and>
   (\<forall>n. fst (boot_run rp2040_bits None round_robin soc_reset n) < length (usb_boot_program False rp2040_bits))"
  using boot_without_crystal [of rp2040_bits None soc_reset round_robin]
  by (simp add: fair_round_robin crystal_ok_def)

end
