(* ===== verification/Bit_Functions.thy ===== *)
theory Bit_Functions
  imports Prelude
begin

text \<open>
  \<open>bootrom/bit_functions.S\<close>: the bit functions in assembler, in the variants that the build selects
  (\<open>NEW_POPCOUNT32\<close> and so on), instruction by instruction; an instruction is an operation on words, a
  load from a table an access to the list of its bytes.  Each function is shown equal to what it is named
  after, for all \<open>2 ^ 32\<close> inputs.
\<close>

unbundle bit_operations_syntax

subsection \<open>The functions\<close>

definition popcount32 :: "u32 \<Rightarrow> u32" where
  "popcount32 r0 =
     (let r1 = 0x49249249;
          r2 = drop_bit 1 r0; r2 = r2 AND r1;
          r3 = drop_bit 2 r0; r3 = r3 AND r1;
          r0 = r0 AND r1;
          r0 = r0 + r2; r0 = r0 + r3;
          r1 = drop_bit 3 r0; r0 = r0 + r1;
          r1 = 0xC71C71C7; r0 = r0 AND r1;
          r1 = drop_bit 6 r0; r0 = r0 + r1;
          r1 = 0x04004004; r0 = r0 * r1
      in drop_bit 26 r0)"

text \<open>The instruction \<open>rev\<close> reverses the order of the bytes.\<close>

definition reverse_bytes :: "u32 \<Rightarrow> u32" where
  "reverse_bytes w = push_bit 24 (take_bit 8 w) OR push_bit 16 (take_bit 8 (drop_bit 8 w)) OR
     push_bit 8 (take_bit 8 (drop_bit 16 w)) OR drop_bit 24 w"

definition reverse32 :: "u32 \<Rightarrow> u32" where
  "reverse32 r0 =
     (let r2 = 0xcccccccc;
          r1 = drop_bit 1 r2; r1 = r1 XOR r2;
          r3 = push_bit 1 r0; r3 = r3 AND r1; r0 = r0 AND r1; r0 = drop_bit 1 r0; r0 = r0 OR r3;
          r3 = push_bit 2 r0; r3 = r3 AND r2; r0 = r0 AND r2; r0 = drop_bit 2 r0; r3 = r3 OR r0;
          r2 = 0xf0f0f0f0;
          r0 = push_bit 4 r3; r0 = r0 AND r2; r3 = r3 AND r2; r3 = drop_bit 4 r3; r0 = r0 OR r3
      in reverse_bytes r0)"

text \<open>The tables, which the code writes with two subtracted from each entry.\<close>

definition clz6_table :: "u32 list" where
  "clz6_table = [
     6, 5, 4, 4, 3, 3, 3, 3, 2, 2, 2, 2, 2, 2, 2, 2, 1, 1, 1, 1, 1, 1, 1, 1, 1, 1, 1, 1, 1, 1, 1, 1,
     0, 0, 0, 0, 0, 0, 0, 0, 0, 0, 0, 0, 0, 0, 0, 0, 0, 0, 0, 0, 0, 0, 0, 0, 0, 0, 0, 0, 0, 0, 0, 0]"

definition ctz6_table :: "u32 list" where
  "ctz6_table = [
     6, 0, 1, 0, 2, 0, 1, 0, 3, 0, 1, 0, 2, 0, 1, 0, 4, 0, 1, 0, 2, 0, 1, 0, 3, 0, 1, 0, 2, 0, 1, 0,
     5, 0, 1, 0, 2, 0, 1, 0, 3, 0, 1, 0, 2, 0, 1, 0, 4, 0, 1, 0, 2, 0, 1, 0, 3, 0, 1, 0, 2, 0, 1, 0]"

definition ldrb :: "u32 list \<Rightarrow> u32 \<Rightarrow> u32" where
  "ldrb table i = table ! unat i"

definition clz32 :: "u32 \<Rightarrow> u32" where
  "clz32 r0 =
     (let r1 = drop_bit 16 r0
      in if r1 \<noteq> 0 then
           let r0 = drop_bit 10 r1
           in if r0 \<noteq> 0 then ldrb clz6_table r0
              else let r0 = drop_bit 4 r1
                   in if r0 \<noteq> 0 then ldrb clz6_table r0 + 6 else ldrb clz6_table r1 + (12 - 2)
         else
           let r1 = drop_bit 10 r0
           in if r1 \<noteq> 0 then ldrb clz6_table r1 + 16
              else let r1 = drop_bit 4 r0
                   in if r1 \<noteq> 0 then ldrb clz6_table r1 + 22 else ldrb clz6_table r0 + (28 - 2))"

definition ctz32 :: "u32 \<Rightarrow> u32" where
  "ctz32 r0 =
     (let r1 = push_bit 16 r0
      in if r1 \<noteq> 0 then
           let r0 = push_bit 6 r1
           in if r0 = 0 then ldrb ctz6_table (drop_bit 26 r1) + 10
              else let r1 = push_bit 6 r0
                   in if r1 = 0 then ldrb ctz6_table (drop_bit 26 r0) + 4
                      else ldrb ctz6_table (drop_bit 28 r1 + 16)
         else
           let r1 = push_bit 6 r0
           in if r1 = 0 then ldrb ctz6_table (drop_bit 26 r0) + 26
              else let r0 = push_bit 6 r1
                   in if r0 = 0 then ldrb ctz6_table (drop_bit 26 r1) + 20
                      else ldrb ctz6_table (drop_bit 28 r0 + 16) + 16)"

subsection \<open>Reference definitions\<close>

definition popcount_ref :: "u32 \<Rightarrow> nat" where
  "popcount_ref x = length (filter (bit x) [0..<32])"

definition ctz_ref :: "u32 \<Rightarrow> nat" where
  "ctz_ref x = length (takeWhile (\<lambda>i. \<not> bit x i) [0..<32])"

definition clz_ref :: "u32 \<Rightarrow> nat" where
  "clz_ref x = length (takeWhile (\<lambda>i. \<not> bit x (31 - i)) [0..<32])"

subsection \<open>Reversal\<close>

lemma upt_32:
  "[0..<32] = ([0,1,2,3,4,5,6,7,8,9,10,11,12,13,14,15,16,17,18,19,20,21,22,23,24,25,26,27,28,29,30,31] :: nat list)"
  by (simp add: upt_rec)

lemma less_32: "i < (32 :: nat) \<Longrightarrow> i \<in> set [0,1,2,3,4,5,6,7,8,9,10,11,12,13,14,15,16,17,18,19,20,21,22,23,24,25,26,27,28,29,30,31]"
  unfolding upt_32 [symmetric] by simp

text \<open>One step swaps neighbouring groups of \<open>k\<close> bits, chosen by a mask.\<close>

definition swap_groups :: "nat \<Rightarrow> u32 \<Rightarrow> u32 \<Rightarrow> u32" where
  "swap_groups k m x = (push_bit k x AND m) OR drop_bit k (x AND m)"

lemma reverse32_swaps:
  "reverse32 x = reverse_bytes (swap_groups 4 0xf0f0f0f0 (swap_groups 2 0xcccccccc (swap_groups 1 0xaaaaaaaa x)))"
proof -
  have "(drop_bit 1 0xcccccccc XOR 0xcccccccc :: u32) = 0xaaaaaaaa" by code_simp
  then show ?thesis by (simp only: reverse32_def swap_groups_def Let_def or.commute [of "drop_bit _ _"])
qed

lemma mask_bits:
  assumes "i < 32"
  shows "bit (0xaaaaaaaa :: u32) i = odd i" "bit (0xcccccccc :: u32) i = odd (i div 2)"
    "bit (0xf0f0f0f0 :: u32) i = odd (i div 4)"
  using less_32 [OF assms] unfolding list.set insert_iff empty_iff
  by (elim disjE FalseE; simp add: bit_simps)+

lemma high_bit: "32 \<le> i \<Longrightarrow> \<not> bit (w :: u32) i"
  using bit_imp_le_length [of w i] by auto

lemma bit_swap:
  assumes "i < 32" "0 < k" and mask: "\<And>j. j < 32 \<Longrightarrow> bit m j = odd (j div k)"
  shows "bit (swap_groups k m x) i = bit x (if odd (i div k) then i - k else i + k)"
proof -
  have "bit (swap_groups k m x) i = (k \<le> i \<and> bit x (i - k) \<and> bit m i \<or> bit x (k + i) \<and> bit m (k + i))"
    using assms(1) by (auto simp: swap_groups_def bit_simps)
  moreover have "bit m (k + i) = even (i div k)" if "bit x (k + i)"
    using high_bit [of "k + i" x] that mask [of "k + i"] assms(2) div_add_self1 [of k i]
    by (cases "k + i < 32") simp_all
  moreover have "k \<le> i" if "odd (i div k)" using that by (cases "i < k") auto
  ultimately show ?thesis using mask [OF assms(1)] by (auto simp: add.commute)
qed

lemma bit_swap_groups:
  assumes "i < 32"
  shows "bit (swap_groups 1 0xaaaaaaaa x) i = bit x (if odd i then i - 1 else i + 1)"
    "bit (swap_groups 2 0xcccccccc x) i = bit x (if odd (i div 2) then i - 2 else i + 2)"
    "bit (swap_groups 4 0xf0f0f0f0 x) i = bit x (if odd (i div 4) then i - 4 else i + 4)"
  using bit_swap [OF assms, of 1] bit_swap [OF assms, of 2] bit_swap [OF assms, of 4] mask_bits
  by (simp_all only: div_by_1 zero_less_one zero_less_numeral)

lemmas bit_reversals = bit_swap_groups [unfolded One_nat_def] high_bit numeral_2_eq_2 [symmetric] numeral_3_eq_3 [symmetric]

lemma bit_rev: "i < 32 \<Longrightarrow> bit (reverse_bytes w) i = bit w (8 * (3 - i div 8) + i mod 8)"
  apply (drule less_32)
  unfolding list.set insert_iff empty_iff
  by (elim disjE FalseE; simp add: reverse_bytes_def bit_simps bit_reversals)

lemma reverse32_bit: "i < 32 \<Longrightarrow> bit (reverse32 x) i = bit x (31 - i)"
  apply (drule less_32)
  unfolding list.set insert_iff empty_iff reverse32_swaps
  by (elim disjE FalseE; simp add: bit_rev bit_reversals)

subsection \<open>Counting zeros\<close>

lemma length_takeWhile_upt:
  assumes "n \<le> m" "\<And>i. i < n \<Longrightarrow> P i" "n < m \<Longrightarrow> \<not> P n"
  shows "length (takeWhile P [0..<m]) = n"
proof -
  have "[0..<m] = [0..<n] @ [n..<m]" using assms(1) upt_add_eq_append [of 0 n "m - n"] by simp
  moreover have "takeWhile P [n..<m] = []" using assms(3) by (cases "n < m") (auto simp: upt_conv_Cons)
  ultimately show ?thesis using assms(2) by (simp add: takeWhile_append)
qed

lemma push_bit_zero: "k \<le> 32 \<Longrightarrow> (push_bit k x = (0 :: u32)) = (\<forall>i < 32 - k. \<not> bit x i)"
proof
  assume "k \<le> 32" "push_bit k x = 0"
  then have "\<not> bit (push_bit k x) (k + i)" for i by simp
  then show "\<forall>i < 32 - k. \<not> bit x i" by (simp add: bit_simps)
next
  assume "k \<le> 32" "\<forall>i < 32 - k. \<not> bit x i"
  then show "push_bit k x = 0" by (intro bit_word_eqI) (simp add: bit_simps)
qed

lemma take_bit_word_less: "take_bit 6 (w :: u32) < 64"
  using take_bit_nat_less_exp [of 6 "unat w"] by (simp add: word_less_nat_alt unsigned_take_bit_eq)

lemma word_64_cases: "y < 64 \<Longrightarrow> \<exists>k \<in> set [0..<64]. y = (of_nat k :: u32)"
  by (intro bexI [of _ "unat y"]) (simp_all add: word_less_nat_alt)

text \<open>The tables, checked entry by entry.\<close>

lemma ctz6_entries:
  "\<forall>k \<in> set [0..<64]. let y = of_nat k; t = unat (ldrb ctz6_table y)
     in t \<le> 6 \<and> (k = 0) = (t = 6) \<and> (\<forall>i \<in> set [0..<t]. \<not> bit (y :: u32) i) \<and> (t < 6 \<longrightarrow> bit y t) \<and>
        (k < 16 \<and> k \<noteq> 0 \<longrightarrow> ldrb ctz6_table (y + 16) = ldrb ctz6_table y)"
  by code_simp

lemma clz6_entries:
  "\<forall>k \<in> set [0..<64]. let y = of_nat k; t = unat (ldrb clz6_table y)
     in t \<le> 6 \<and> (k = 0) = (t = 6) \<and> (\<forall>i \<in> set [0..<t]. \<not> bit (y :: u32) (5 - i)) \<and> (t < 6 \<longrightarrow> bit y (5 - t))"
  by code_simp

lemma ctz6_table:
  assumes "(y :: u32) < 64" defines "t \<equiv> unat (ldrb ctz6_table y)"
  shows "t \<le> 6" "y = 0 \<longleftrightarrow> t = 6" "i < t \<Longrightarrow> \<not> bit y i" "t < 6 \<Longrightarrow> bit y t"
    "y < 16 \<Longrightarrow> y \<noteq> 0 \<Longrightarrow> ldrb ctz6_table (y + 16) = ldrb ctz6_table y"
  using bspec [OF ctz6_entries, of "unat y"] assms
  by (auto simp: Let_def word_less_nat_alt unat_eq_0)

lemma clz6_table:
  assumes "(y :: u32) < 64" defines "t \<equiv> unat (ldrb clz6_table y)"
  shows "t \<le> 6" "y = 0 \<longleftrightarrow> t = 6" "i < t \<Longrightarrow> \<not> bit y (5 - i)" "t < 6 \<Longrightarrow> bit y (5 - t)"
  using bspec [OF clz6_entries, of "unat y"] assms
  by (auto simp: Let_def word_less_nat_alt unat_eq_0)

text \<open>
  Six bits at \<open>off\<close> are looked up when everything below them is zero; the result is exact if one of them is
  set, or if there is nothing above them.
\<close>

lemma ctz_leaf:
  assumes "off + w \<le> 32" "\<forall>i < off. \<not> bit x i" "y < 64" "\<And>j. j < 6 \<Longrightarrow> bit y j = (j < w \<and> bit x (off + j))"
    and "off = 26 \<and> w = 6 \<or> y \<noteq> 0"
  shows "ldrb ctz6_table y + of_nat off = of_nat (ctz_ref x)"
proof -
  define t where "t = unat (ldrb ctz6_table y)"
  note table = ctz6_table [OF assms(3), folded t_def]
  have w: "t \<le> w" using assms(4) [of t] assms(5) table(1,2,4) by (cases "t = 6") auto
  have "ctz_ref x = off + t"
    unfolding ctz_ref_def
  proof (rule length_takeWhile_upt)
    show "off + t \<le> 32" using assms(1) w by simp
    show "\<not> bit x i" if "i < off + t" for i
    proof (cases "i < off")
      case False
      then obtain j where "i = off + j" by (metis le_add_diff_inverse not_less)
      with that show ?thesis using assms(4) [of j] table(1) table(3) [of j] w by auto
    qed (use assms(2) in simp)
    show "\<not> \<not> bit x (off + t)" if "off + t < 32"
      using assms(4) [of t] assms(5) table(1,2,4) that by (cases "t = 6") auto
  qed
  then show ?thesis by (simp add: t_def)
qed

lemma clz_leaf:
  assumes "s \<le> 26" "\<forall>i \<ge> s + 6. \<not> bit x i" "s = 0 \<or> drop_bit s x \<noteq> 0"
  shows "ldrb clz6_table (drop_bit s x) + of_nat (26 - s) = of_nat (clz_ref x)"
proof -
  define t where "t = unat (ldrb clz6_table (drop_bit s x))"
  have "take_bit 6 (drop_bit s x) = drop_bit s x"
    using assms(2) by (intro bit_word_eqI) (auto simp: bit_simps, meson add_le_cancel_left not_le)
  then have "drop_bit s x < 64"
    using take_bit_word_less [of "drop_bit s x"] by simp
  note table = clz6_table [OF this, folded t_def]
  have "clz_ref x = 26 - s + t"
    unfolding clz_ref_def
  proof (rule length_takeWhile_upt)
    show "26 - s + t \<le> 32" using assms(1) table(1) by simp
    show "\<not> bit x (31 - i)" if "i < 26 - s + t" for i
    proof (cases "i < 26 - s")
      case False
      then obtain j where "i = 26 - s + j" by (metis le_add_diff_inverse not_less)
      with that have "j < t" "31 - i = s + (5 - j)" using table(1) assms(1) by auto
      then show ?thesis using table(3) [of j] by (simp add: bit_simps)
    qed (use assms(1,2) in auto)
    show "\<not> \<not> bit x (31 - (26 - s + t))" if "26 - s + t < 32"
    proof -
      have "t < 6" using assms(1,3) table(1,2) that by (cases "t = 6") auto
      then have "31 - (26 - s + t) = s + (5 - t)" using assms(1) by simp
      then show ?thesis using table(4) \<open>t < 6\<close> by (simp add: bit_simps add.commute)
    qed
  qed
  then show ?thesis by (simp add: t_def)
qed

lemma drop_bit_zero: "(drop_bit k x = (0 :: u32)) = (\<forall>i \<ge> k. \<not> bit x i)"
proof
  assume "drop_bit k x = 0"
  then have "\<not> bit (drop_bit k x) (i - k)" for i by simp
  then show "\<forall>i \<ge> k. \<not> bit x i" by (simp add: bit_simps) (metis le_add_diff_inverse)
qed (intro bit_word_eqI, simp add: bit_simps)

lemma clz32_ref: "clz32 x = of_nat (clz_ref x)"
proof -
  have leaf: "\<forall>i \<ge> s + 6. \<not> bit x i \<Longrightarrow> s = 0 \<or> drop_bit s x \<noteq> 0 \<Longrightarrow> s \<le> 26 \<Longrightarrow>
      ldrb clz6_table (drop_bit s x) + of_nat (26 - s) = of_nat (clz_ref x)" for s
    by (rule clz_leaf)
  show ?thesis
    using leaf [of 26] leaf [of 20] leaf [of 16] leaf [of 10] leaf [of 4] leaf [of 0] high_bit [of _ x]
      drop_bit_zero [of 26 x] drop_bit_zero [of 20 x] drop_bit_zero [of 16 x] drop_bit_zero [of 10 x] drop_bit_zero [of 4 x]
    by (simp add: clz32_def Let_def split: if_split)
qed

lemma ctz_leaf_push:
  assumes "w = 4 \<or> w = 6" "s \<le> 32 - w" "\<forall>i < 32 - w - s. \<not> bit x i" "s = 0 \<and> w = 6 \<or> push_bit s x \<noteq> 0"
  shows "ldrb ctz6_table (drop_bit (32 - w) (push_bit s x)) + of_nat (32 - w - s) = of_nat (ctz_ref x)"
    and "w = 4 \<Longrightarrow> ldrb ctz6_table (drop_bit 28 (push_bit s x) + 16) = ldrb ctz6_table (drop_bit 28 (push_bit s x))"
proof -
  let ?y = "drop_bit (32 - w) (push_bit s x)"
  have bits: "bit ?y j = (j < w \<and> bit x (32 - w - s + j))" for j
    using assms(1,2) by (auto simp: bit_simps)
  have "take_bit w ?y = ?y" by (rule bit_word_eqI) (auto simp: bit_take_bit_iff bits)
  then have small: "unat ?y < 2 ^ w" using take_bit_nat_less_exp [of w "unat ?y"] by (metis unsigned_take_bit_eq)
  have nonzero: "s = 0 \<and> w = 6 \<or> ?y \<noteq> 0"
  proof (rule ccontr)
    assume c: "\<not> ?thesis"
    have "\<not> bit x i" if "i < 32 - s" for i
    proof (cases "i < 32 - w - s")
      case False
      then obtain j where "i = 32 - w - s + j" by (metis le_add_diff_inverse not_less)
      with that c show ?thesis using bits [of j] assms(1,2) by auto
    qed (use assms(3) in simp)
    then show False using assms(1,2,4) c by (auto simp: push_bit_zero)
  qed
  have lt: "?y < 64" using small assms(1) by (auto simp: word_less_nat_alt)
  show "ldrb ctz6_table ?y + of_nat (32 - w - s) = of_nat (ctz_ref x)"
    by (rule ctz_leaf [where w = w]) (use assms(1-3) lt bits nonzero in auto)
  show "w = 4 \<Longrightarrow> ldrb ctz6_table (drop_bit 28 (push_bit s x) + 16) = ldrb ctz6_table (drop_bit 28 (push_bit s x))"
    using ctz6_table(5) [OF lt] small nonzero by (auto simp: word_less_nat_alt)
qed

lemma ctz32_ref: "ctz32 x = of_nat (ctz_ref x)"
  using ctz_leaf_push [of 6 16 x] ctz_leaf_push [of 6 22 x] ctz_leaf_push [of 4 28 x] ctz_leaf_push [of 6 0 x]
    ctz_leaf_push [of 6 6 x] ctz_leaf_push [of 4 12 x]
    push_bit_zero [of 16 x] push_bit_zero [of 22 x] push_bit_zero [of 28 x] push_bit_zero [of 6 x] push_bit_zero [of 12 x]
  by (simp add: ctz32_def Let_def push_bit_push_bit)

subsection \<open>Counting ones\<close>

text \<open>The code adds in fields of three bits, so a number is seen as the list of its octal digits.\<close>

primrec base8 :: "nat list \<Rightarrow> nat" where
  "base8 [] = 0"
| "base8 (d # ds) = d + 8 * base8 ds"

primrec octal :: "nat \<Rightarrow> nat \<Rightarrow> nat list" where
  "octal 0 n = []"
| "octal (Suc k) n = n mod 8 # octal k (n div 8)"

lemma base8_octal: "n < 8 ^ k \<Longrightarrow> base8 (octal k n) = n"
proof (induction k arbitrary: n)
  case (Suc k)
  then show ?case using Suc.IH [of "n div 8"] by (simp add: less_mult_imp_div_less mult.commute)
qed simp

lemma and_field: "a < 8 \<Longrightarrow> c < 8 \<Longrightarrow> (a + 8 * b) AND (c + 8 * d) = (a AND c) + 8 * (b AND d)" for a b c d :: nat
proof -
  assume "a < 8" "c < 8"
  let ?n = "(a + 8 * b) AND (c + 8 * d)"
  have "?n mod 8 = a AND c"
    using take_bit_and [of 3 "a + 8 * b" "c + 8 * d"] \<open>a < 8\<close> \<open>c < 8\<close> by (simp add: take_bit_eq_mod)
  moreover have "?n div 8 = b AND d"
    using drop_bit_and [of 3 "a + 8 * b" "c + 8 * d"] \<open>a < 8\<close> \<open>c < 8\<close> by (simp add: drop_bit_eq_div)
  ultimately show ?thesis using mult_div_mod_eq [of 8 ?n] by simp
qed

lemma base8_and:
  "length ds = length es \<Longrightarrow> \<forall>d \<in> set ds. d < 8 \<Longrightarrow> \<forall>e \<in> set es. e < 8 \<Longrightarrow>
   base8 ds AND base8 es = base8 (map2 (AND) ds es)"
  by (induction ds es rule: list_induct2) (auto simp: and_field)

definition ones :: "u32 \<Rightarrow> nat \<Rightarrow> nat" where
  "ones x i = of_bool (bit x i)"

lemma ones_mod: "unat x div 2 ^ i mod 2 = ones x i"
proof -
  have "bit x i = odd (unat x div 2 ^ i)"
    using bit_iff_odd [of "unat x" i] by (simp add: bit_unsigned_iff)
  then show ?thesis by (simp only: ones_def mod_2_eq_odd)
qed

lemma octal_and_ones:
  "base8 (octal k n) AND base8 (replicate k 1) = base8 (map (\<lambda>i. n div 8 ^ i mod 2) [0..<k])"
proof (induction k arbitrary: n)
  case (Suc k)
  have "map (\<lambda>i. n div 8 ^ i mod 2) [0..<Suc k] = n mod 2 # map (\<lambda>i. n div 8 div 8 ^ i mod 2) [0..<k]"
    by (simp add: map_upt_Suc div_mult2_eq del: upt_Suc)
  moreover have "n mod 8 AND 1 = n mod 2" by (simp add: and_one_eq mod_mod_cancel)
  ultimately show ?case using and_field [of "n mod 8" 1] Suc.IH [of "n div 8"] by simp
qed simp

lemma octal_ones:
  "unat (x AND 0x49249249) = base8 (map (\<lambda>k. ones x (3 * k)) [0..<11])"
proof -
  have "unat x < 2 ^ LENGTH(32)" by (rule unsigned_less)
  then have "unat x = base8 (octal 11 (unat x))" by (intro base8_octal [symmetric]) simp
  moreover have "replicate 11 (1 :: nat) = [1,1,1,1,1,1,1,1,1,1,1]" by (simp add: eval_nat_numeral)
  then have "unat (0x49249249 :: u32) = base8 (replicate 11 1)" by simp
  moreover have "unat x div 8 ^ k mod 2 = ones x (3 * k)" for k
    using ones_mod [of x "3 * k"] by (simp add: power_mult)
  ultimately show ?thesis
    using octal_and_ones [of 11 "unat x"] by (simp only: unsigned_and_eq)
qed

lemma popcount_ones: "popcount_ref x = (\<Sum>i\<leftarrow>[0..<32]. ones x i)"
proof -
  have "length (filter (bit x) is) = (\<Sum>i\<leftarrow>is. ones x i)" for "is"
    by (induction "is") (auto simp: ones_def)
  then show ?thesis by (simp add: popcount_ref_def)
qed

text \<open>The first sum has the ones of each three neighbouring bits in a field of three bits.\<close>

definition trio :: "u32 \<Rightarrow> nat \<Rightarrow> nat" where
  "trio x k = ones x (3 * k) + ones x (1 + 3 * k) + ones x (2 + 3 * k)"

lemma trio_le: "trio x k \<le> 3"
  by (simp add: trio_def ones_def)

lemma base8_add3:
  "base8 (map (\<lambda>k. f k + g k + h k) ks) = base8 (map f ks) + base8 (map g ks) + base8 (map h ks)"
  by (induction ks) simp_all

lemma base8_less: "\<forall>d \<in> set ds. d < 8 \<Longrightarrow> base8 ds < 8 ^ length ds"
  by (induction ds) auto

lemma upt_11: "[0..<11] = [0,1,2,3,4,5,6,7,8,9,10::nat]" "[0..<10] = [0,1,2,3,4,5,6,7,8,9::nat]"
  by (simp_all add: upt_rec)

lemma popcount_first:
  "unat ((x AND 0x49249249) + (drop_bit 1 x AND 0x49249249) + (drop_bit 2 x AND 0x49249249)) =
     base8 (map (trio x) [0..<11])"
proof -
  have shift: "ones (drop_bit n x) i = ones x (n + i)" for n i by (simp add: ones_def bit_drop_bit_eq)
  have eq: "base8 (map (trio x) [0..<11]) =
      unat (x AND 0x49249249) + unat (drop_bit 1 x AND 0x49249249) + unat (drop_bit 2 x AND 0x49249249)"
    unfolding octal_ones shift trio_def base8_add3 ..
  have "trio x 10 \<le> 2" by (simp add: trio_def ones_def high_bit)
  moreover have "base8 (map (trio x) [0..<10]) < 8 ^ 10"
    using base8_less [of "map (trio x) [0..<10]"] le_less_trans [OF trio_le, of 8 x] by simp
  moreover have "base8 (map (trio x) [0..<11]) = base8 (map (trio x) [0..<10]) + 8 ^ 10 * trio x 10"
    by (simp add: upt_11)
  ultimately have "base8 (map (trio x) [0..<11]) < 2 ^ 32" by simp
  then show ?thesis unfolding eq by (simp add: unat_word_ariths)
qed

lemma unat_drop: "unat (drop_bit n w) = unat w div 2 ^ n" for w :: u32
proof -
  have "unat (drop_bit n w) = drop_bit n (take_bit LENGTH(32) (unat w))" by (rule unsigned_drop_bit_eq)
  also have "take_bit LENGTH(32) (unat w) = unat w" by (rule take_bit_nat_eq_self) (rule unsigned_less)
  finally show ?thesis by (simp only: drop_bit_eq_div)
qed

lemma base8_div: "d < 8 \<Longrightarrow> base8 (d # ds) div 8 = base8 ds" "d < 8 \<Longrightarrow> e < 8 \<Longrightarrow> base8 (d # e # ds) div 64 = base8 ds"
  by simp_all

text \<open>Then two neighbouring fields are added, every second sum kept, and again; the product collects the sums.\<close>

lemma and_7: "d < 8 \<Longrightarrow> d AND 7 = d" "d < 4 \<Longrightarrow> d AND 3 = d" for d :: nat
  using take_bit_eq_mask [of 3 d] take_bit_eq_mask [of 2 d] by (simp_all add: mask_eq_exp_minus_1 take_bit_eq_mod)

lemma popcount_second:
  fixes y :: u32
  assumes y: "unat y = base8 [a,b,c,d,e,f,g,h,i,j,k]"
    and le: "\<forall>n \<in> {a,b,c,d,e,f,g,h,i,j}. n \<le> 3" "k \<le> 2"
  shows "unat ((y + drop_bit 3 y) AND 0xC71C71C7) = base8 [a+b, 0, c+d, 0, e+f, 0, g+h, 0, i+j, 0, k]"
proof -
  have "unat (drop_bit 3 y) = base8 [b,c,d,e,f,g,h,i,j,k]"
    using y le by (simp add: unat_drop base8_div del: base8.simps)
  moreover have "base8 [a+b, b+c, c+d, d+e, e+f, f+g, g+h, h+i, i+j, j+k, k] =
      base8 [a,b,c,d,e,f,g,h,i,j,k] + base8 [b,c,d,e,f,g,h,i,j,k]" by simp
  moreover have "base8 [a+b, b+c, c+d, d+e, e+f, f+g, g+h, h+i, i+j, j+k, k] < 2 ^ 32"
    using le by simp
  ultimately have "unat (y + drop_bit 3 y) = base8 [a+b, b+c, c+d, d+e, e+f, f+g, g+h, h+i, i+j, j+k, k]"
    using y by (simp add: unat_word_ariths del: base8.simps)
  moreover have "unat (0xC71C71C7 :: u32) = base8 [7,0,7,0,7,0,7,0,7,0,3]" by simp
  ultimately show ?thesis
    using le by (simp only: unsigned_and_eq) (subst base8_and; simp add: and_7)
qed

lemma field_of_sum: "low < 2 ^ 26 \<Longrightarrow> t < 64 \<Longrightarrow> (2 ^ 32 * hi + 2 ^ 26 * t + low) mod 2 ^ 32 div 2 ^ 26 = t" for low t hi :: nat
proof -
  assume "low < 2 ^ 26" "t < 64"
  then have "2 ^ 26 * t + low < 2 ^ 32" by simp
  then have "(2 ^ 32 * hi + 2 ^ 26 * t + low) mod 2 ^ 32 = 2 ^ 26 * t + low" by (simp add: add.assoc)
  then show ?thesis using \<open>low < 2 ^ 26\<close> by simp
qed

lemma popcount_third:
  fixes z :: u32
  assumes z: "unat z = base8 [a, 0, b, 0, c, 0, d, 0, e, 0, f]"
    and le: "\<forall>n \<in> {a,b,c,d,e}. n \<le> 6" "f \<le> 2"
  shows "unat (drop_bit 26 ((z + drop_bit 6 z) * 0x04004004)) = a + b + c + d + e + f"
proof -
  let ?w = "(a+b) + 64 * (b+c) + 4096 * (c+d) + 262144 * (d+e) + 16777216 * (e+f) + 1073741824 * f"
  have "unat (drop_bit 6 z) = base8 [b, 0, c, 0, d, 0, e, 0, f]"
    using z le by (simp add: unat_drop base8_div del: base8.simps)
  then have "unat z + unat (drop_bit 6 z) = ?w" using z by simp
  then have w: "unat (z + drop_bit 6 z) = ?w mod 2 ^ LENGTH(32)" by (simp only: unat_word_ariths)
  have "?w * 0x04004004 =
      2 ^ 32 * ((b+c) + (c+d) * 64 + (d+e) * 4096 + (e+f) * 262144 + 16777216 * f + (d+e) + (e+f) * 64 + 4096 * f + f) +
      2 ^ 26 * ((a+b) + (c+d) + (e+f)) + (4 * (a+b) + 256 * (b+c) + 16384 * (c+d) + 1048576 * (d+e) + 16384 * (a+b) + 1048576 * (b+c))"
    by (simp add: algebra_simps)
  moreover have "4 * (a+b) + 256 * (b+c) + 16384 * (c+d) + 1048576 * (d+e) + 16384 * (a+b) + 1048576 * (b+c) < 2 ^ 26"
    using le by simp
  moreover have "(a+b) + (c+d) + (e+f) < 64" using le by simp
  ultimately have "?w * 0x04004004 mod 2 ^ 32 div 2 ^ 26 = (a+b) + (c+d) + (e+f)"
    by (simp only: field_of_sum)
  then show ?thesis
    unfolding unat_drop unat_word_ariths(2) w mod_mult_left_eq by simp
qed

lemma ones_32: "ones x 32 = 0"
  by (simp add: ones_def high_bit)

lemma popcount32_ref: "popcount32 x = of_nat (popcount_ref x)"
proof -
  let ?y = "(x AND 0x49249249) + (drop_bit 1 x AND 0x49249249) + (drop_bit 2 x AND 0x49249249)"
  have y: "unat ?y = base8 [trio x 0, trio x 1, trio x 2, trio x 3, trio x 4, trio x 5, trio x 6, trio x 7, trio x 8,
      trio x 9, trio x 10]"
    unfolding popcount_first by (simp only: upt_11 list.map)
  have top: "trio x 10 \<le> 2" by (simp add: trio_def ones_def high_bit)
  have two: "trio x m + trio x n \<le> 6" for m n using trio_le [of x m] trio_le [of x n] by simp
  let ?z = "(?y + drop_bit 3 ?y) AND 0xC71C71C7"
  have z: "unat ?z = base8 [trio x 0 + trio x 1, 0, trio x 2 + trio x 3, 0, trio x 4 + trio x 5, 0, trio x 6 + trio x 7, 0,
      trio x 8 + trio x 9, 0, trio x 10]"
    by (rule popcount_second [OF y _ top]) (simp add: trio_le)
  have "popcount32 x = drop_bit 26 ((?z + drop_bit 6 ?z) * 0x04004004)" by (simp only: popcount32_def Let_def)
  then have "unat (popcount32 x) = trio x 0 + trio x 1 + (trio x 2 + trio x 3) + (trio x 4 + trio x 5) +
      (trio x 6 + trio x 7) + (trio x 8 + trio x 9) + trio x 10"
    using popcount_third [OF z _ top] two by (simp only: insert_iff empty_iff) blast
  also have "\<dots> = popcount_ref x"
    unfolding popcount_ones trio_def upt_32 by (simp add: ones_32)
  finally show ?thesis by (metis of_nat_unat ucast_id)
qed

lemma nonzero_bit: "x \<noteq> 0 \<Longrightarrow> \<exists>i < 32. bit x i" for x :: u32
proof (rule ccontr)
  assume "x \<noteq> 0" "\<not> ?thesis"
  moreover from this have "x = 0" by (intro bit_word_eqI) simp
  ultimately show False by simp
qed

lemma ctz_ref_least: "ctz_ref x = (if x = 0 then 32 else LEAST i. bit x i)"
proof (cases "x = 0")
  case False
  then obtain i where i: "i < 32" "bit x i" using nonzero_bit by blast
  have "ctz_ref x = (LEAST i. bit x i)"
    unfolding ctz_ref_def
    by (rule length_takeWhile_upt) (use i Least_le [of "bit x" i] LeastI [of "bit x" i] not_less_Least in auto)
  then show ?thesis using False by simp
qed (simp add: ctz_ref_def takeWhile_eq_all_conv [THEN iffD2])

lemma clz_ref_max: "clz_ref x = (if x = 0 then 32 else 31 - Max {i. bit x i})"
proof (cases "x = 0")
  case False
  have fin: "finite {i. bit x i}" by (rule finite_subset [of _ "{..<32}"]) (use high_bit not_le in auto)
  moreover have "{i. bit x i} \<noteq> {}" using nonzero_bit [OF False] by blast
  ultimately have m: "bit x (Max {i. bit x i})" using Max_in by blast
  then have "Max {i. bit x i} < 32" using high_bit not_le by blast
  moreover have "i \<le> Max {i. bit x i}" if "bit x i" for i using that fin by (simp add: Max_ge)
  ultimately have "clz_ref x = 31 - Max {i. bit x i}"
    unfolding clz_ref_def by (intro length_takeWhile_upt) (use m in fastforce)+
  then show ?thesis using False by simp
qed (simp add: clz_ref_def takeWhile_eq_all_conv [THEN iffD2])

subsection \<open>Properties\<close>

text \<open>C39: For every one of the \<open>2 ^ 32\<close> inputs the bit functions compute what their names say: the number of
  ones, the number of zeros below the lowest one and above the highest (32 for zero), and the word with its
  bits in reverse order.\<close>

theorem bit_functions_exact:
  "popcount32 x = of_nat (card {i. i < 32 \<and> bit x i}) \<and>
   ctz32 x = of_nat (if x = 0 then 32 else LEAST i. bit x i) \<and>
   clz32 x = of_nat (if x = 0 then 32 else 31 - Max {i. bit x i}) \<and>
   (\<forall>i. bit (reverse32 x) i = (bit x (31 - i) \<and> i < 32))"
proof (intro conjI)
  show "popcount32 x = of_nat (card {i. i < 32 \<and> bit x i})"
    unfolding popcount32_ref popcount_ref_def
    by (subst distinct_card [symmetric]) (auto intro!: arg_cong [where f = "\<lambda>A. of_nat (card A)"])
  show "\<forall>i. bit (reverse32 x) i = (bit x (31 - i) \<and> i < 32)"
    using reverse32_bit high_bit by (meson not_le)
qed (simp_all only: ctz32_ref ctz_ref_least clz32_ref clz_ref_max)

end
