(* ===== verification/Pins.thy ===== *)
theory Pins
  imports Bit_Functions
begin

text \<open>
  The rest of \<open>usb_device_tiny/runtime.c\<close> that writes control registers: \<open>gpio_setup\<close> for the activity pins,
  with the 32 pins as numbers, and \<open>interrupt_enable\<close> with the registers of the interrupt controller.  What
  a write to a register does (set, clear, write) is documented.
\<close>

record pin_state =
  io_bank0_reset :: bool
  sio_out :: u32
  sio_oe :: u32
  pad_output_disabled :: "nat \<Rightarrow> bool"
  pin_ctrl :: "nat \<Rightarrow> u32"
  activity_mask :: u32

text \<open>The function select is the lowest field of the control register; the write clears the other fields.\<close>

definition gpio_funcsel :: "u32 \<Rightarrow> u32 \<Rightarrow> pin_state \<Rightarrow> pin_state" where
  "gpio_funcsel i fn s =
     s\<lparr>pad_output_disabled := (pad_output_disabled s)(unat i := False), pin_ctrl := (pin_ctrl s)(unat i := fn)\<rparr>"

definition gpio_setup :: "pin_state \<Rightarrow> pin_state" where
  "gpio_setup s =
     (if activity_mask s \<noteq> 0 then
        let s = s\<lparr>io_bank0_reset := False\<rparr>;
            s = s\<lparr>sio_out := sio_out s OR activity_mask s\<rparr>;
            s = s\<lparr>sio_oe := sio_oe s OR activity_mask s\<rparr>
        in gpio_funcsel (ctz32 (activity_mask s)) 5 s
      else s)"

text \<open>A pin shows its bit of the output register if it is routed to it, enabled, and its pad drives.\<close>

definition pin_driven :: "pin_state \<Rightarrow> nat \<Rightarrow> bool option" where
  "pin_driven s i =
     (if pin_ctrl s i = 5 \<and> bit (sio_oe s) i \<and> \<not> pad_output_disabled s i \<and> \<not> io_bank0_reset s
      then Some (bit (sio_out s) i) else None)"

lemma ctz32_bit: "x \<noteq> 0 \<Longrightarrow> unat (ctz32 x) = (LEAST i. bit x i) \<and> bit x (LEAST i. bit x i)"
proof -
  assume "x \<noteq> 0"
  then obtain i where i: "i < 32" "bit x i" using nonzero_bit by blast
  then have "(LEAST i. bit x i) < 32" using Least_le [of "bit x" i] by simp
  then show ?thesis
    using \<open>x \<noteq> 0\<close> i LeastI [of "bit x" i] by (simp add: ctz32_ref ctz_ref_least unat_of_nat)
qed

text \<open>Of the pins of the mask the lowest is driven; the routing of the others stays as it was.\<close>

lemma gpio_setup_lowest:
  assumes "activity_mask s \<noteq> 0"
  shows "pin_driven (gpio_setup s) (LEAST i. bit (activity_mask s) i) = Some True"
    and "i \<noteq> (LEAST i. bit (activity_mask s) i) \<Longrightarrow> pin_ctrl (gpio_setup s) i = pin_ctrl s i"
  using assms ctz32_bit [OF assms]
  by (simp_all add: gpio_setup_def gpio_funcsel_def pin_driven_def bit_simps)

record nvic =
  nvic_pending :: u32
  nvic_enabled :: u32

definition interrupt_enable :: "nat \<Rightarrow> bool \<Rightarrow> nvic \<Rightarrow> nvic" where
  "interrupt_enable irq enable n =
     (if enable then
        let n = n\<lparr>nvic_pending := nvic_pending n AND NOT (push_bit irq 1)\<rparr>
        in n\<lparr>nvic_enabled := nvic_enabled n OR push_bit irq 1\<rparr>
      else n\<lparr>nvic_enabled := nvic_enabled n AND NOT (push_bit irq 1)\<rparr>)"

lemma interrupt_enable_bits:
  "irq < 32 \<Longrightarrow> i < 32 \<Longrightarrow> bit (nvic_enabled (interrupt_enable irq e n)) i = (if i = irq then e else bit (nvic_enabled n) i)"
  "irq < 32 \<Longrightarrow> i < 32 \<Longrightarrow> bit (nvic_pending (interrupt_enable irq e n)) i = (bit (nvic_pending n) i \<and> \<not> (i = irq \<and> e))"
  by (auto simp: interrupt_enable_def bit_simps)

end
