(* ===== verification/Memory_Functions.thy ===== *)
theory Memory_Functions
  imports Platform
begin

text \<open>
  The memory functions of \<open>bootrom/bootrom_misc.S\<close>, instruction by instruction: copies and fills by words, with the
  ends by halfwords and bytes, against the loops of \<open>test/mem_functions_test.c\<close> that go byte by byte.  A word that
  is not aligned is a fault, as on the Cortex-M0+.
\<close>

unbundle bit_operations_syntax

subsection \<open>Loads and stores\<close>

definition ldrb :: "u32 \<Rightarrow> memory \<Rightarrow> u32 option" where
  "ldrb a m = map_option ucast (m a)"

definition strb :: "u32 \<Rightarrow> u32 \<Rightarrow> memory \<Rightarrow> memory option" where
  "strb r a m = mem_write a [ucast r] m"

definition ldrh :: "u32 \<Rightarrow> memory \<Rightarrow> u32 option" where
  "ldrh a m = (if take_bit 1 a = 0 then map_option (\<lambda>bs. ucast (of_le16 bs)) (mem_read m a 2) else None)"

definition strh :: "u32 \<Rightarrow> u32 \<Rightarrow> memory \<Rightarrow> memory option" where
  "strh r a m = (if take_bit 1 a = 0 then mem_write a (le16 (ucast r)) m else None)"

definition ldm :: "nat \<Rightarrow> u32 \<Rightarrow> memory \<Rightarrow> u32 list option" where
  "ldm k a m =
     (if take_bit 2 a = 0
      then map_option (\<lambda>bs. map (\<lambda>i. of_le32 (drop (4 * i) bs)) [0..<k]) (mem_read m a (4 * k)) else None)"

definition stm :: "u32 list \<Rightarrow> u32 \<Rightarrow> memory \<Rightarrow> memory option" where
  "stm ws a m = (if take_bit 2 a = 0 then mem_write a (concat (map le32 ws)) m else None)"

subsection \<open>\<open>__memcpy\<close>\<close>

text \<open>The loop of 16 bytes: the subtraction before it and at its end decide.  The registers \<open>r0\<close>, \<open>r1\<close>, \<open>r2\<close>.\<close>

function memcpy_16 :: "u32 \<Rightarrow> u32 \<Rightarrow> u32 \<Rightarrow> memory \<Rightarrow> (u32 \<times> u32 \<times> u32 \<times> memory) option" where
  "memcpy_16 r0 r1 r2 m =
     (if r2 < 16 then Some (r0, r1, r2 - 16, m)
      else do {
        ws \<leftarrow> ldm 4 r1 m;
        m \<leftarrow> stm ws r0 m;
        memcpy_16 (r0 + 16) (r1 + 16) (r2 - 16) m
      })"
  by pat_completeness auto
termination
  by (relation "measure (\<lambda>(r0, r1, r2, m). unat r2)") (auto simp: word_less_nat_alt unat_sub word_le_nat_alt)

declare memcpy_16.simps [simp del]

text \<open>The rest, from the label 5 on; the bits of the length are shifted into the carry.\<close>

definition memcpy_block :: "nat \<Rightarrow> u32 \<times> u32 \<times> memory \<Rightarrow> (u32 \<times> u32 \<times> memory) option" where
  "memcpy_block k = (\<lambda>(r0, r1, m). do {
     ws \<leftarrow> ldm k r1 m;
     m \<leftarrow> stm ws r0 m;
     Some (r0 + of_nat (4 * k), r1 + of_nat (4 * k), m)
   })"

definition memcpy_byte :: "u32 \<Rightarrow> u32 \<Rightarrow> memory \<Rightarrow> memory option" where
  "memcpy_byte r0 r1 m = do { r3 \<leftarrow> ldrb r1 m; strb r3 r0 m }"

definition memcpy_hword :: "u32 \<Rightarrow> u32 \<Rightarrow> memory \<Rightarrow> memory option" where
  "memcpy_hword r0 r1 m = do { r3 \<leftarrow> ldrh r1 m; strh r3 r0 m }"

definition memcpy_tail :: "u32 \<Rightarrow> u32 \<Rightarrow> u32 \<Rightarrow> memory \<Rightarrow> memory option" where
  "memcpy_tail r0 r1 r2 m = do {
     (r0, r1, m) \<leftarrow> (if bit r2 3 then memcpy_block 2 (r0, r1, m) else Some (r0, r1, m));
     let r2 = push_bit 29 r2;
     (r0, r1, m) \<leftarrow> (if bit r2 31 then memcpy_block 1 (r0, r1, m) else Some (r0, r1, m));
     let r2 = push_bit 1 r2;
     if r2 = 0 then Some m
     else
       let c = bit r2 31; r2 = push_bit 1 r2
       in if c then do {
            m \<leftarrow> memcpy_hword r0 r1 m;
            if r2 = 0 then Some m
            else if r0 + 2 = 0 then Some m else memcpy_byte (r0 + 2) (r1 + 2) m
          }
          else if r2 = 0 then Some m else memcpy_byte r0 r1 m
   }"

definition memcpy_aligned :: "u32 \<Rightarrow> u32 \<Rightarrow> u32 \<Rightarrow> memory \<Rightarrow> memory option" where
  "memcpy_aligned r0 r1 r2 m = do {
     (r0, r1, r2, m) \<leftarrow> memcpy_16 r0 r1 r2 m;
     memcpy_tail r0 r1 r2 m
   }"

text \<open>The jump into the list of loads and stores, of four bytes each, counts back from its end.\<close>

definition memcpy_short :: "u32 \<Rightarrow> u32 \<Rightarrow> u32 \<Rightarrow> memory \<Rightarrow> memory option" where
  "memcpy_short r0 r1 r2 m =
     foldM (\<lambda>k m. memcpy_byte (r0 + k) (r1 + k) m) (drop (7 - unat r2) [6, 5, 4, 3, 2, 1, 0]) m"

text \<open>A counter that is decremented before it is compared with zero: from zero it wraps around.\<close>

definition count_down :: "u32 \<Rightarrow> nat" where
  "count_down r2 = (if r2 = 0 then 2 ^ 32 else unat r2)"

lemma count_down_less: "r2 - 1 \<noteq> 0 \<Longrightarrow> count_down (r2 - 1) < count_down r2"
proof (cases "r2 = 0")
  case False
  assume "r2 - 1 \<noteq> 0"
  moreover have "0 < unat r2" using False by (simp add: unat_gt_0)
  then have "unat (r2 - 1) < unat r2" by (simp add: unat_sub word_le_nat_alt)
  ultimately show ?thesis using False by (simp add: count_down_def)
qed (use unsigned_less [of "r2 - 1"] in \<open>simp add: count_down_def\<close>)

function memcpy_slow_lp :: "u32 \<Rightarrow> u32 \<Rightarrow> u32 \<Rightarrow> memory \<Rightarrow> memory option" where
  "memcpy_slow_lp r0 r1 r2 m =
     (let r2 = r2 - 1
      in Option.bind (memcpy_byte (r0 + r2) (r1 + r2) m) (\<lambda>m. if r2 = 0 then Some m else memcpy_slow_lp r0 r1 r2 m))"
  by pat_completeness auto
termination
  by (relation "measure (\<lambda>(r0, r1, r2, m). count_down r2)") (auto simp: count_down_less)

declare memcpy_slow_lp.simps [simp del]

text \<open>The result is the first argument, kept in \<open>ip\<close>, and the memory.\<close>

definition memcpy_asm :: "u32 \<Rightarrow> u32 \<Rightarrow> u32 \<Rightarrow> memory \<Rightarrow> (u32 \<times> memory) option" where
  "memcpy_asm r0 r1 r2 m = map_option (Pair r0)
     (if r2 < 8 then memcpy_short r0 r1 r2 m
      else if push_bit 30 (r0 - r1) \<noteq> 0 then memcpy_slow_lp r0 r1 r2 m
      else do {
        let r1 = r1 - r0;
        let r5 = r0;
        (r0, m) \<leftarrow> (if bit r0 0 then map_option (Pair (r0 + 1)) (memcpy_byte r0 (r0 + r1) m) else Some (r0, m));
        (r0, m) \<leftarrow> (if bit r0 1 then map_option (Pair (r0 + 2)) (memcpy_hword r0 (r0 + r1) m) else Some (r0, m));
        let r1 = r1 + r0;
        let r5 = r5 - r0;
        let r2 = r2 + r5;
        memcpy_aligned r0 r1 r2 m
      })"

definition memcpy_44 :: "u32 \<Rightarrow> u32 \<Rightarrow> u32 \<Rightarrow> memory \<Rightarrow> (u32 \<times> memory) option" where
  "memcpy_44 r0 r1 r2 m =
     map_option (Pair r0) (if r2 < 8 then memcpy_short r0 r1 r2 m else memcpy_aligned r0 r1 r2 m)"

text \<open>The loop of the test.\<close>

definition memcpy_slow :: "u32 \<Rightarrow> u32 \<Rightarrow> u32 \<Rightarrow> memory \<Rightarrow> (u32 \<times> memory) option" where
  "memcpy_slow a b c m = (if c = 0 then Some (a, m) else map_option (Pair a) (memcpy_slow_lp a b c m))"

subsection \<open>\<open>__memset\<close>\<close>

function memset_16 :: "u32 \<Rightarrow> u32 list \<Rightarrow> u32 \<Rightarrow> memory \<Rightarrow> (u32 \<times> u32 \<times> memory) option" where
  "memset_16 r0 ws r2 m =
     (if r2 < 16 then Some (r0, r2 - 16, m)
      else do {
        m \<leftarrow> stm ws r0 m;
        memset_16 (r0 + 16) ws (r2 - 16) m
      })"
  by pat_completeness auto
termination
  by (relation "measure (\<lambda>(r0, ws, r2, m). unat r2)") (auto simp: word_less_nat_alt unat_sub word_le_nat_alt)

declare memset_16.simps [simp del]

definition memset_block :: "u32 list \<Rightarrow> u32 \<times> memory \<Rightarrow> (u32 \<times> memory) option" where
  "memset_block ws = (\<lambda>(r0, m). do {
     m \<leftarrow> stm ws r0 m;
     Some (r0 + of_nat (4 * length ws), m)
   })"

definition memset_tail :: "u32 \<Rightarrow> u32 \<Rightarrow> u32 \<Rightarrow> memory \<Rightarrow> memory option" where
  "memset_tail r0 r1 r2 m = do {
     (r0, m) \<leftarrow> (if bit r2 3 then memset_block [r1, r1] (r0, m) else Some (r0, m));
     let r2 = push_bit 29 r2;
     (r0, m) \<leftarrow> (if bit r2 31 then memset_block [r1] (r0, m) else Some (r0, m));
     let r2 = push_bit 1 r2;
     if r2 = 0 then Some m
     else
       let c = bit r2 31; r2 = push_bit 1 r2
       in if c then do {
            m \<leftarrow> strh r1 r0 m;
            if r2 = 0 then Some m
            else if r0 + 2 = 0 then Some m else strb r1 (r0 + 2) m
          }
          else if r2 = 0 then Some m else strb r1 r0 m
   }"

text \<open>From the label \<open>_memset_word_boundary_with_hword_r1\<close> on: the halfword becomes a word in four registers.\<close>

definition rev_bytes :: "u32 \<Rightarrow> u32" where
  "rev_bytes w = of_le32 (rev (le32 w))"

definition memset_word :: "u32 \<Rightarrow> u32 \<Rightarrow> u32 \<Rightarrow> memory \<Rightarrow> memory option" where
  "memset_word r0 r1 r2 m = (
     let r3 = rev_bytes r1;
         r1 = r1 OR r3;
         r3 = r1;
         r4 = r1;
         r5 = r1
     in do {
       (r0, r2, m) \<leftarrow> memset_16 r0 [r1, r3, r4, r5] r2 m;
       memset_tail r0 r1 r2 m
     })"

definition memset_short :: "u32 \<Rightarrow> u32 \<Rightarrow> u32 \<Rightarrow> memory \<Rightarrow> memory option" where
  "memset_short r0 r1 r2 m = foldM (\<lambda>k m. strb r1 (r0 + k) m) (drop (7 - unat r2) [6, 5, 4, 3, 2, 1, 0]) m"

definition memset_4 :: "u32 \<Rightarrow> u32 \<Rightarrow> u32 \<Rightarrow> memory \<Rightarrow> (u32 \<times> memory) option" where
  "memset_4 r0 r1 r2 m = (
     let r1 = take_bit 8 r1;
         r3 = push_bit 8 r1;
         r1 = r1 OR r3
     in map_option (Pair r0) (memset_word r0 r1 r2 m))"

definition memset_asm :: "u32 \<Rightarrow> u32 \<Rightarrow> u32 \<Rightarrow> memory \<Rightarrow> (u32 \<times> memory) option" where
  "memset_asm r0 r1 r2 m = map_option (Pair r0)
     (if r2 < 8 then memset_short r0 r1 r2 m
      else do {
        let ip = r0;
        (r0, m) \<leftarrow> (if bit r0 0 then map_option (Pair (r0 + 1)) (strb r1 r0 m) else Some (r0, m));
        let r1 = take_bit 8 r1;
        let r3 = push_bit 8 r1;
        let r1 = r1 OR r3;
        (r0, m) \<leftarrow> (if bit r0 1 then map_option (Pair (r0 + 2)) (strh r1 r0 m) else Some (r0, m));
        let r3 = ip - r0;
        let r2 = r2 + r3;
        memset_word r0 r1 r2 m
      })"

function memset_slow_lp :: "u32 \<Rightarrow> u32 \<Rightarrow> u32 \<Rightarrow> memory \<Rightarrow> memory option" where
  "memset_slow_lp r0 r1 r2 m =
     (let r2 = r2 - 1
      in Option.bind (strb r1 (r0 + r2) m) (\<lambda>m. if r2 = 0 then Some m else memset_slow_lp r0 r1 r2 m))"
  by pat_completeness auto
termination
  by (relation "measure (\<lambda>(r0, r1, r2, m). count_down r2)") (auto simp: count_down_less)

declare memset_slow_lp.simps [simp del]

definition memset_slow :: "u32 \<Rightarrow> u32 \<Rightarrow> u32 \<Rightarrow> memory \<Rightarrow> (u32 \<times> memory) option" where
  "memset_slow a v c m = (if c = 0 then Some (a, m) else map_option (Pair a) (memset_slow_lp a v c m))"

subsection \<open>Memory with some bytes written\<close>

text \<open>The bytes at the offsets in \<open>A\<close> from \<open>dest\<close> are those of \<open>f\<close>.\<close>

definition written :: "u32 \<Rightarrow> (nat \<Rightarrow> u8 option) \<Rightarrow> nat set \<Rightarrow> memory \<Rightarrow> memory" where
  "written dest f A m = (\<lambda>a. if unat (a - dest) \<in> A then f (unat (a - dest)) else m a)"

definition target_ok :: "u32 \<Rightarrow> nat \<Rightarrow> memory \<Rightarrow> bool" where
  "target_ok dest n m \<longleftrightarrow> unat dest + n < 2 ^ 32 \<and> (\<forall>k < n. m (dest + of_nat k) \<noteq> None)"

lemma written_empty [simp]: "written dest f {} m = m"
  by (simp add: written_def)

lemma unat_offset: "k < 2 ^ 32 \<Longrightarrow> unat (of_nat k :: u32) = k"
  by (simp add: unat_of_nat)

lemma written_at:
  assumes "k < 2 ^ 32"
  shows "written dest f A m (dest + of_nat k) = (if k \<in> A then f k else m (dest + of_nat k))"
  using unat_offset [OF assms] by (simp add: written_def)

lemma written_insert:
  assumes "i < 2 ^ 32" "f i = Some b"
  shows "(written dest f A m)(dest + of_nat i \<mapsto> b) = written dest f (insert i A) m"
proof
  fix a
  have "unat (a - dest) = i \<longleftrightarrow> a = dest + of_nat i"
  proof
    assume "unat (a - dest) = i"
    then have "of_nat i = a - dest" by auto
    then show "a = dest + of_nat i" by simp
  qed (use unat_offset [OF assms(1)] in simp)
  then show "((written dest f A m)(dest + of_nat i \<mapsto> b)) a = written dest f (insert i A) m a"
    using assms(2) by (auto simp: written_def)
qed

lemma written_write:
  assumes "target_ok dest n m" "i + length bs \<le> n" "\<forall>j < length bs. f (i + j) = Some (bs ! j)" "\<forall>k \<in> A. f k \<noteq> None"
  shows "mem_write (dest + of_nat i) bs (written dest f A m) = Some (written dest f (A \<union> {i..<i + length bs}) m)"
  using assms(2-4)
proof (induction bs arbitrary: i A)
  case (Cons b bs)
  have i: "i < n" "i < 2 ^ 32" "f i = Some b" using Cons.prems assms(1) by (auto simp: target_ok_def)
  have "written dest f A m (dest + of_nat i) \<noteq> None"
    using i assms(1) Cons.prems(3) by (simp add: written_at target_ok_def)
  moreover have "f (Suc i + j) = Some (bs ! j)" if "j < length bs" for j using Cons.prems(2) that by (auto dest!: spec [of _ "Suc j"])
  then have "mem_write (dest + of_nat (Suc i)) bs (written dest f (insert i A) m) =
      Some (written dest f (insert i A \<union> {Suc i..<Suc i + length bs}) m)"
    using Cons.prems i by (intro Cons.IH) auto
  moreover have "insert i A \<union> {Suc i..<Suc i + length bs} = A \<union> {i..<i + length (b # bs)}" by auto
  moreover have "dest + of_nat i + 1 = dest + of_nat (Suc i)" by (simp add: add.commute add.left_commute)
  ultimately show ?case using written_insert [of i f b dest A m] i by (simp only: mem_write.simps if_False)
qed simp

subsection \<open>Copies\<close>

definition copy_ok :: "u32 \<Rightarrow> u32 \<Rightarrow> nat \<Rightarrow> memory \<Rightarrow> bool" where
  "copy_ok dest src n m \<longleftrightarrow>
     target_ok dest n m \<and> target_ok src n m \<and> (unat dest + n \<le> unat src \<or> unat src + n \<le> unat dest)"

abbreviation copied :: "u32 \<Rightarrow> u32 \<Rightarrow> nat set \<Rightarrow> memory \<Rightarrow> memory" where
  "copied dest src A m \<equiv> written dest (\<lambda>k. m (src + of_nat k)) A m"

lemma copied_source:
  assumes "copy_ok dest src n m" "k < n" "A \<subseteq> {..<n}"
  shows "copied dest src A m (src + of_nat k) = m (src + of_nat k)"
proof -
  have "unat (src + of_nat k - dest) \<notin> A"
  proof
    assume a: "unat (src + of_nat k - dest) \<in> A"
    define j where "j = unat (src + of_nat k - dest)"
    have j: "j < n" using a assms(3) by (auto simp: j_def)
    have "of_nat j = src + of_nat k - dest" by (simp add: j_def)
    then have "unat (dest + of_nat j) = unat (src + of_nat k)" by simp
    moreover have "unat (dest + of_nat j) = unat dest + j" "unat (src + of_nat k) = unat src + k"
      using assms(1,2) j by (intro unat_add_small; simp add: copy_ok_def target_ok_def)+
    ultimately show False using assms(1,2) j by (auto simp: copy_ok_def)
  qed
  then show ?thesis by (simp add: written_def)
qed

lemma copy_step:
  assumes "copy_ok dest src n m" "i + k \<le> n" "A \<subseteq> {..<n}"
  shows "\<exists>bs. mem_read (copied dest src A m) (src + of_nat i) k = Some bs \<and> length bs = k \<and>
    mem_write (dest + of_nat i) bs (copied dest src A m) = Some (copied dest src (A \<union> {i..<i + k}) m)"
proof -
  define bs where "bs = map (\<lambda>j. the (m (src + of_nat (i + j)))) [0..<k]"
  have m: "m (src + of_nat (i + j)) = Some (bs ! j)" if "j < k" for j
  proof -
    have "\<forall>k < n. m (src + of_nat k) \<noteq> None" "i + j < n" using that assms(1,2) by (simp_all add: copy_ok_def target_ok_def)
    then have "m (src + of_nat (i + j)) \<noteq> None" by blast
    then show ?thesis using that by (auto simp: bs_def)
  qed
  have bs: "length bs = k" by (simp add: bs_def)
  have "mem_read (copied dest src A m) (src + of_nat i) k = Some bs"
    unfolding mem_read_eq using copied_source [OF assms(1) _ assms(3)] m assms(2) bs
    by (auto simp: add.assoc simp flip: of_nat_add)
  moreover have "mem_write (dest + of_nat i) bs (copied dest src A m) = Some (copied dest src (A \<union> {i..<i + length bs}) m)"
    using assms m bs by (intro written_write [of _ n]) (auto simp: copy_ok_def target_ok_def)
  ultimately show ?thesis using bs by auto
qed

lemma byte_bits: "8 \<le> k \<Longrightarrow> \<not> bit (b :: u8) k"
  using bit_imp_le_length [of b k] by auto

lemma le16_of_le16: "length bs = 2 \<Longrightarrow> le16 (of_le16 bs) = bs"
  by (auto simp: le16_def of_le16_def length_Suc_conv numeral_2_eq_2 bit_simps byte_bits intro!: bit_word_eqI)

lemma le32_of_le32:
  assumes "4 \<le> length bs"
  shows "le32 (of_le32 bs) = take 4 bs"
proof -
  have "le32 (of_le32 bs) = [bs ! 0, bs ! 1, bs ! 2, bs ! 3]"
    by (auto simp: le32_def of_le32_def bit_simps byte_bits intro!: bit_word_eqI)
  also have "\<dots> = take 4 bs" using assms by (intro nth_equalityI) (auto simp: less_Suc_eq numeral_eq_Suc)
  finally show ?thesis .
qed

lemma concat_words: "length bs = 4 * k \<Longrightarrow> concat (map (\<lambda>i. le32 (of_le32 (drop (4 * i) bs))) [0..<k]) = bs"
proof (induction k arbitrary: bs)
  case (Suc k)
  have "[0..<Suc k] = 0 # map Suc [0..<k]" by (simp add: upt_conv_Cons map_Suc_upt)
  then have "concat (map (\<lambda>i. le32 (of_le32 (drop (4 * i) bs))) [0..<Suc k]) =
      take 4 bs @ concat (map (\<lambda>i. le32 (of_le32 (drop (4 * i) (drop 4 bs)))) [0..<k])"
    using Suc.prems by (simp add: le32_of_le32 comp_def add.commute)
  then show ?case using Suc.IH [of "drop 4 bs"] Suc.prems by simp
qed simp

lemma copy_byte:
  assumes "copy_ok dest src n m" "i < n" "A \<subseteq> {..<n}"
  shows "memcpy_byte (dest + of_nat i) (src + of_nat i) (copied dest src A m) = Some (copied dest src (insert i A) m)"
proof -
  obtain bs where "mem_read (copied dest src A m) (src + of_nat i) 1 = Some bs" "length bs = 1"
    "mem_write (dest + of_nat i) bs (copied dest src A m) = Some (copied dest src (A \<union> {i..<i + 1}) m)"
    using copy_step [OF assms(1) _ assms(3), of i 1] assms(2) by auto
  then show ?thesis
    by (auto simp: memcpy_byte_def ldrb_def strb_def mem_read_eq length_Suc_conv ucast_down_ucast_id is_down simp del: mem_write.simps)
qed

lemma copy_hword:
  assumes "copy_ok dest src n m" "i + 2 \<le> n" "A \<subseteq> {..<n}" "take_bit 1 (dest + of_nat i) = 0" "take_bit 1 (src + of_nat i) = 0"
  shows "memcpy_hword (dest + of_nat i) (src + of_nat i) (copied dest src A m) = Some (copied dest src (A \<union> {i..<i + 2}) m)"
  using copy_step [OF assms(1,2,3)] assms(4,5)
  by (auto simp: memcpy_hword_def ldrh_def strh_def le16_of_le16 ucast_down_ucast_id is_down)

lemma copy_block:
  assumes "copy_ok dest src n m" "i + 4 * k \<le> n" "A \<subseteq> {..<n}" "take_bit 2 (dest + of_nat i) = 0" "take_bit 2 (src + of_nat i) = 0"
  shows "memcpy_block k (dest + of_nat i, src + of_nat i, copied dest src A m) =
    Some (dest + of_nat (i + 4 * k), src + of_nat (i + 4 * k), copied dest src (A \<union> {i..<i + 4 * k}) m)"
  using copy_step [OF assms(1,2,3)] assms(4,5)
  by (auto simp: memcpy_block_def ldm_def stm_def concat_words comp_def add.assoc)

text \<open>The bits of the length that the tail shifts into the carry, and the flag zero.\<close>

lemma tail_bits:
  fixes x :: u32
  shows "bit (push_bit 29 x) 31 = bit x 2" "bit (push_bit 1 (push_bit 29 x)) 31 = bit x 1"
    "push_bit 1 (push_bit 29 x) = 0 \<longleftrightarrow> \<not> bit x 0 \<and> \<not> bit x 1"
    "push_bit 1 (push_bit 1 (push_bit 29 x)) = 0 \<longleftrightarrow> \<not> bit x 0"
proof -
  show "bit (push_bit 29 x) 31 = bit x 2" "bit (push_bit 1 (push_bit 29 x)) 31 = bit x 1"
    by (simp_all add: bit_simps)
  have zero: "w = 0 \<longleftrightarrow> (\<forall>k < 32. \<not> bit w k)" for w :: u32 by (auto intro: bit_word_eqI)
  have bits: "bit (push_bit 1 (push_bit 29 x)) k \<longleftrightarrow> k = 30 \<and> bit x 0 \<or> k = 31 \<and> bit x 1"
    "bit (push_bit 1 (push_bit 1 (push_bit 29 x))) k \<longleftrightarrow> k = 31 \<and> bit x 0" if "k < 32" for k :: nat
  proof -
    have "k < 29 \<or> k = 29 \<or> k = 30 \<or> k = 31" using that by linarith
    then show "bit (push_bit 1 (push_bit 29 x)) k \<longleftrightarrow> k = 30 \<and> bit x 0 \<or> k = 31 \<and> bit x 1"
      "bit (push_bit 1 (push_bit 1 (push_bit 29 x))) k \<longleftrightarrow> k = 31 \<and> bit x 0"
      by (auto simp: bit_simps)
  qed
  have two: "(\<forall>k < 32 :: nat. \<not> (k = 30 \<and> p \<or> k = 31 \<and> q)) \<longleftrightarrow> \<not> p \<and> \<not> q"
    "(\<forall>k < 32 :: nat. \<not> (k = 31 \<and> q)) \<longleftrightarrow> \<not> q" for p q
    by (auto dest: spec [of _ 30] spec [of _ 31])
  have "(\<forall>k < 32 :: nat. \<not> bit (push_bit 1 (push_bit 29 x)) k) \<longleftrightarrow> (\<forall>k < 32 :: nat. \<not> (k = 30 \<and> bit x 0 \<or> k = 31 \<and> bit x 1))"
    "(\<forall>k < 32 :: nat. \<not> bit (push_bit 1 (push_bit 1 (push_bit 29 x))) k) \<longleftrightarrow> (\<forall>k < 32 :: nat. \<not> (k = 31 \<and> bit x 0))"
    by (meson bits)+
  then show "push_bit 1 (push_bit 29 x) = 0 \<longleftrightarrow> \<not> bit x 0 \<and> \<not> bit x 1"
    "push_bit 1 (push_bit 1 (push_bit 29 x)) = 0 \<longleftrightarrow> \<not> bit x 0"
    unfolding two zero [of "push_bit 1 (push_bit 29 x)"] zero [of "push_bit 1 (push_bit 1 (push_bit 29 x))"] by simp_all
qed

lemma tail_length:
  assumes "rem < 16"
  shows "rem = 8 * of_bool (bit (of_nat rem - 16 :: u32) 3) + 4 * of_bool (bit (of_nat rem - 16 :: u32) 2) +
    2 * of_bool (bit (of_nat rem - 16 :: u32) 1) + of_bool (bit (of_nat rem - 16 :: u32) 0)"
proof -
  have "\<forall>rem \<in> set [0..<16]. rem = 8 * of_bool (bit (of_nat rem - 16 :: u32) 3) + 4 * of_bool (bit (of_nat rem - 16 :: u32) 2) +
    2 * of_bool (bit (of_nat rem - 16 :: u32) 1) + of_bool (bit (of_nat rem - 16 :: u32) 0)" by code_simp
  then show ?thesis using assms by auto
qed


subsection \<open>The copy by words\<close>

lemma take_bit_plus:
  fixes a b :: u32
  assumes "k \<le> 32" "take_bit k b = 0"
  shows "take_bit k (a + b) = take_bit k a"
proof -
  have u: "unat (take_bit k w) = unat w mod 2 ^ k" for w :: u32 
    by (simp add: unsigned_take_bit_eq flip: take_bit_eq_mod)
  have "(2 :: nat) ^ k dvd 2 ^ 32" using assms(1) by (rule le_imp_power_dvd)
  then have "unat (take_bit k (a + b)) = (unat a + unat b) mod 2 ^ k"
    unfolding u by (simp add: unat_word_ariths mod_mod_cancel)
  moreover have "unat b mod 2 ^ k = 0" using u [of b] assms(2) by simp
  ultimately show ?thesis using u [of a] by (metis add.right_neutral mod_add_right_eq word_unat_eq_iff)
qed

lemma take_bit_1_of_2: "take_bit 2 a = 0 \<Longrightarrow> take_bit 1 a = 0" for a :: u32
  using take_bit_take_bit [of 1 2 a] by simp

lemma unat_offset_add:
  assumes "target_ok dest n m" "k \<le> n"
  shows "unat (dest + of_nat k) = unat dest + k"
proof -
  have "unat dest + n < 2 ^ 32" using assms(1) by (simp add: target_ok_def)
  then have "unat (of_nat k :: u32) = k" "unat dest + k < 2 ^ 32" using assms(2) unat_offset [of k] by simp_all
  then show ?thesis by (subst unat_add_lem [THEN iffD1]; simp)
qed

lemma end_nonzero:
  assumes "target_ok dest n m" "k + 2 \<le> n"
  shows "dest + of_nat k + 2 \<noteq> 0"
proof -
  have "unat (dest + of_nat (k + 2)) = unat dest + (k + 2)" using assms by (rule unat_offset_add)
  then have "dest + of_nat (k + 2) \<noteq> 0" by (intro notI) (simp del: of_nat_add)
  then show ?thesis by (simp add: ac_simps)
qed

lemma count_nonzero: "target_ok dest n m \<Longrightarrow> Suc k \<le> n \<Longrightarrow> (of_nat (Suc k) :: u32) \<noteq> 0"
  using unat_offset [of "Suc k"] by (intro notI) (auto simp: target_ok_def simp del: of_nat_Suc)

lemma lessThan_step: "{..<i} \<union> {i..<i + k} = {..<i + k :: nat}"
  by auto

lemma aligned_offset:
  assumes "take_bit 2 (a + of_nat i) = 0"
  shows "take_bit 2 (a + of_nat (i + 4 * k) :: u32) = 0"
proof -
  have "(of_nat (4 * k) :: u32) = push_bit 2 (of_nat k)" by (simp add: push_bit_eq_mult)
  then have "take_bit 2 (of_nat (4 * k) :: u32) = 0" by (simp add: take_bit_push_bit)
  then show ?thesis using assms take_bit_plus [of 2 "of_nat (4 * k)" "a + of_nat i"] by (simp add: add.assoc)
qed

lemma copy_next:
  assumes "copy_ok dest src n m" "i + 4 * k \<le> n" "take_bit 2 (dest + of_nat i) = 0" "take_bit 2 (src + of_nat i) = 0"
  shows "memcpy_block k (dest + of_nat i, src + of_nat i, copied dest src {..<i} m) =
      Some (dest + of_nat (i + 4 * k), src + of_nat (i + 4 * k), copied dest src {..<i + 4 * k} m)"
    "take_bit 2 (dest + of_nat (i + 4 * k)) = 0" "take_bit 2 (src + of_nat (i + 4 * k)) = 0"
proof -
  show "memcpy_block k (dest + of_nat i, src + of_nat i, copied dest src {..<i} m) =
      Some (dest + of_nat (i + 4 * k), src + of_nat (i + 4 * k), copied dest src {..<i + 4 * k} m)"
    using copy_block [OF assms(1,2) _ assms(3,4), of "{..<i}"] assms(2) by (simp add: lessThan_step)
  show "take_bit 2 (dest + of_nat (i + 4 * k)) = 0" "take_bit 2 (src + of_nat (i + 4 * k)) = 0"
    using assms(3,4) by (simp_all only: aligned_offset)
qed

lemma copy_next_if:
  assumes "copy_ok dest src n m" "i + 4 * k * of_bool b \<le> n" "take_bit 2 (dest + of_nat i) = 0" "take_bit 2 (src + of_nat i) = 0"
  shows "(if b then memcpy_block k (dest + of_nat i, src + of_nat i, copied dest src {..<i} m)
      else Some (dest + of_nat i, src + of_nat i, copied dest src {..<i} m)) =
    Some (dest + of_nat (i + 4 * k * of_bool b), src + of_nat (i + 4 * k * of_bool b), copied dest src {..<i + 4 * k * of_bool b} m)"
    "take_bit 2 (dest + of_nat (i + 4 * k * of_bool b)) = 0" "take_bit 2 (src + of_nat (i + 4 * k * of_bool b)) = 0"
  using copy_next [of dest src n m i k] assms by (cases b; simp)+

lemma memcpy_16_step:
  "\<not> r2 < 16 \<Longrightarrow> memcpy_16 r0 r1 r2 m = Option.bind (memcpy_block 4 (r0, r1, m)) (\<lambda>(r0, r1, m). memcpy_16 r0 r1 (r2 - 16) m)"
  by (subst memcpy_16.simps) (simp add: memcpy_block_def)

lemma memcpy_16_copies:
  assumes "copy_ok dest src n m"
  shows "i \<le> n \<Longrightarrow> take_bit 2 (dest + of_nat i) = 0 \<Longrightarrow> take_bit 2 (src + of_nat i) = 0 \<Longrightarrow>
    \<exists>j. j \<le> n \<and> n - j < 16 \<and> take_bit 2 (dest + of_nat j) = 0 \<and> take_bit 2 (src + of_nat j) = 0 \<and>
      memcpy_16 (dest + of_nat i) (src + of_nat i) (of_nat (n - i)) (copied dest src {..<i} m) =
        Some (dest + of_nat j, src + of_nat j, of_nat (n - j) - 16, copied dest src {..<j} m)"
proof (induction "n - i" arbitrary: i rule: less_induct)
  case less
  have n: "unat (of_nat (n - i) :: u32) = n - i"
    using assms by (intro unat_offset) (auto simp: copy_ok_def target_ok_def)
  show ?case
  proof (cases "n - i < 16")
    case True
    then have "(of_nat (n - i) :: u32) < 16" using n by (simp add: word_less_nat_alt)
    then have "memcpy_16 (dest + of_nat i) (src + of_nat i) (of_nat (n - i)) (copied dest src {..<i} m) =
        Some (dest + of_nat i, src + of_nat i, of_nat (n - i) - 16, copied dest src {..<i} m)"
      by (subst memcpy_16.simps) (simp only: if_True)
    then show ?thesis using True less.prems by blast
  next
    case False
    then have lt: "\<not> (of_nat (n - i) :: u32) < 16" using n by (simp add: word_less_nat_alt)
    have le: "i + 4 * 4 \<le> n" and len: "of_nat (n - i) - 16 = (of_nat (n - (i + 4 * 4)) :: u32)"
      using False by (simp_all add: of_nat_diff)
    note next16 = copy_next [OF assms le less.prems(2,3)]
    have "memcpy_16 (dest + of_nat i) (src + of_nat i) (of_nat (n - i)) (copied dest src {..<i} m) =
        memcpy_16 (dest + of_nat (i + 4 * 4)) (src + of_nat (i + 4 * 4)) (of_nat (n - (i + 4 * 4))) (copied dest src {..<i + 4 * 4} m)"
      unfolding memcpy_16_step [OF lt] next16(1) len by (simp only: bind.simps prod.case)
    moreover have "n - (i + 4 * 4) < n - i" using False by simp
    ultimately show ?thesis using less.hyps [OF _ le next16(2,3)] by (simp only:)
  qed
qed

lemma memcpy_tail_copies:
  assumes ok: "copy_ok dest src n m" and j: "j \<le> n" "n - j < 16"
    and al: "take_bit 2 (dest + of_nat j) = 0" "take_bit 2 (src + of_nat j) = 0"
  shows "memcpy_tail (dest + of_nat j) (src + of_nat j) (of_nat (n - j) - 16) (copied dest src {..<j} m) =
    Some (copied dest src {..<n} m)"
proof -
  define x :: u32 where "x = of_nat (n - j) - 16"
  define k where "k = j + 8 * of_bool (bit x 3) + 4 * of_bool (bit x 2)"
  have n: "n = k + 2 * of_bool (bit x 1) + of_bool (bit x 0)"
    using tail_length [OF j(2), folded x_def] j(1) unfolding k_def by linarith
  have k: "j + 4 * 2 * of_bool (bit x 3) + 4 * 1 * of_bool (bit x 2) = k" by (simp add: k_def)
  have le: "j + 4 * 2 * of_bool (bit x 3) \<le> n" "j + 4 * 2 * of_bool (bit x 3) + 4 * 1 * of_bool (bit x 2) \<le> n"
    using n by (simp_all add: k_def)
  note one = copy_next_if [OF ok le(1) al]
  note two = copy_next_if [OF ok le(2) one(2,3), unfolded k]
  note al1 = take_bit_1_of_2 [OF two(2)] take_bit_1_of_2 [OF two(3)]
  have hw: "memcpy_hword (dest + of_nat k) (src + of_nat k) (copied dest src {..<k} m) = Some (copied dest src {..<k + 2} m)" if "bit x 1"
    using copy_hword [OF ok _ _ al1, of "{..<k}"] that n unfolding lessThan_step by simp
  have bt: "memcpy_byte (dest + of_nat i) (src + of_nat i) (copied dest src {..<i} m) = Some (copied dest src {..<Suc i} m)" if "i < n" for i
    using copy_byte [OF ok that, of "{..<i}"] that by (simp add: lessThan_Suc)
  have nz: "dest + of_nat k + 2 \<noteq> 0" if "bit x 1" using end_nonzero [of dest n m k] ok that n by (simp add: copy_ok_def)
  show ?thesis
    unfolding x_def [symmetric] memcpy_tail_def Let_def one(1) bind.simps prod.case tail_bits two(1)
    using n hw nz bt [of k] bt [of "k + 2"]
    by (cases "bit x 0"; cases "bit x 1"; simp add: ac_simps)
qed


subsection \<open>The copies by bytes\<close>

lemma short_offsets: "n < 8 \<Longrightarrow> drop (7 - n) [6, 5, 4, 3, 2, 1, 0 :: u32] = map of_nat (rev [0..<n])"
proof -
  have "\<forall>n \<in> set [0..<8]. drop (7 - n) [6, 5, 4, 3, 2, 1, 0 :: u32] = map of_nat (rev [0..<n])" by code_simp
  then show "n < 8 \<Longrightarrow> ?thesis" by auto
qed

lemma copy_down:
  assumes "copy_ok dest src n m" "Suc i \<le> n"
  shows "memcpy_byte (dest + of_nat i) (src + of_nat i) (copied dest src {Suc i..<n} m) = Some (copied dest src {i..<n} m)"
proof -
  have "insert i {Suc i..<n} = {i..<n}" "{Suc i..<n} \<subseteq> {..<n}" using assms(2) by auto
  then show ?thesis using copy_byte [OF assms(1), of i "{Suc i..<n}"] assms(2) by simp
qed

lemma foldM_copies:
  assumes "copy_ok dest src n m"
  shows "k \<le> n \<Longrightarrow> foldM (\<lambda>k m. memcpy_byte (dest + k) (src + k) m) (map of_nat (rev [0..<k])) (copied dest src {k..<n} m) =
    Some (copied dest src {..<n} m)"
proof (induction k)
  case (Suc k)
  then show ?case using copy_down [OF assms Suc.prems] by simp
qed (simp add: atLeast0LessThan)

lemma memcpy_slow_lp_copies:
  assumes "copy_ok dest src n m"
  shows "Suc k \<le> n \<Longrightarrow> memcpy_slow_lp dest src (of_nat (Suc k)) (copied dest src {Suc k..<n} m) =
    Some (copied dest src {..<n} m)"
proof (induction k)
  case 0
  then show ?case using copy_down [OF assms 0] by (subst memcpy_slow_lp.simps) (simp add: atLeast0LessThan)
next
  case (Suc k)
  have "(of_nat (Suc k) :: u32) \<noteq> 0" using assms Suc.prems by (intro count_nonzero [of dest n m]) (auto simp: copy_ok_def)
  moreover have "of_nat (Suc (Suc k)) - 1 = (of_nat (Suc k) :: u32)" by simp
  ultimately show ?case
    using copy_down [OF assms Suc.prems] Suc by (subst memcpy_slow_lp.simps) (simp only: Let_def bind.simps if_False Suc_leD)
qed

lemma memcpy_slow_copies:
  assumes "copy_ok dest src (unat c) m" "c \<noteq> 0"
  shows "memcpy_slow_lp dest src c m = Some (copied dest src {..<unat c} m)"
proof -
  obtain k where k: "unat c = Suc k" using assms(2) by (cases "unat c") (auto simp: unat_eq_0)
  then have c: "of_nat (Suc k) = c" by (simp flip: k)
  show ?thesis using memcpy_slow_lp_copies [OF assms(1), of k] unfolding k c by simp
qed

lemma memcpy_short_copies:
  assumes "copy_ok dest src (unat c) m" "c < 8"
  shows "memcpy_short dest src c m = Some (copied dest src {..<unat c} m)"
proof -
  have "unat c < 8" using assms(2) by (simp add: word_less_nat_alt)
  then show ?thesis
    unfolding memcpy_short_def short_offsets [OF \<open>unat c < 8\<close>] using foldM_copies [OF assms(1) order_refl] by simp
qed

subsection \<open>The head\<close>

lemma low_bits:
  fixes w :: u32
  shows "bit w 0 \<longleftrightarrow> unat w mod 2 = 1" "bit w 1 \<longleftrightarrow> unat w div 2 mod 2 = 1"
    "take_bit 1 w = 0 \<longleftrightarrow> unat w mod 2 = 0" "take_bit 2 w = 0 \<longleftrightarrow> unat w mod 4 = 0"
    "unat (w + 1) mod 4 = (unat w + 1) mod 4" "unat (w + 2) mod 4 = (unat w + 2) mod 4"
proof -
  have b: "bit w k = bit (unat w) k" for k by (simp add: bit_unsigned_iff bit_imp_le_length)
  show "bit w 0 \<longleftrightarrow> unat w mod 2 = 1" "bit w 1 \<longleftrightarrow> unat w div 2 mod 2 = 1"
    unfolding b by (simp_all add: bit_iff_odd odd_iff_mod_2_eq_one)
  have "unat (take_bit k w) = unat w mod 2 ^ k" for k by (simp add: unsigned_take_bit_eq flip: take_bit_eq_mod)
  then have t: "take_bit k w = 0 \<longleftrightarrow> unat w mod 2 ^ k = 0" for k by (metis unat_eq_0)
  show "take_bit 1 w = 0 \<longleftrightarrow> unat w mod 2 = 0" "take_bit 2 w = 0 \<longleftrightarrow> unat w mod 4 = 0"
    using t [of 1] t [of 2] by simp_all
  show "unat (w + 1) mod 4 = (unat w + 1) mod 4" "unat (w + 2) mod 4 = (unat w + 2) mod 4"
    by (simp_all add: unat_word_ariths mod_mod_cancel)
qed

lemma head_aligned:
  fixes w :: u32
  assumes "w' = (if bit w 0 then w + 1 else w)" "w'' = (if bit w' 1 then w' + 2 else w')"
  shows "take_bit 1 w' = 0" "take_bit 2 w'' = 0"
proof -
  have "unat w' mod 4 = (if unat w mod 2 = 1 then (unat w + 1) mod 4 else unat w mod 4)"
    using assms(1) low_bits(1,5) [of w] by simp
  then have w': "unat w' mod 2 = 0" by (simp split: if_splits; presburger)
  then show "take_bit 1 w' = 0" by (simp only: low_bits)
  have "unat w'' mod 4 = (if unat w' div 2 mod 2 = 1 then (unat w' + 2) mod 4 else unat w' mod 4)"
    using assms(2) low_bits(2,6) [of w'] by simp
  then have "unat w'' mod 4 = 0" using w' by (simp split: if_splits; presburger)
  then show "take_bit 2 w'' = 0" by (simp only: low_bits)
qed

text \<open>The bytes that the head handles.\<close>

lemma head_offsets:
  fixes w :: u32
  defines "i \<equiv> of_bool (bit w 0) :: nat"
  defines "j \<equiv> i + 2 * of_bool (bit (w + of_nat i) 1)"
  shows "take_bit 1 (w + of_nat i) = 0" "take_bit 2 (w + of_nat j) = 0" "i \<le> 1" "j \<le> 3"
  using head_aligned [OF refl refl, of w] by (simp_all add: i_def j_def ac_simps split: if_splits)

lemma memcpy_aligned_copies:
  assumes "copy_ok dest src n m" "i \<le> n" "take_bit 2 (dest + of_nat i) = 0" "take_bit 2 (src + of_nat i) = 0"
  shows "memcpy_aligned (dest + of_nat i) (src + of_nat i) (of_nat (n - i)) (copied dest src {..<i} m) = Some (copied dest src {..<n} m)"
  using memcpy_16_copies [OF assms] memcpy_tail_copies [OF assms(1)] by (auto simp: memcpy_aligned_def)

lemma coaligned:
  fixes a b :: u32
  assumes "push_bit 30 (a - b) = 0" "take_bit k a = 0" "k \<le> 2"
  shows "take_bit k b = 0"
proof -
  have "take_bit 2 (a - b) = 0"
  proof (rule bit_word_eqI)
    fix n assume "n < LENGTH(32)"
    have "\<not> bit (push_bit 30 (a - b)) (n + 30)" using assms(1) by simp
    then show "bit (take_bit 2 (a - b)) n = bit (0 :: u32) n" by (auto simp: bit_simps)
  qed
  then have "take_bit k (a - b) = 0" using assms(3) take_bit_take_bit [of k 2 "a - b"] by (simp add: min_def)
  then have "take_bit k (b + (a - b)) = take_bit k b" using assms(3) by (intro take_bit_plus) auto
  then show ?thesis using assms(2) by simp
qed

lemma memcpy_asm_copies:
  assumes ok: "copy_ok dest src (unat n) m"
  shows "memcpy_asm dest src n m = Some (dest, copied dest src {..<unat n} m)"
proof -
  consider "n < 8" | "\<not> n < 8" "push_bit 30 (dest - src) \<noteq> 0" | "\<not> n < 8" "push_bit 30 (dest - src) = 0" by blast
  then show ?thesis
  proof cases
    case 1
    then show ?thesis using memcpy_short_copies [OF ok] by (simp add: memcpy_asm_def)
  next
    case 2
    then have "n \<noteq> 0" by auto
    then show ?thesis using 2 memcpy_slow_copies [OF ok] by (simp add: memcpy_asm_def)
  next
    case 3
    have n: "8 \<le> unat n" using 3(1) by (simp add: word_less_nat_alt)
    define i where "i = (of_bool (bit dest 0) :: nat)"
    define j where "j = i + 2 * of_bool (bit (dest + of_nat i) 1)"
    note al = head_offsets [of dest, folded i_def, folded j_def]
    have co: "push_bit 30 ((dest + of_nat k) - (src + of_nat k)) = 0" for k using 3(2) by simp
    have al': "take_bit 1 (src + of_nat i) = 0" "take_bit 2 (src + of_nat j) = 0"
      using coaligned [OF co al(1)] coaligned [OF co al(2)] by simp_all
    have one: "(if bit dest 0 then map_option (Pair (dest + 1)) (memcpy_byte dest src m) else Some (dest, m)) =
        Some (dest + of_nat i, copied dest src {..<i} m)"
      using copy_byte [OF ok, of 0 "{}"] n by (auto simp: i_def lessThan_Suc)
    have two: "(if bit (dest + of_nat i) 1
          then map_option (Pair (dest + of_nat i + 2)) (memcpy_hword (dest + of_nat i) (src + of_nat i) (copied dest src {..<i} m))
          else Some (dest + of_nat i, copied dest src {..<i} m)) =
        Some (dest + of_nat j, copied dest src {..<j} m)"
      using copy_hword [OF ok _ _ al(1) al'(1), of "{..<i}"] n al(3,4) unfolding lessThan_step
      by (cases "bit (dest + of_nat i) 1") (auto simp: j_def add.assoc add.commute)
    have jn: "j \<le> unat n" using n al(4) by simp
    have len: "n + (dest - (dest + of_nat j)) = of_nat (unat n - j)" using jn by (simp add: of_nat_diff)
    have src: "dest + (src - dest) = src" "dest + of_nat k + (src - dest) = src + of_nat k"
      "src - dest + (dest + of_nat k) = src + of_nat k" for k by simp_all
    show ?thesis
      unfolding memcpy_asm_def Let_def src
      using 3 memcpy_aligned_copies [OF ok jn al(2) al'(2)]
      by (simp only: if_False if_True not_True_eq_False one two bind.simps prod.case src len option.map refl)
  qed
qed

lemma memcpy_slow_all:
  "copy_ok dest src (unat n) m \<Longrightarrow> memcpy_slow dest src n m = Some (dest, copied dest src {..<unat n} m)"
  using memcpy_slow_copies by (simp add: memcpy_slow_def)

lemma memcpy_44_copies:
  assumes ok: "copy_ok dest src (unat n) m" and al: "take_bit 2 dest = 0" "take_bit 2 src = 0"
  shows "memcpy_44 dest src n m = Some (dest, copied dest src {..<unat n} m)"
  using memcpy_short_copies [OF ok] memcpy_aligned_copies [OF ok, of 0] al by (simp add: memcpy_44_def)

subsection \<open>Fills\<close>

abbreviation filled :: "u32 \<Rightarrow> u8 \<Rightarrow> nat set \<Rightarrow> memory \<Rightarrow> memory" where
  "filled dest b A m \<equiv> written dest (\<lambda>k. Some b) A m"

lemma fill_step:
  assumes "target_ok dest n m" "i + k \<le> n"
  shows "mem_write (dest + of_nat i) (replicate k b) (filled dest b A m) = Some (filled dest b (A \<union> {i..<i + k}) m)"
  using written_write [OF assms(1), of i "replicate k b" "\<lambda>k. Some b" A] assms(2) by simp

text \<open>The byte in all the bytes of a word.\<close>

definition pattern :: "u8 \<Rightarrow> u32" where
  "pattern b = of_le32 [b, b, b, b]"

lemma low_bytes: "le16 (ucast w) = take 2 (le32 w)" "ucast w = le32 w ! 0" for w :: u32
  by (auto simp: le16_def le32_def bit_simps intro!: bit_word_eqI)

lemma pattern_bytes: "le32 (pattern b) = [b, b, b, b]" "le16 (ucast (pattern b)) = [b, b]" "ucast (pattern b) = b"
proof -
  show "le32 (pattern b) = [b, b, b, b]" using le32_of_le32 [of "[b, b, b, b]"] by (simp add: pattern_def)
  then show "le16 (ucast (pattern b)) = [b, b]" "ucast (pattern b) = b" by (simp_all add: low_bytes)
qed

lemma half_pattern:
  fixes r1 :: u32
  defines "h \<equiv> take_bit 8 r1 OR push_bit 8 (take_bit 8 r1)"
  shows "le16 (ucast h) = [ucast r1, ucast r1]" "h OR rev_bytes h = pattern (ucast r1)"
proof -
  have h: "h = of_le32 [ucast r1, ucast r1, 0, 0]"
    by (auto simp: h_def of_le32_def bit_simps intro!: bit_word_eqI)
  then have le: "le32 h = [ucast r1, ucast r1, 0, 0]" using le32_of_le32 [of "[ucast r1, ucast r1, 0, 0]"] by simp
  then show "le16 (ucast h) = [ucast r1, ucast r1]" by (simp add: low_bytes)
  have "rev_bytes h = of_le32 [0, 0, ucast r1, ucast r1]" by (simp add: rev_bytes_def le)
  then show "h OR rev_bytes h = pattern (ucast r1)" by (simp add: h pattern_def of_le32_def or.assoc)
qed

lemma fill_byte:
  assumes "target_ok dest n m" "i < n" "ucast r1 = b"
  shows "strb r1 (dest + of_nat i) (filled dest b A m) = Some (filled dest b (insert i A) m)"
  using fill_step [OF assms(1), of i 1 b A] assms(2,3) by (simp add: strb_def del: mem_write.simps)

lemma fill_hword:
  assumes "target_ok dest n m" "i + 2 \<le> n" "le16 (ucast r1) = [b, b]" "take_bit 1 (dest + of_nat i) = 0"
  shows "strh r1 (dest + of_nat i) (filled dest b A m) = Some (filled dest b (A \<union> {i..<i + 2}) m)"
  using fill_step [OF assms(1,2), of b A] assms(3,4) by (simp add: strh_def numeral_2_eq_2 del: mem_write.simps)

lemma pattern_words: "concat (map le32 (replicate k (pattern b))) = replicate (4 * k) b"
  by (induction k) (simp_all add: pattern_bytes eval_nat_numeral)

lemma fill_next:
  assumes "target_ok dest n m" "i + 4 * k \<le> n" "take_bit 2 (dest + of_nat i) = 0"
  shows "stm (replicate k (pattern b)) (dest + of_nat i) (filled dest b {..<i} m) = Some (filled dest b {..<i + 4 * k} m)"
  using fill_step [OF assms(1,2), of b "{..<i}"] assms(3) unfolding lessThan_step by (simp add: stm_def pattern_words del: map_replicate)

lemma fill_next_if:
  assumes "target_ok dest n m" "i + 4 * k * of_bool c \<le> n" "take_bit 2 (dest + of_nat i) = 0"
  shows "(if c then memset_block (replicate k (pattern b)) (dest + of_nat i, filled dest b {..<i} m)
      else Some (dest + of_nat i, filled dest b {..<i} m)) =
    Some (dest + of_nat (i + 4 * k * of_bool c), filled dest b {..<i + 4 * k * of_bool c} m)"
  using fill_next [of dest n m i k b] assms by (cases c) (simp_all add: memset_block_def add.assoc)

lemma memset_16_fills:
  assumes "target_ok dest n m"
  shows "i \<le> n \<Longrightarrow> take_bit 2 (dest + of_nat i) = 0 \<Longrightarrow>
    \<exists>j. j \<le> n \<and> n - j < 16 \<and> take_bit 2 (dest + of_nat j) = 0 \<and>
      memset_16 (dest + of_nat i) (replicate 4 (pattern b)) (of_nat (n - i)) (filled dest b {..<i} m) =
        Some (dest + of_nat j, of_nat (n - j) - 16, filled dest b {..<j} m)"
proof (induction "n - i" arbitrary: i rule: less_induct)
  case less
  have n: "unat (of_nat (n - i) :: u32) = n - i"
    using assms by (intro unat_offset) (auto simp: target_ok_def)
  show ?case
  proof (cases "n - i < 16")
    case True
    then have "(of_nat (n - i) :: u32) < 16" using n by (simp add: word_less_nat_alt)
    then have "memset_16 (dest + of_nat i) (replicate 4 (pattern b)) (of_nat (n - i)) (filled dest b {..<i} m) =
        Some (dest + of_nat i, of_nat (n - i) - 16, filled dest b {..<i} m)"
      by (subst memset_16.simps) (simp only: if_True)
    then show ?thesis using True less.prems by blast
  next
    case False
    then have lt: "\<not> (of_nat (n - i) :: u32) < 16" using n by (simp add: word_less_nat_alt)
    have le: "i + 4 * 4 \<le> n" and len: "of_nat (n - i) - 16 = (of_nat (n - (i + 4 * 4)) :: u32)"
      and addr: "dest + of_nat i + 16 = dest + of_nat (i + 4 * 4)"
      using False by (simp_all add: of_nat_diff)
    have "memset_16 (dest + of_nat i) (replicate 4 (pattern b)) (of_nat (n - i)) (filled dest b {..<i} m) =
        memset_16 (dest + of_nat (i + 4 * 4)) (replicate 4 (pattern b)) (of_nat (n - (i + 4 * 4))) (filled dest b {..<i + 4 * 4} m)"
      by (subst memset_16.simps) (simp only: lt if_False fill_next [OF assms le less.prems(2)] bind.simps len addr)
    moreover have "n - (i + 4 * 4) < n - i" using False by simp
    ultimately show ?thesis using less.hyps [OF _ le aligned_offset [OF less.prems(2)]] by (simp only:)
  qed
qed

lemma memset_tail_fills:
  assumes ok: "target_ok dest n m" and j: "j \<le> n" "n - j < 16" and al: "take_bit 2 (dest + of_nat j) = 0"
  shows "memset_tail (dest + of_nat j) (pattern b) (of_nat (n - j) - 16) (filled dest b {..<j} m) = Some (filled dest b {..<n} m)"
proof -
  define x :: u32 where "x = of_nat (n - j) - 16"
  define k where "k = j + 8 * of_bool (bit x 3) + 4 * of_bool (bit x 2)"
  have n: "n = k + 2 * of_bool (bit x 1) + of_bool (bit x 0)"
    using tail_length [OF j(2), folded x_def] j(1) unfolding k_def by linarith
  have k: "j + 4 * 2 * of_bool (bit x 3) + 4 * 1 * of_bool (bit x 2) = k" by (simp add: k_def)
  have le: "j + 4 * 2 * of_bool (bit x 3) \<le> n" "j + 4 * 2 * of_bool (bit x 3) + 4 * 1 * of_bool (bit x 2) \<le> n"
    using n by (simp_all add: k_def)
  have al3: "take_bit 2 (dest + of_nat (j + 4 * 2 * of_bool (bit x 3))) = 0"
    using aligned_offset [OF al, of "2 * of_bool (bit x 3)"] by (simp only: mult.assoc)
  then have al2: "take_bit 2 (dest + of_nat k) = 0"
    using aligned_offset [OF al3, of "1 * of_bool (bit x 2)"] k by (simp only: mult.assoc)
  have regs: "[pattern b, pattern b] = replicate 2 (pattern b)" "[pattern b] = replicate 1 (pattern b)"
    by (simp_all add: numeral_2_eq_2)
  note one = fill_next_if [OF ok le(1) al, of b, folded regs(1)]
  note two = fill_next_if [OF ok le(2) al3, of b, unfolded k, folded regs(2)]
  have hw: "strh (pattern b) (dest + of_nat k) (filled dest b {..<k} m) = Some (filled dest b {..<k + 2} m)" if "bit x 1"
    using fill_hword [OF ok _ pattern_bytes(2) take_bit_1_of_2 [OF al2], of b "{..<k}"] that n unfolding lessThan_step by simp
  have bt: "strb (pattern b) (dest + of_nat i) (filled dest b {..<i} m) = Some (filled dest b {..<Suc i} m)" if "i < n" for i
    using fill_byte [OF ok that pattern_bytes(3), of b "{..<i}"] by (simp add: lessThan_Suc)
  have nz: "dest + of_nat k + 2 \<noteq> 0" if "bit x 1" using end_nonzero [OF ok, of k] that n by simp
  show ?thesis
    unfolding x_def [symmetric] memset_tail_def Let_def one bind.simps prod.case tail_bits two
    using n hw nz bt [of k] bt [of "k + 2"]
    by (cases "bit x 0"; cases "bit x 1"; simp add: ac_simps)
qed

lemma memset_word_fills:
  assumes "target_ok dest n m" "i \<le> n" "take_bit 2 (dest + of_nat i) = 0"
  shows "memset_word (dest + of_nat i) (take_bit 8 v OR push_bit 8 (take_bit 8 v)) (of_nat (n - i)) (filled dest (ucast v) {..<i} m) =
    Some (filled dest (ucast v) {..<n} m)"
proof -
  have regs: "[p, p, p, p] = replicate 4 p" for p :: u32 by (simp add: eval_nat_numeral)
  show ?thesis
    using memset_16_fills [OF assms, of "ucast v"] memset_tail_fills [OF assms(1), of _ "ucast v"]
    by (auto simp: memset_word_def half_pattern(2) regs)
qed

lemma fill_down:
  assumes "target_ok dest n m" "Suc i \<le> n"
  shows "strb v (dest + of_nat i) (filled dest (ucast v) {Suc i..<n} m) = Some (filled dest (ucast v) {i..<n} m)"
proof -
  have "insert i {Suc i..<n} = {i..<n}" using assms(2) by auto
  then show ?thesis using fill_byte [OF assms(1) _ refl, of i v "{Suc i..<n}"] assms(2) by simp
qed

lemma foldM_fills:
  assumes "target_ok dest n m"
  shows "k \<le> n \<Longrightarrow> foldM (\<lambda>k m. strb v (dest + k) m) (map of_nat (rev [0..<k])) (filled dest (ucast v) {k..<n} m) =
    Some (filled dest (ucast v) {..<n} m)"
proof (induction k)
  case (Suc k)
  then show ?case using fill_down [OF assms Suc.prems] by simp
qed (simp add: atLeast0LessThan)

lemma memset_slow_lp_fills:
  assumes "target_ok dest n m"
  shows "Suc k \<le> n \<Longrightarrow> memset_slow_lp dest v (of_nat (Suc k)) (filled dest (ucast v) {Suc k..<n} m) =
    Some (filled dest (ucast v) {..<n} m)"
proof (induction k)
  case 0
  then show ?case using fill_down [OF assms 0] by (subst memset_slow_lp.simps) (simp add: atLeast0LessThan)
next
  case (Suc k)
  have "(of_nat (Suc k) :: u32) \<noteq> 0" using assms Suc.prems by (intro count_nonzero [of dest n m]) auto
  moreover have "of_nat (Suc (Suc k)) - 1 = (of_nat (Suc k) :: u32)" by simp
  ultimately show ?case
    using fill_down [OF assms Suc.prems] Suc by (subst memset_slow_lp.simps) (simp only: Let_def bind.simps if_False Suc_leD)
qed

lemma memset_slow_all:
  assumes "target_ok dest (unat c) m"
  shows "memset_slow dest v c m = Some (dest, filled dest (ucast v) {..<unat c} m)"
proof (cases "c = 0")
  case False
  then obtain k where k: "unat c = Suc k" by (cases "unat c") (auto simp: unat_eq_0)
  then have c: "of_nat (Suc k) = c" by (simp flip: k)
  show ?thesis using memset_slow_lp_fills [OF assms, of k] False unfolding k c memset_slow_def by simp
qed (simp add: memset_slow_def)

lemma memset_short_fills:
  assumes "target_ok dest (unat c) m" "c < 8"
  shows "memset_short dest v c m = Some (filled dest (ucast v) {..<unat c} m)"
proof -
  have "unat c < 8" using assms(2) by (simp add: word_less_nat_alt)
  then show ?thesis
    unfolding memset_short_def short_offsets [OF \<open>unat c < 8\<close>] using foldM_fills [OF assms(1) order_refl] by simp
qed

lemma memset_4_fills:
  assumes "target_ok dest (unat n) m" "take_bit 2 dest = 0"
  shows "memset_4 dest v n m = Some (dest, filled dest (ucast v) {..<unat n} m)"
  using memset_word_fills [OF assms(1), of 0] assms(2) by (simp add: memset_4_def)

lemma memset_asm_fills:
  assumes ok: "target_ok dest (unat n) m"
  shows "memset_asm dest v n m = Some (dest, filled dest (ucast v) {..<unat n} m)"
proof (cases "n < 8")
  case True
  then show ?thesis using memset_short_fills [OF ok] by (simp add: memset_asm_def)
next
  case False
  then have n: "8 \<le> unat n" by (simp add: word_less_nat_alt)
  define h where "h = take_bit 8 v OR push_bit 8 (take_bit 8 v)"
  define i where "i = (of_bool (bit dest 0) :: nat)"
  define j where "j = i + 2 * of_bool (bit (dest + of_nat i) 1)"
  note al = head_offsets [of dest, folded i_def, folded j_def]
  have one: "(if bit dest 0 then map_option (Pair (dest + 1)) (strb v dest m) else Some (dest, m)) =
      Some (dest + of_nat i, filled dest (ucast v) {..<i} m)"
    using fill_byte [OF ok _ refl, of 0 v "{}"] n by (auto simp: i_def lessThan_Suc)
  have two: "(if bit (dest + of_nat i) 1
        then map_option (Pair (dest + of_nat i + 2)) (strh h (dest + of_nat i) (filled dest (ucast v) {..<i} m))
        else Some (dest + of_nat i, filled dest (ucast v) {..<i} m)) =
      Some (dest + of_nat j, filled dest (ucast v) {..<j} m)"
    using fill_hword [OF ok _ half_pattern(1) al(1), of v "{..<i}"] n al(3,4) unfolding lessThan_step
    by (cases "bit (dest + of_nat i) 1") (auto simp: j_def h_def add.assoc add.commute)
  have jn: "j \<le> unat n" using n al(4) by simp
  have len: "n + (dest - (dest + of_nat j)) = of_nat (unat n - j)" using jn by (simp add: of_nat_diff)
  show ?thesis
    unfolding memset_asm_def Let_def
    using False memset_word_fills [OF ok jn al(2), of v]
    by (simp only: if_False one two bind.simps prod.case len option.map refl flip: h_def)
qed

text \<open>\<open>memset0\<close> of \<open>usb_device_tiny/runtime.c\<close>, which the boot code calls.\<close>

definition memset0 :: "u32 \<Rightarrow> u32 \<Rightarrow> memory \<Rightarrow> memory option" where
  "memset0 dest n m = map_option snd (memset_asm dest 0 n m)"

lemma memset0_clears:
  "target_ok dest (unat n) m \<Longrightarrow> memset0 dest n m = Some (\<lambda>a. if unat (a - dest) < unat n then Some 0 else m a)"
  by (simp add: memset0_def memset_asm_fills) (simp add: written_def)

subsection \<open>The functions against the loops\<close>

text \<open>C40: On mapped, disjoint buffers that do not wrap around the address space, of any length and any alignment,
  the copy and the fill by words do what the loops of the test do byte by byte, without an alignment fault: each returns
  its first argument, the target holds the bytes of the source or the filled byte, and no byte outside changes.  The
  variants for aligned pointers agree with them on aligned pointers.\<close>

theorem memory_functions_agree:
  assumes "copy_ok dest src (unat n) m"
  shows "memcpy_asm dest src n m = memcpy_slow dest src n m \<and>
    memset_asm dest v n m = memset_slow dest v n m \<and>
    memcpy_asm dest src n m = Some (dest, \<lambda>a. if unat (a - dest) < unat n then m (src + (a - dest)) else m a) \<and>
    memset_asm dest v n m = Some (dest, \<lambda>a. if unat (a - dest) < unat n then Some (ucast v) else m a) \<and>
    (take_bit 2 dest = 0 \<longrightarrow> memset_4 dest v n m = memset_slow dest v n m) \<and>
    (take_bit 2 dest = 0 \<and> take_bit 2 src = 0 \<longrightarrow> memcpy_44 dest src n m = memcpy_slow dest src n m)"
proof -
  have t: "target_ok dest (unat n) m" using assms by (simp add: copy_ok_def)
  show ?thesis
    using memcpy_asm_copies [OF assms] memcpy_slow_all [OF assms] memcpy_44_copies [OF assms]
      memset_asm_fills [OF t] memset_slow_all [OF t] memset_4_fills [OF t]
    by (auto simp: written_def)
qed

text \<open>A RAM in which each byte is the last byte of its address.\<close>

definition counting_ram :: memory where
  "counting_ram = (\<lambda>a. map_option (\<lambda>b. ucast a) (zero_ram a))"

lemma counting_ram_ok: "unat a + n < 0x20042000 \<Longrightarrow> 0x20000000 \<le> unat a \<Longrightarrow> target_ok a n counting_ram"
proof -
  assume a: "unat a + n < 0x20042000" "0x20000000 \<le> unat a"
  have "unat (a + of_nat k) = unat a + k" if "k < n" for k
    using a that by (simp add: unat_word_ariths unat_of_nat)
  then show "target_ok a n counting_ram"
    using a by (auto simp: target_ok_def counting_ram_def zero_ram_def rp2040_def word_le_nat_alt word_less_nat_alt)
qed

theorem memory_functions_agree_witness:
  "memcpy_asm 0x20000000 0x20000104 27 counting_ram = memcpy_slow 0x20000000 0x20000104 27 counting_ram \<and>
    memset_asm 0x20000000 0xa5 27 counting_ram = memset_slow 0x20000000 0xa5 27 counting_ram \<and>
    memset_4 0x20000000 0xa5 27 counting_ram = memset_slow 0x20000000 0xa5 27 counting_ram \<and>
    memcpy_44 0x20000000 0x20000104 27 counting_ram = memcpy_slow 0x20000000 0x20000104 27 counting_ram \<and>
    (\<exists>m. memcpy_asm 0x20000000 0x20000104 27 counting_ram = Some (0x20000000, m) \<and> m 0x2000001a = Some 0x1e \<and>
      m 0x2000001b = Some 0x1b)"
proof -
  have ok: "copy_ok 0x20000000 0x20000104 (unat (27 :: u32)) counting_ram"
    using counting_ram_ok [of "0x20000000" 27] counting_ram_ok [of "0x20000104" 27] by (simp add: copy_ok_def)
  have bytes: "counting_ram 0x2000011e = Some 0x1e" "counting_ram 0x2000001b = Some 0x1b"
    by (simp_all add: counting_ram_def zero_ram_def rp2040_def)
  note agree = memory_functions_agree [OF ok, of "0xa5"]
  have "memcpy_asm 0x20000000 0x20000104 27 counting_ram =
      Some (0x20000000, \<lambda>a. if unat (a - 0x20000000) < unat (27 :: u32) then counting_ram (0x20000104 + (a - 0x20000000)) else counting_ram a)"
    using agree by (elim conjE)
  then have "\<exists>m. memcpy_asm 0x20000000 0x20000104 27 counting_ram = Some (0x20000000, m) \<and> m 0x2000001a = Some 0x1e \<and>
      m 0x2000001b = Some 0x1b"
    by (intro exI conjI, assumption) (simp_all add: bytes)
  moreover have "take_bit 2 (0x20000000 :: u32) = 0" "take_bit 2 (0x20000104 :: u32) = 0" by simp_all
  ultimately show ?thesis using agree by blast
qed

end
