(* ===== verification/Crc32.thy ===== *)
theory Crc32
  imports Memory_Functions
begin

text \<open>
  The checksum \<open>crc32_small\<close> of \<open>bootrom/bootrom_misc.S\<close>, against a shift register that takes the message
  bit by bit, the highest bit of each byte first.  The assembler feeds a byte at once into the upper byte only and
  compares the addresses as signed numbers.
\<close>

unbundle bit_operations_syntax

subsection \<open>The code\<close>

definition crc32_bit :: "u32 \<Rightarrow> u32" where
  "crc32_bit r4 = (
     let c = bit r4 31;
         r4 = push_bit 1 r4
     in if c then r4 XOR 0x4c11db7 else r4)"

fun crc32_bits :: "nat \<Rightarrow> u32 \<Rightarrow> u32" where
  "crc32_bits 0 r4 = r4"
| "crc32_bits (Suc r3) r4 = crc32_bits r3 (crc32_bit r4)"

definition crc32_byte :: "u32 \<Rightarrow> u32 \<Rightarrow> u32" where
  "crc32_byte r4 r2 = (
     let r3 = rev_bytes r2;
         r4 = r4 XOR r3;
         r4 = push_bit 24 r4;
         r4 = crc32_bits 8 r4
     in push_bit 8 r2 XOR r4)"

lemma sint_next:
  fixes a b :: u32
  assumes "sint a < sint b"
  shows "sint (a + 1) = sint a + 1"
proof -
  have "sint a + 1 < 2 ^ 31" "- (2 ^ 31) \<le> sint a" using assms sint_lt [of b] sint_ge [of a] by simp_all
  then show ?thesis by (simp add: sint_word_ariths signed_take_bit_int_eq_self)
qed

function crc32_loop :: "u32 \<Rightarrow> u32 \<Rightarrow> u32 \<Rightarrow> memory \<Rightarrow> u32 option" where
  "crc32_loop r0 r1 r2 m =
     (if sint r0 < sint r1
      then do {
        r4 \<leftarrow> ldrb r0 m;
        crc32_loop (r0 + 1) r1 (crc32_byte r4 r2) m
      }
      else Some r2)"
  by pat_completeness auto
termination
  by (relation "measure (\<lambda>(r0, r1, r2, m). nat (sint r1 - sint r0))") (auto simp: sint_next)

declare crc32_loop.simps [simp del]

definition crc32_small :: "u32 \<Rightarrow> u32 \<Rightarrow> u32 \<Rightarrow> memory \<Rightarrow> u32 option" where
  "crc32_small r0 r1 r2 m = crc32_loop r0 (r1 + r0) r2 m"

subsection \<open>The shift register\<close>

definition crc_shift :: "bool \<Rightarrow> u32 \<Rightarrow> u32" where
  "crc_shift b c = (if bit c 31 \<noteq> b then push_bit 1 c XOR 0x4c11db7 else push_bit 1 c)"

definition bits_of_byte :: "u8 \<Rightarrow> bool list" where
  "bits_of_byte b = map (bit b) [7, 6, 5, 4, 3, 2, 1, 0]"

definition crc_register :: "bytes \<Rightarrow> u32 \<Rightarrow> u32" where
  "crc_register bs = fold crc_shift (concat (map bits_of_byte bs))"

subsection \<open>One byte\<close>

lemma crc32_bit_message:
  fixes b :: u8 and c :: u32
  assumes "j < 8"
  shows "crc32_bit (c XOR push_bit (24 + j) (ucast b)) = crc_shift (bit b (7 - j)) c XOR push_bit (24 + Suc j) (ucast b)"
proof -
  have "bit (push_bit (24 + j) (ucast b) :: u32) 31 = bit b (7 - j)" using assms by (auto simp: bit_simps)
  then have top: "bit (c XOR push_bit (24 + j) (ucast b)) 31 \<longleftrightarrow> bit c 31 \<noteq> bit b (7 - j)" by (simp add: bit_xor_iff)
  have sh: "push_bit 1 (c XOR push_bit (24 + j) (ucast b)) = push_bit 1 c XOR push_bit (24 + Suc j) (ucast b)"
    by (simp only: push_bit_xor push_bit_push_bit) simp
  show ?thesis unfolding crc32_bit_def crc_shift_def Let_def top sh by (simp add: xor.assoc xor.commute xor.left_commute)
qed

lemma crc32_bits_message: "crc32_bits 8 (c XOR push_bit 24 (ucast b)) = fold crc_shift (bits_of_byte b) c"
proof -
  have gone: "push_bit 32 x = 0" for x :: u32 by (auto intro!: bit_word_eqI simp: bit_simps)
  note step = crc32_bit_message [where b = b]
  show ?thesis
    using step [of 0] step [of 1] step [of 2] step [of 3] step [of 4] step [of 5] step [of 6] step [of 7]
    by (simp add: bits_of_byte_def eval_nat_numeral gone del: push_bit_Suc)
qed

text \<open>The three lower bytes do not reach the top within eight steps.\<close>

lemma crc32_bits_low:
  assumes "take_bit (32 - k) l = l"
  shows "k \<le> 31 \<Longrightarrow> crc32_bits k (h XOR l) = crc32_bits k h XOR push_bit k l"
  using assms
proof (induction k arbitrary: h l)
  case (Suc k)
  have "\<not> bit (take_bit (32 - Suc k) l) 31" by (auto simp: bit_take_bit_iff)
  then have "\<not> bit l 31" using Suc.prems(2) by simp
  then have step: "crc32_bit (h XOR l) = crc32_bit h XOR push_bit 1 l"
    by (simp add: crc32_bit_def bit_xor_iff push_bit_xor Let_def xor.assoc xor.commute xor.left_commute del: push_bit_Suc)
  have "take_bit (32 - k) (push_bit 1 l) = push_bit 1 (take_bit (32 - Suc k) l)"
    using Suc.prems(1) by (intro bit_word_eqI) (simp only: bit_take_bit_iff bit_push_bit_iff, auto)
  then have "take_bit (32 - k) (push_bit 1 l) = push_bit 1 l" using Suc.prems(2) by simp
  then show ?case using Suc.IH [of "push_bit 1 l" "crc32_bit h"] Suc.prems(1) by (simp add: step push_bit_push_bit del: push_bit_Suc)
qed simp

lemma crc32_byte_register: "crc32_byte (ucast b) c = fold crc_shift (bits_of_byte b) c"
proof -
  have "push_bit 24 (ucast b XOR rev_bytes c) XOR take_bit 24 c = c XOR push_bit 24 (ucast b)"
    by (auto intro!: bit_word_eqI simp: rev_bytes_def le32_def of_le32_def bit_simps)
  then have "crc32_bits 8 (push_bit 24 (ucast b XOR rev_bytes c)) XOR push_bit 8 (take_bit 24 c) = fold crc_shift (bits_of_byte b) c"
    using crc32_bits_low [of 8 "take_bit 24 c" "push_bit 24 (ucast b XOR rev_bytes c)"] crc32_bits_message [of c b]
    by (simp del: push_bit_xor)
  moreover have "push_bit 8 (take_bit 24 c) = push_bit 8 c" by (auto intro!: bit_word_eqI simp: bit_simps)
  ultimately show ?thesis by (simp add: crc32_byte_def Let_def xor.commute)
qed

subsection \<open>The buffer\<close>

lemma sint_low:
  fixes w :: u32
  assumes "unat w < 2 ^ 31"
  shows "sint w = int (unat w)"
proof -
  have "int (unat w) < int (2 ^ 31)" using assms by (simp only: of_nat_less_iff)
  then have "uint w < 2 ^ 31" by (simp only: uint_nat of_nat_power of_nat_numeral)
  moreover have "- (2 ^ 31) \<le> uint w" by (rule order_trans [OF _ uint_ge_0]) simp
  ultimately have "signed_take_bit 31 (uint w) = uint w" by (intro signed_take_bit_int_eq_self)
  moreover have "LENGTH(32) - Suc 0 = 31" by simp
  ultimately show ?thesis by (simp only: sint_uint uint_nat)
qed

lemma crc32_loop_register:
  "mem_read m a (length bs) = Some bs \<Longrightarrow> unat a + length bs < 2 ^ 31 \<Longrightarrow>
    crc32_loop a (a + of_nat (length bs)) c m = Some (crc_register bs c)"
proof (induction bs arbitrary: a c)
  case Nil
  then show ?case by (subst crc32_loop.simps) (simp add: crc_register_def)
next
  case (Cons b bs)
  have len: "unat (a + of_nat (length (b # bs))) = unat a + length (b # bs)"
    using Cons.prems(2) by (simp add: unat_word_ariths unat_of_nat)
  then have lt: "sint a < sint (a + of_nat (length (b # bs)))" using Cons.prems(2) by (simp add: sint_low)
  have m: "m a = Some b" "mem_read m (a + 1) (length bs) = Some bs"
    using Cons.prems(1) by (auto simp: mem_read_eq add.assoc dest: spec [of _ 0] spec [of _ "Suc _"])
  have "unat (a + 1) = unat a + 1" using Cons.prems(2) by (simp add: unat_word_ariths)
  then have ih: "crc32_loop (a + 1) (a + 1 + of_nat (length bs)) (crc32_byte (ucast b) c) m =
      Some (crc_register bs (crc32_byte (ucast b) c))"
    using Cons.IH [OF m(2)] Cons.prems(2) by simp
  show ?case using ih lt m(1) crc32_byte_register [of b c]
    by (subst crc32_loop.simps) (simp add: ldrb_def crc_register_def add.assoc)
qed

lemma crc32_small_register:
  assumes "mem_read m a (length bs) = Some bs" "unat a + length bs < 2 ^ 31"
  shows "crc32_small a (of_nat (length bs)) c m = Some (crc_register bs c)"
  using crc32_loop_register [OF assms] by (simp add: crc32_small_def add.commute)

text \<open>Across the middle of the address space the end lies before the start, and no byte is taken.\<close>

lemma crc32_signed_end: "crc32_small 0x7ffffffc 8 c m = Some c"
  by (simp add: crc32_small_def) (subst crc32_loop.simps, simp)

end
