(* ===== verification/Reset_Path.thy ===== *)
theory Reset_Path
  imports Startup Runtime Memory_Functions
begin

text \<open>
  The two ends of a life of the chip, statement by statement: the reset entry of \<open>bootrom/bootrom_rt0.S\<close> up to the
  call of \<open>main\<close>, and \<open>watchdog_reboot\<close> of \<open>usb_device_tiny/runtime.c\<close>.  Both write control registers and wait for
  a status that the chip changes at a time of its own.
\<close>

unbundle bit_operations_syntax

subsection \<open>Programs that wait\<close>

datatype 's stmt = Do "'s \<Rightarrow> 's" | Wait "'s \<Rightarrow> bool"

definition stmt_step :: "'s stmt list \<Rightarrow> nat \<times> 's \<Rightarrow> nat \<times> 's" where
  "stmt_step p = (\<lambda>(pc, s).
     if pc < length p then
       case p ! pc of
         Do f \<Rightarrow> (pc + 1, f s)
       | Wait q \<Rightarrow> (if q s then pc + 1 else pc, s)
     else (pc, s))"

inductive runs_to :: "'s stmt list \<Rightarrow> ('s \<Rightarrow> 's) set \<Rightarrow> 's \<Rightarrow> nat \<times> 's \<Rightarrow> bool" for p hw s where
  at_start: "runs_to p hw s (0, s)"
| by_code: "runs_to p hw s x \<Longrightarrow> runs_to p hw s (stmt_step p x)"
| by_chip: "runs_to p hw s (pc, t) \<Longrightarrow> h \<in> hw \<Longrightarrow> runs_to p hw s (pc, h t)"

primrec run_do :: "'s stmt list \<Rightarrow> 's \<Rightarrow> 's" where
  "run_do [] s = s"
| "run_do (st # p) s = run_do p (case st of Do f \<Rightarrow> f s | Wait q \<Rightarrow> s)"

lemma run_do_append [simp]: "run_do (p @ p') s = run_do p' (run_do p s)"
  by (induction p arbitrary: s) simp_all

lemma run_do_keeps: "(\<And>f s. Do f \<in> set p \<Longrightarrow> g (f s) = g s) \<Longrightarrow> g (run_do p s) = g s"
proof (induction p arbitrary: s)
  case (Cons st p)
  then show ?case by (cases st) simp_all
qed simp

lemma runs_through:
  assumes "runs_to p hw s (i, t)"
  shows "i + k \<le> length p \<Longrightarrow> (\<And>n. i \<le> n \<Longrightarrow> n < i + k \<Longrightarrow> \<exists>f. p ! n = Do f) \<Longrightarrow> \<exists>t'. runs_to p hw s (i + k, t')"
proof (induction k)
  case (Suc k)
  then obtain t' where t': "runs_to p hw s (i + k, t')" by auto
  obtain f where "p ! (i + k) = Do f" using Suc.prems(2) [of "i + k"] by auto
  then show ?case using runs_to.by_code [OF t'] Suc.prems(1) by (auto simp: stmt_step_def)
qed (use assms in auto)

text \<open>The chip moves only registers that the code waits for: without these, the state is a function of the position.\<close>

locale sequential =
  fixes p :: "'s stmt list" and hw :: "('s \<Rightarrow> 's) set" and v :: "'s \<Rightarrow> 's"
  assumes code_view: "Do f \<in> set p \<Longrightarrow> v (f s) = f (v s)"
    and chip_view: "h \<in> hw \<Longrightarrow> v (h s) = v s"
begin

lemma view_runs: "runs_to p hw s0 x \<Longrightarrow> fst x \<le> length p \<and> v (snd x) = run_do (take (fst x) p) (v s0)"
proof (induction rule: runs_to.induct)
  case (by_code x)
  obtain pc s where x: "x = (pc, s)" by force
  show ?case
  proof (cases "pc < length p")
    case True
    have vf: "v (f s) = f (v s)" if "p ! pc = Do f" for f using code_view nth_mem [OF True] that by metis
    then show ?thesis
      using by_code.IH True x by (cases "p ! pc") (simp_all add: stmt_step_def take_Suc_conv_app_nth)
  qed (use by_code.IH x in \<open>simp add: stmt_step_def\<close>)
qed (simp_all add: chip_view)

end

text \<open>A status that the code has waited for, and that then stays.\<close>

locale awaiting = sequential p hw v
  for p :: "'s stmt list" and hw :: "('s \<Rightarrow> 's) set" and v :: "'s \<Rightarrow> 's" +
  fixes k :: nat and q :: "'s \<Rightarrow> bool"
  assumes wait_at: "p ! k = Wait q"
    and code_keeps: "k < i \<Longrightarrow> i < length p \<Longrightarrow> p ! i = Do f \<Longrightarrow> q s \<Longrightarrow> q (f s)"
    and chip_keeps: "h \<in> hw \<Longrightarrow> q s \<Longrightarrow> k < pc \<Longrightarrow> pc \<le> length p \<Longrightarrow> v s = run_do (take pc p) (v s0) \<Longrightarrow> q (h s)"
begin

lemma awaited: "runs_to p hw s0 x \<Longrightarrow> k < fst x \<Longrightarrow> q (snd x)"
proof (induction rule: runs_to.induct)
  case (by_code x)
  obtain pc s where x: "x = (pc, s)" by force
  show ?case
  proof (cases "pc < length p")
    case True
    have less: "k < Suc pc \<Longrightarrow> pc \<noteq> k \<Longrightarrow> k < pc" by simp
    show ?thesis
      using by_code.IH by_code.prems True wait_at code_keeps [OF less] x
      by (cases "p ! pc"; cases "pc = k") (auto simp: stmt_step_def split: if_splits)
  qed (use by_code x in \<open>simp add: stmt_step_def\<close>)
next
  case (by_chip pc t h)
  then show ?case using view_runs [OF by_chip.hyps(1)] chip_keeps [of h t pc s0] by simp
qed simp

end

subsection \<open>The reset entry\<close>

text \<open>
  The vector table: its address becomes the one of the processor, its first two words the stack pointer and the address
  to go to.  Without flash it is the table of the image, else the one of the ROM, at 0.
\<close>

definition vector_entry :: "u32 \<Rightarrow> memory \<Rightarrow> (u32 \<times> u32 \<times> u32) option" where
  "vector_entry r0 m = map_option (\<lambda>ws. (r0, ws ! 0, ws ! 1)) (ldm 2 r0 m)"

definition entry_point :: "bool \<Rightarrow> u32 \<Rightarrow> memory \<Rightarrow> (u32 \<times> u32 \<times> u32) option" where
  "entry_point pico_no_flash vectors = vector_entry (if pico_no_flash then vectors else 0)"

text \<open>The registers that \<open>_start\<close> writes; a pad has its input enabled or not.\<close>

record start_chip =
  start_mem :: "memory option"
  wake_en0 :: u32
  wake_en1 :: u32
  proc0_nmi_mask :: u32
  proc1_nmi_mask :: u32
  start_resets :: u32
  start_resets_done :: u32
  pad_input_enabled :: "nat \<Rightarrow> bool"

definition enable_clocks :: "start_chip stmt list" where
  "enable_clocks =
     [Do (\<lambda>c. c\<lparr>wake_en0 := NOT 0\<rparr>),
      Do (\<lambda>c. c\<lparr>wake_en1 := NOT 0\<rparr>)]"

definition nmi :: "start_chip stmt list" where
  "nmi = enable_clocks @
     [Do (\<lambda>c. c\<lparr>proc0_nmi_mask := 0\<rparr>),
      Do (\<lambda>c. c\<lparr>proc1_nmi_mask := 0\<rparr>)]"

definition disable_adc_ie :: "start_chip stmt list" where
  "disable_adc_ie =
     [Do (\<lambda>c. c\<lparr>start_resets := start_resets c AND NOT 0x100\<rparr>),
      Wait (\<lambda>c. 0x100 AND NOT (start_resets_done c) = 0),
      Do (\<lambda>c. c\<lparr>pad_input_enabled := (pad_input_enabled c)(26 := False)\<rparr>),
      Do (\<lambda>c. c\<lparr>pad_input_enabled := (pad_input_enabled c)(27 := False)\<rparr>),
      Do (\<lambda>c. c\<lparr>pad_input_enabled := (pad_input_enabled c)(28 := False)\<rparr>),
      Do (\<lambda>c. c\<lparr>pad_input_enabled := (pad_input_enabled c)(29 := False)\<rparr>)]"

definition start_program :: "addressmap \<Rightarrow> start_chip stmt list" where
  "start_program am =
     [Do (\<lambda>c. c\<lparr>start_mem := Option.bind (start_mem c) (start_set_memory am)\<rparr>)] @ nmi @ disable_adc_ie"

text \<open>Blocks that are out of reset report it in any order; a block in reset does not.\<close>

definition blocks_done :: "u32 \<Rightarrow> start_chip \<Rightarrow> start_chip" where
  "blocks_done k c = c\<lparr>start_resets_done := (start_resets_done c OR k) AND NOT (start_resets c)\<rparr>"

definition no_resets_done :: "start_chip \<Rightarrow> start_chip" where
  "no_resets_done c = c\<lparr>start_resets_done := 0\<rparr>"

lemmas start_programs = start_program_def nmi_def enable_clocks_def disable_adc_ie_def

interpretation start: sequential "start_program am" "range blocks_done" no_resets_done
  for am
proof unfold_locales
  fix f s assume "Do f \<in> set (start_program am)"
  then show "no_resets_done (f s) = f (no_resets_done s)" by (auto simp: start_programs no_resets_done_def)
qed (auto simp: blocks_done_def no_resets_done_def)

lemma length_start [simp]: "length (start_program am) = 11"
  by (simp add: start_programs)

lemma pads_mask: "0x100 AND NOT d = 0 \<longleftrightarrow> bit d 8" for d :: u32
  using and_exp_eq_0_iff_not_bit [of "NOT d" 8] by (simp add: ac_simps bit_simps)

interpretation start_wait: awaiting "start_program am" "range blocks_done" no_resets_done
    6 "\<lambda>c. 0x100 AND NOT (start_resets_done c) = 0"
  for am
proof unfold_locales
  show "start_program am ! 6 = Wait (\<lambda>c. 0x100 AND NOT (start_resets_done c) = 0)"
    by (simp add: start_programs)
next
  fix i f and s :: start_chip
  assume i: "6 < i" "i < length (start_program am)" "start_program am ! i = Do f"
    and q: "0x100 AND NOT (start_resets_done s) = 0"
  have "i = 7 \<or> i = 8 \<or> i = 9 \<or> i = 10" using i(1,2) by auto
  then show "0x100 AND NOT (start_resets_done (f s)) = 0" using i(3) q by (auto simp: start_programs)
next
  fix h n and s s0 :: start_chip
  assume h: "h \<in> range blocks_done" and q: "0x100 AND NOT (start_resets_done s) = 0"
    and n: "6 < n" "n \<le> length (start_program am)"
    and s: "no_resets_done s = run_do (take n (start_program am)) (no_resets_done s0)"
  have "n = 7 \<or> n = 8 \<or> n = 9 \<or> n = 10 \<or> n = 11" using n by auto
  then have "\<not> bit (start_resets (run_do (take n (start_program am)) (no_resets_done s0))) 8"
    by (elim disjE; simp add: start_programs bit_simps)
  then have "\<not> bit (start_resets s) 8" unfolding s [symmetric] by (simp add: no_resets_done_def)
  then show "0x100 AND NOT (start_resets_done (h s)) = 0"
    using h q unfolding pads_mask by (auto simp: blocks_done_def bit_simps)
qed

text \<open>
  When \<open>main\<close> is called the RAM is filled, all clocks are enabled, no interrupt is routed to the NMI, and the inputs of
  the four pins of the converter are off; their pads are not touched before they are out of reset.
\<close>

lemma start_program_runs:
  assumes "runs_to (start_program am) (range blocks_done) c (n, c')"
  shows "n = length (start_program am) \<Longrightarrow>
      start_mem c' = Option.bind (start_mem c) (start_set_memory am) \<and>
      wake_en0 c' = NOT 0 \<and> wake_en1 c' = NOT 0 \<and> proc0_nmi_mask c' = 0 \<and> proc1_nmi_mask c' = 0 \<and>
      pad_input_enabled c' = (\<lambda>i. i \<notin> {26, 27, 28, 29} \<and> pad_input_enabled c i)"
    and "pad_input_enabled c' \<noteq> pad_input_enabled c \<Longrightarrow> bit (start_resets_done c') 8"
proof -
  have v: "no_resets_done c' = run_do (take n (start_program am)) (no_resets_done c)" and n: "n \<le> 11"
    using start.view_runs [OF assms] by simp_all
  have "start_mem c' = start_mem (no_resets_done c')" "wake_en0 c' = wake_en0 (no_resets_done c')"
    "wake_en1 c' = wake_en1 (no_resets_done c')" "proc0_nmi_mask c' = proc0_nmi_mask (no_resets_done c')"
    "proc1_nmi_mask c' = proc1_nmi_mask (no_resets_done c')" and
    pads: "pad_input_enabled c' = pad_input_enabled (no_resets_done c')"
    by (simp_all add: no_resets_done_def)
  then show "n = length (start_program am) \<Longrightarrow>
      start_mem c' = Option.bind (start_mem c) (start_set_memory am) \<and>
      wake_en0 c' = NOT 0 \<and> wake_en1 c' = NOT 0 \<and> proc0_nmi_mask c' = 0 \<and> proc1_nmi_mask c' = 0 \<and>
      pad_input_enabled c' = (\<lambda>i. i \<notin> {26, 27, 28, 29} \<and> pad_input_enabled c i)"
    unfolding v by (auto simp: start_programs no_resets_done_def intro!: ext split: if_splits)
  show "bit (start_resets_done c') 8" if "pad_input_enabled c' \<noteq> pad_input_enabled c"
  proof (cases "6 < n")
    case True
    then show ?thesis using start_wait.awaited [OF assms] unfolding pads_mask by simp
  next
    case False
    then have "n = 0 \<or> n = 1 \<or> n = 2 \<or> n = 3 \<or> n = 4 \<or> n = 5 \<or> n = 6" by auto
    then have "pad_input_enabled c' = pad_input_enabled c"
      unfolding pads v by (elim disjE; simp add: start_programs no_resets_done_def)
    then show ?thesis using that by simp
  qed
qed

subsection \<open>\<open>watchdog_reboot\<close>\<close>

text \<open>
  The bits of the power-on state machine are from a header of the chip.  Source 2 of the reference clock is the
  crystal; the status of its multiplexer is one-hot.
\<close>

record psm_bits =
  PSM_WDSEL_BITS :: u32
  PSM_WDSEL_ROSC_BITS :: u32
  PSM_WDSEL_XOSC_BITS :: u32

record reboot_chip =
  chip_rt :: runtime_state
  psm_wdsel :: u32
  wd_pause :: bool
  wd_tick_enabled :: bool
  ref_src :: "2 word"
  ref_selected :: u32

definition write_watchdog :: "(watchdog \<Rightarrow> watchdog) \<Rightarrow> reboot_chip \<Rightarrow> reboot_chip" where
  "write_watchdog f c = c\<lparr>chip_rt := (chip_rt c)\<lparr>watchdog_hw := f (watchdog_hw (chip_rt c))\<rparr>\<rparr>"

definition write_scratch :: "nat \<Rightarrow> (watchdog \<Rightarrow> u32) \<Rightarrow> reboot_chip \<Rightarrow> reboot_chip" where
  "write_scratch i f = write_watchdog (\<lambda>w. w\<lparr>wd_scratch := (wd_scratch w)(i := f w)\<rparr>)"

definition reboot_program :: "psm_bits \<Rightarrow> bool \<Rightarrow> u32 \<Rightarrow> u32 \<Rightarrow> u32 \<Rightarrow> reboot_chip stmt list" where
  "reboot_program psm running_on_fpga pc sp delay_ms =
     [Do (\<lambda>c. c\<lparr>psm_wdsel := PSM_WDSEL_BITS psm AND NOT (PSM_WDSEL_ROSC_BITS psm OR PSM_WDSEL_XOSC_BITS psm)\<rparr>),
      Do (\<lambda>c. write_watchdog (\<lambda>w. w\<lparr>wd_enabled := False\<rparr>) (c\<lparr>wd_pause := False\<rparr>))] @
     (if pc \<noteq> 0
      then let pc = pc OR 1
           in [Do (write_scratch 4 (\<lambda>w. 0xb007c0d3)),
               Do (write_scratch 5 (\<lambda>w. pc XOR - wd_scratch w 4)),
               Do (write_scratch 6 (\<lambda>w. sp)),
               Do (write_scratch 7 (\<lambda>w. pc))]
      else [Do (write_scratch 4 (\<lambda>w. 0))]) @
     [Do (write_watchdog (\<lambda>w. w\<lparr>wd_load := delay_ms * 1000\<rparr>))] @
     (if \<not> running_on_fpga
      then [Do (\<lambda>c. c\<lparr>ref_src := 2\<rparr>), Wait (\<lambda>c. bit (ref_selected c) 2)]
      else []) @
     [Do (\<lambda>c. write_watchdog (\<lambda>w. w\<lparr>wd_tick := 12\<rparr>) (c\<lparr>wd_tick_enabled := False\<rparr>)),
      Do (\<lambda>c. c\<lparr>wd_tick_enabled := True\<rparr>),
      Do (write_watchdog (\<lambda>w. w\<lparr>wd_enabled := True\<rparr>)),
      Do (\<lambda>c. c\<lparr>chip_rt := (chip_rt c)\<lparr>rebooting := True\<rparr>\<rparr>)]"

text \<open>The multiplexer follows its register, when its source runs.\<close>

definition ref_switches :: "reboot_chip \<Rightarrow> reboot_chip" where
  "ref_switches c = c\<lparr>ref_selected := push_bit (unat (ref_src c)) 1\<rparr>"

definition no_ref_selected :: "reboot_chip \<Rightarrow> reboot_chip" where
  "no_ref_selected c = c\<lparr>ref_selected := 0\<rparr>"

lemmas reboot_writes = write_watchdog_def write_scratch_def ref_switches_def no_ref_selected_def

interpretation reboot: sequential "reboot_program psm fpga pc sp d" "{ref_switches}" no_ref_selected
  for psm fpga pc sp d
proof unfold_locales
  fix f s assume "Do f \<in> set (reboot_program psm fpga pc sp d)"
  then show "no_ref_selected (f s) = f (no_ref_selected s)"
    by (auto simp: reboot_program_def reboot_writes Let_def split: if_splits)
qed (auto simp: reboot_writes)

text \<open>The wait is at this position.\<close>

definition reboot_wait :: "u32 \<Rightarrow> nat" where
  "reboot_wait pc = (if pc \<noteq> 0 then 8 else 5)"

lemma reboot_at_end:
  assumes "reboot_wait pc \<le> n" "n \<le> length (reboot_program psm False pc sp d)"
  shows "\<exists>k. n = reboot_wait pc + k \<and> (k = 0 \<or> k = 1 \<or> k = 2 \<or> k = 3 \<or> k = 4 \<or> k = 5)"
proof -
  have "n - reboot_wait pc \<le> 5" using assms by (simp add: reboot_program_def reboot_wait_def Let_def split: if_splits)
  then show ?thesis using assms(1) by (intro exI [of _ "n - reboot_wait pc"]) auto
qed

interpretation reboot_wait: awaiting "reboot_program psm False pc sp d" "{ref_switches}" no_ref_selected
    "reboot_wait pc" "\<lambda>c. bit (ref_selected c) 2"
  for psm pc sp d
proof unfold_locales
  show "reboot_program psm False pc sp d ! reboot_wait pc = Wait (\<lambda>c. bit (ref_selected c) 2)"
    by (simp add: reboot_program_def reboot_wait_def Let_def nth_append)
next
  fix i f and s :: reboot_chip
  assume i: "reboot_wait pc < i" "i < length (reboot_program psm False pc sp d)" and
    f: "reboot_program psm False pc sp d ! i = Do f" and q: "bit (ref_selected s) 2"
  obtain k where "i = reboot_wait pc + k" "k = 0 \<or> k = 1 \<or> k = 2 \<or> k = 3 \<or> k = 4 \<or> k = 5"
    using reboot_at_end [of pc i psm sp d] i by auto
  then show "bit (ref_selected (f s)) 2"
    using i f q by (elim disjE; auto simp: reboot_program_def reboot_wait_def reboot_writes Let_def nth_append split: if_splits)
next
  fix h n and s s0 :: reboot_chip
  assume h: "h \<in> {ref_switches}" and n: "reboot_wait pc < n" "n \<le> length (reboot_program psm False pc sp d)"
    and s: "no_ref_selected s = run_do (take n (reboot_program psm False pc sp d)) (no_ref_selected s0)"
  obtain k where "n = reboot_wait pc + k" "k = 0 \<or> k = 1 \<or> k = 2 \<or> k = 3 \<or> k = 4 \<or> k = 5"
    using reboot_at_end [of pc n psm sp d] n by auto
  then have "ref_src (run_do (take n (reboot_program psm False pc sp d)) (no_ref_selected s0)) = 2"
    using n by (elim disjE; auto simp: reboot_program_def reboot_wait_def reboot_writes Let_def split: if_splits)
  then have "ref_src (no_ref_selected s) = 2" by (simp only: s)
  then show "bit (ref_selected (h s)) 2" using h by (simp add: reboot_writes bit_simps)
qed

text \<open>The flag \<open>rebooting\<close> is written last, and the watchdog enabled just before.\<close>

lemma reboot_flag_last:
  assumes "n < length (reboot_program psm fpga pc sp d)"
  shows "rebooting (chip_rt (run_do (take n (reboot_program psm fpga pc sp d)) c)) = rebooting (chip_rt c)"
proof (rule run_do_keeps)
  fix f s assume "Do f \<in> set (take n (reboot_program psm fpga pc sp d))"
  moreover have "set (take n (reboot_program psm fpga pc sp d)) \<subseteq> set (butlast (reboot_program psm fpga pc sp d))"
    unfolding butlast_conv_take using assms by (intro set_take_subset_set_take) simp
  ultimately have "Do f \<in> set (butlast (reboot_program psm fpga pc sp d))" by blast
  then show "rebooting (chip_rt (f s)) = rebooting (chip_rt s)"
    by (auto simp: reboot_program_def reboot_writes Let_def split: if_splits)
qed

lemma reboot_stopped:
  assumes "2 \<le> n" "n \<le> reboot_wait pc"
  shows "\<not> wd_enabled (watchdog_hw (chip_rt (run_do (take n (reboot_program psm False pc sp d)) c)))"
proof -
  have "n \<le> 8" "pc = 0 \<Longrightarrow> n \<le> 5" using assms(2) by (simp_all add: reboot_wait_def split: if_splits)
  then have "n \<in> set [2, 3, 4, 5] \<or> pc \<noteq> 0 \<and> n \<in> set [6, 7, 8]" using assms(1) by (cases "pc = 0") auto
  then show ?thesis by (auto simp: reboot_program_def reboot_writes Let_def)
qed

lemma reboot_result:
  "chip_rt (run_do (reboot_program psm fpga pc sp d) c) = watchdog_reboot pc sp d (chip_rt c)"
proof -
  obtain w where "watchdog_hw (chip_rt c) = w" by simp
  then show ?thesis
    by (cases "chip_rt c"; cases w) (auto simp: reboot_program_def reboot_writes watchdog_reboot_def Let_def)
qed

lemma reboot_registers:
  "\<not> wd_pause (run_do (reboot_program psm fpga pc sp d) c)" "wd_tick_enabled (run_do (reboot_program psm fpga pc sp d) c)"
  "psm_wdsel (run_do (reboot_program psm fpga pc sp d) c) = PSM_WDSEL_BITS psm AND NOT (PSM_WDSEL_ROSC_BITS psm OR PSM_WDSEL_XOSC_BITS psm)"
  by (simp_all add: reboot_program_def reboot_writes Let_def)

text \<open>A chip that switches the clock gets to the end; one that does not, stays before the watchdog.\<close>

lemma reboot_finishes:
  "\<exists>c'. runs_to (reboot_program psm False pc sp d) {ref_switches} c (length (reboot_program psm False pc sp d), c')"
proof -
  let ?p = "reboot_program psm False pc sp d" and ?k = "reboot_wait pc"
  have len: "?k < length ?p" by (simp add: reboot_program_def reboot_wait_def Let_def)
  have others: "\<exists>f. ?p ! n = Do f" if "n < length ?p" "n \<noteq> ?k" for n
  proof -
    have "n < 13" "pc = 0 \<Longrightarrow> n < 10" using that(1) by (simp_all add: reboot_program_def Let_def split: if_splits)
    then have "n \<in> set [0, 1, 2, 3, 4, 5, 6, 7, 8, 9] \<or> pc \<noteq> 0 \<and> n \<in> set [10, 11, 12]"
      by (cases "pc = 0"; simp; arith)
    then show ?thesis using that(2) by (auto simp: reboot_program_def reboot_wait_def Let_def)
  qed
  obtain t where t: "runs_to ?p {ref_switches} c (?k, t)"
    using runs_through [OF runs_to.at_start, of ?k ?p "{ref_switches}" c] others len by auto
  have "ref_src (run_do (take ?k ?p) (no_ref_selected c)) = 2" 
    by (simp add: reboot_program_def reboot_wait_def reboot_writes Let_def)
  then have "ref_src (no_ref_selected t) = 2" using reboot.view_runs [OF t] by simp
  then have "ref_src t = 2" by (simp add: no_ref_selected_def)
  then have "bit (ref_selected (ref_switches t)) 2" by (simp add: reboot_writes bit_simps)
  then have "stmt_step ?p (?k, ref_switches t) = (Suc ?k, ref_switches t)"
    using len reboot_wait.wait_at by (simp add: stmt_step_def)
  then have past: "runs_to ?p {ref_switches} c (Suc ?k, ref_switches t)"
    using runs_to.by_code [OF runs_to.by_chip [OF t]] by (metis singletonI)
  obtain d where "length ?p = Suc ?k + d" using less_imp_Suc_add [OF len] by auto
  then show ?thesis using runs_through [OF past, of d] others by simp
qed

lemma reboot_needs_switch:
  assumes "runs_to (reboot_program psm False pc sp d) {} c x" "\<not> bit (ref_selected c) 2"
  shows "fst x \<le> reboot_wait pc \<and> ref_selected (snd x) = ref_selected c"
  using assms(1)
proof (induction rule: runs_to.induct)
  case (by_code x)
  let ?p = "reboot_program psm False pc sp d"
  obtain n s where x: "x = (n, s)" by force
  have "reboot_wait pc < length ?p" by (simp add: reboot_program_def reboot_wait_def Let_def)
  then have len: "n < length ?p" and le: "n \<le> reboot_wait pc" using by_code.IH x by auto
  have keeps: "ref_selected (f s) = ref_selected s" if "Do f \<in> set ?p" for f
    using that by (auto simp: reboot_program_def reboot_writes Let_def split: if_splits)
  show ?case
  proof (cases "n = reboot_wait pc")
    case True
    then show ?thesis using x len by_code.IH assms(2) reboot_wait.wait_at [of psm pc sp d] by (simp add: stmt_step_def)
  next
    case False
    then show ?thesis using x len le by_code.IH keeps nth_mem [OF len]
      by (cases "?p ! n") (auto simp: stmt_step_def)
  qed
qed simp_all

text \<open>C24: \<open>watchdog_reboot\<close>, statement by statement, with the multiplexer of the reference clock switching at any time:
  when it is through, the state is the one that the other theories take as its effect, and the boot ROM accepts the
  registers exactly if an address was given: it then enters at that address, in Thumb state, with the given stack; address
  0 boots as after power on.  The watchdog also counts under a debugger, and all but the two oscillators is reset.  Until
  then the flag is as before, and the watchdog is not enabled before the reference clock is the crystal.\<close>

theorem reboot_program_enters:
  assumes "runs_to (reboot_program psm running_on_fpga pc sp delay_ms) {ref_switches} c (n, c')"
  shows "(n = length (reboot_program psm running_on_fpga pc sp delay_ms) \<longrightarrow>
      chip_rt c' = watchdog_reboot pc sp delay_ms (chip_rt c) \<and>
      watchdog_entry (watchdog_hw (chip_rt c')) = (if pc = 0 then None else Some (pc OR 1, sp)) \<and>
      watchdog_rebooting (chip_rt c') \<and> wd_enabled (watchdog_hw (chip_rt c')) \<and> wd_tick_enabled c' \<and> \<not> wd_pause c' \<and>
      wd_load (watchdog_hw (chip_rt c')) = delay_ms * 1000 \<and>
      psm_wdsel c' = PSM_WDSEL_BITS psm AND NOT (PSM_WDSEL_ROSC_BITS psm OR PSM_WDSEL_XOSC_BITS psm)) \<and>
    (n < length (reboot_program psm running_on_fpga pc sp delay_ms) \<longrightarrow>
      watchdog_rebooting (chip_rt c') = watchdog_rebooting (chip_rt c)) \<and>
    (\<not> running_on_fpga \<and> 2 \<le> n \<and> wd_enabled (watchdog_hw (chip_rt c')) \<longrightarrow> bit (ref_selected c') 2)"
proof -
  let ?p = "reboot_program psm running_on_fpga pc sp delay_ms"
  have v: "no_ref_selected c' = run_do (take n ?p) (no_ref_selected c)" using reboot.view_runs [OF assms] by simp
  have rt: "chip_rt c' = chip_rt (run_do (take n ?p) (no_ref_selected c))" "chip_rt (no_ref_selected c) = chip_rt c"
    using arg_cong [OF v, of chip_rt] by (simp_all add: no_ref_selected_def)
  have through: "chip_rt c' = watchdog_reboot pc sp delay_ms (chip_rt c) \<and> wd_tick_enabled c' \<and> \<not> wd_pause c' \<and>
      psm_wdsel c' = PSM_WDSEL_BITS psm AND NOT (PSM_WDSEL_ROSC_BITS psm OR PSM_WDSEL_XOSC_BITS psm)" if "n = length ?p"
  proof -
    have v: "no_ref_selected c' = run_do ?p (no_ref_selected c)" using v that by simp
    show ?thesis
      using reboot_registers [of psm running_on_fpga pc sp delay_ms "no_ref_selected c"] rt that
        reboot_result [of psm running_on_fpga pc sp delay_ms "no_ref_selected c"] unfolding v [symmetric]
      by (simp add: no_ref_selected_def)
  qed
  have before: "rebooting (chip_rt c') = rebooting (chip_rt c)" if "n < length ?p"
    using reboot_flag_last [OF that] rt by simp
  have clock: "bit (ref_selected c') 2" if "\<not> running_on_fpga" "2 \<le> n" "wd_enabled (watchdog_hw (chip_rt c'))"
  proof -
    have "\<not> n \<le> reboot_wait pc" using reboot_stopped [of n pc] that rt(1) by auto
    then show ?thesis using reboot_wait.awaited [of psm pc sp delay_ms c "(n, c')"] assms that(1) by simp
  qed
  have "wd_enabled (watchdog_hw (watchdog_reboot pc sp delay_ms s))"
    "wd_load (watchdog_hw (watchdog_reboot pc sp delay_ms s)) = delay_ms * 1000" for s :: runtime_state
    by (simp_all add: watchdog_reboot_def Let_def)
  then show ?thesis
    using through before clock watchdog_reboot_entry [of pc sp delay_ms "chip_rt c"] by (auto simp: watchdog_rebooting_def)
qed

definition idle_chip :: reboot_chip where
  "idle_chip =
     \<lparr>chip_rt = \<lparr>rebooting = False, watchdog_hw = \<lparr>wd_scratch = (\<lambda>i. 0), wd_load = 0, wd_tick = 0, wd_enabled = False\<rparr>,
        usb_activity_gpio_pin_mask = 0\<rparr>,
      psm_wdsel = 0, wd_pause = True, wd_tick_enabled = False, ref_src = 0, ref_selected = 1\<rparr>"

theorem reboot_program_enters_witness:
  "\<exists>c'. runs_to (reboot_program \<lparr>PSM_WDSEL_BITS = 0x1ffff, PSM_WDSEL_ROSC_BITS = 1, PSM_WDSEL_XOSC_BITS = 2\<rparr> False 0x20001000 0x20042000 10)
        {ref_switches} idle_chip (13, c') \<and>
      watchdog_entry (watchdog_hw (chip_rt c')) = Some (0x20001001, 0x20042000) \<and> psm_wdsel c' = 0x1fffc \<and>
      bit (ref_selected c') 2"
proof -
  let ?psm = "\<lparr>PSM_WDSEL_BITS = 0x1ffff, PSM_WDSEL_ROSC_BITS = 1, PSM_WDSEL_XOSC_BITS = 2\<rparr>"
  have len: "length (reboot_program ?psm False 0x20001000 0x20042000 10) = 13" by (simp add: reboot_program_def Let_def)
  obtain c' where r: "runs_to (reboot_program ?psm False 0x20001000 0x20042000 10) {ref_switches} idle_chip (13, c')"
    using reboot_finishes [of ?psm "0x20001000" "0x20042000" 10 idle_chip] unfolding len by auto
  show ?thesis using r reboot_program_enters [OF r] len by (intro exI [of _ c'] conjI) auto
qed

end
