(* ===== verification/Generator_Text.thy ===== *)
theory Generator_Text
  imports Generator
begin

text \<open>
  The C text that \<open>generator/main.c\<close> prints for an array, and a reader that takes the bytes and the length from it as
  a compiler does.
\<close>

definition hex_digits :: string where
  "hex_digits = ''0123456789abcdef''"

definition newline :: string where
  "newline = [CHR 0x0A]"

text \<open>The format \<open>0x%02x, \<close>, and \<open>%ld\<close> of a number that is not negative.\<close>

definition print_byte :: "u8 \<Rightarrow> string" where
  "print_byte b = ''0x'' @ [hex_digits ! (unat b div 16), hex_digits ! (unat b mod 16)] @ '', ''"

fun print_decimal :: "nat \<Rightarrow> string" where
  "print_decimal n = (if n < 10 then [hex_digits ! n] else print_decimal (n div 10) @ [hex_digits ! (n mod 10)])"

declare print_decimal.simps [simp del]

text \<open>Rows of twelve.\<close>

function dump_rows :: "bytes \<Rightarrow> string" where
  "dump_rows bs =
     (if bs = [] then []
      else ''    '' @ concat (map print_byte (take 12 bs)) @ newline @ dump_rows (drop 12 bs))"
  by pat_completeness auto
termination
  by (relation "measure length") auto

declare dump_rows.simps [simp del]

definition dump :: "string \<Rightarrow> string \<Rightarrow> bytes \<Rightarrow> string" where
  "dump name suffix buf =
     ''static const uint8_t '' @ name @ suffix @ ''[] = {'' @ newline @
     dump_rows buf @
     ''};'' @ newline @
     ''#define '' @ name @ suffix @ ''_len '' @ print_decimal (length buf) @ newline"

text \<open>\<open>strchr\<close> goes on where it found the character; that ends as the new one is another.\<close>

fun replace :: "string \<Rightarrow> char \<Rightarrow> char \<Rightarrow> string" where
  "replace [] from to = []"
| "replace (c # str) from to = (if c = from then to else c) # replace str from to"

subsection \<open>The reader\<close>

fun index_of :: "char \<Rightarrow> string \<Rightarrow> nat option" where
  "index_of c [] = None"
| "index_of c (d # ds) = (if c = d then Some 0 else map_option Suc (index_of c ds))"

fun read_bytes :: "string \<Rightarrow> bytes" where
  "read_bytes [] = []"
| "read_bytes (c # cs) =
     (if c = CHR ''}'' then []
      else if c = CHR ''x'' then
        (case map (\<lambda>d. index_of d hex_digits) (take 2 cs) of
           [Some h, Some l] \<Rightarrow> of_nat (16 * h + l) # read_bytes (drop 2 cs)
         | _ \<Rightarrow> read_bytes cs)
      else read_bytes cs)"

text \<open>The initialiser starts at the brace; the length is the last word.\<close>

definition read_array :: "string \<Rightarrow> bytes" where
  "read_array cs = read_bytes (dropWhile (\<lambda>c. c \<noteq> CHR ''{'') cs)"

definition read_number :: "string \<Rightarrow> nat" where
  "read_number = foldl (\<lambda>n c. 10 * n + the (index_of c hex_digits)) 0"

definition read_length :: "string \<Rightarrow> nat" where
  "read_length cs = read_number (rev (takeWhile (\<lambda>c. c \<noteq> CHR '' '') (rev (butlast cs))))"

lemma index_of_digit: "n < 16 \<Longrightarrow> index_of (hex_digits ! n) hex_digits = Some n"
proof -
  have "\<forall>n \<in> set [0..<16]. index_of (hex_digits ! n) hex_digits = Some n" by code_simp
  then show "n < 16 \<Longrightarrow> ?thesis" by auto
qed

lemma digit_is_no_space: "n < 16 \<Longrightarrow> hex_digits ! n \<noteq> CHR '' ''"
proof -
  have "\<forall>n \<in> set [0..<16]. hex_digits ! n \<noteq> CHR '' ''" by code_simp
  then show "n < 16 \<Longrightarrow> ?thesis" by auto
qed

lemma read_print_byte: "read_bytes (print_byte b @ cs) = b # read_bytes cs"
proof -
  have "unat b < 16 * 16" using unsigned_less [of b, where 'a = nat] by simp
  then have d: "unat b div 16 < 16" by (rule less_mult_imp_div_less)
  have "16 * (unat b div 16) + unat b mod 16 = unat b" by simp
  moreover have "of_nat (unat b) = b" by simp
  ultimately have "of_nat (16 * (unat b div 16) + unat b mod 16) = b" by (simp only:)
  then show ?thesis by (simp add: print_byte_def index_of_digit [OF d] index_of_digit del: of_nat_add of_nat_mult)
qed

lemma read_rows: "read_bytes (dump_rows bs @ CHR ''}'' # cs) = bs"
proof (induction bs rule: dump_rows.induct)
  case (1 bs)
  have row: "read_bytes (concat (map print_byte xs) @ cs) = xs @ read_bytes cs" for xs cs
    by (induction xs) (simp_all add: read_print_byte)
  show ?case
  proof (cases "bs = []")
    case False
    then show ?thesis using 1 by (subst dump_rows.simps) (simp add: row newline_def)
  qed (simp add: dump_rows.simps)
qed

lemma read_decimal: "read_number (print_decimal n) = n"
proof (induction n rule: print_decimal.induct)
  case (1 n)
  show ?case
  proof (cases "n < 10")
    case True
    then show ?thesis by (simp add: print_decimal.simps read_number_def index_of_digit)
  next
    case False
    then show ?thesis using 1 by (subst print_decimal.simps) (simp add: read_number_def index_of_digit)
  qed
qed

lemma decimal_is_word: "\<forall>c \<in> set (print_decimal n). c \<noteq> CHR '' ''"
proof (induction n rule: print_decimal.induct)
  case (1 n)
  then show ?case by (subst print_decimal.simps) (auto simp: digit_is_no_space)
qed

lemma read_dump:
  assumes "CHR ''{'' \<notin> set (name @ suffix)"
  shows "read_array (dump name suffix buf) = buf" "read_length (dump name suffix buf) = length buf"
proof -
  let ?head = "''static const uint8_t '' @ name @ suffix @ ''[] = ''"
  have "dump name suffix buf = ?head @ CHR ''{'' # newline @ dump_rows buf @ CHR ''}'' # '';'' @ newline @
      ''#define '' @ name @ suffix @ ''_len '' @ print_decimal (length buf) @ newline"
    by (simp add: dump_def)
  moreover have "\<forall>c \<in> set ?head. c \<noteq> CHR ''{''" using assms by auto
  ultimately show "read_array (dump name suffix buf) = buf"
    by (simp only: read_array_def dropWhile_append2) (simp add: newline_def read_rows)
  obtain front where "dump name suffix buf = (front @ '' '' @ print_decimal (length buf)) @ newline"
    by (simp add: dump_def)
  then have "rev (butlast (dump name suffix buf)) = rev (print_decimal (length buf)) @ CHR '' '' # rev front"
    by (simp add: newline_def butlast_append)
  then have "takeWhile (\<lambda>c. c \<noteq> CHR '' '') (rev (butlast (dump name suffix buf))) = rev (print_decimal (length buf))"
    using decimal_is_word [of "length buf"] by (simp add: takeWhile_append)
  then show "read_length (dump name suffix buf) = length buf" by (simp add: read_length_def read_decimal)
qed

lemma replace_replaces: "from \<noteq> to \<Longrightarrow> from \<notin> set (replace str from to) \<and> length (replace str from to) = length str"
  by (induction str) auto

end
