(* ===== verification/Spec2Isabelle.thy ===== *)
theory Spec2Isabelle
  imports Usb_Enumerate Worker_History Flash_Fifo Flash_Calls Boot_Clocks Pins Crc32 Reset_Path Generator_Text
begin

text \<open>
  A model of the RP2040 boot ROM variant \<open>pico-bootrom-crashdump\<close>: a program that runs after a crash and
  shows the memory of the chip as files of a USB disk.

  The parts of the program and the theories that model them, in the order in which a byte of the RAM travels
  to the host:

  \<^item> \<open>bootrom/bootrom_rt0.S\<close> (\<open>Startup\<close>): the entry point.  It fills the whole RAM with a pattern; \<open>Reset_Path\<close>
    has its statements up to the call of \<open>main\<close>, and those of the reboot.  The code after it runs on the stack
    below \<open>_stacktop\<close> (\<open>bootrom/bootrom.ld\<close>), in the RAM that the disk shows.
  \<^item> \<open>bootrom/bootrom_main.c\<close> (\<open>Usb_Dispatch.usb_boot\<close>, \<open>Runtime.reset_usb_boot\<close>): sets up the device and
    enters the worker; or reboots through the watchdog (\<open>usb_device_tiny/runtime.c\<close>, \<open>Runtime\<close>).
    \<open>Boot_Clocks\<close> has the statements of \<open>_usb_boot\<close> and \<open>_usb_clock_setup\<close> one by one, with the chip that
    switches its multiplexers, starts the crystal and locks the PLL in between; \<open>Pins\<close> the activity pins and
    \<open>interrupt_enable\<close>, \<open>Bit_Functions\<close> the assembler of \<open>bootrom/bit_functions.S\<close>.
  \<^item> \<open>bootrom/bootrom_misc.S\<close>: \<open>Memory_Functions\<close> is the copy and the fill in assembler, with the loops of
    \<open>test/mem_functions_test.c\<close> as reference; \<open>Crc32\<close> the checksum.
  \<^item> \<open>bootrom/virtual_disk.c\<close>: the FAT16 disk.  \<open>Hexdump\<close> is \<open>hex\<close> and \<open>xxd\<close>; \<open>Virtual_Disk\<close> the read
    handler, sector by sector; \<open>Uf2_Write\<close> the write handler.  \<open>Serial_Number\<close> has the serial numbers
    of \<open>bootrom/usb_boot_device.c\<close>.  \<open>Generator\<close> is the build-time program \<open>generator/main.c\<close>, which
    compresses the texts of the disk, with the decompressor of \<open>bootrom/bootrom_misc.S\<close>; \<open>Generator_Text\<close> the C
    text that it prints for an array.
  \<^item> \<open>bootrom/async_task.c\<close> (\<open>Async_Task\<close>): the tasks that interrupt handlers queue and the worker runs.
  \<^item> \<open>usb_device_tiny/usb_device.c\<close> (\<open>Usb_Types\<close>, \<open>Usb_Device\<close>, \<open>Usb_Control\<close>): endpoints, transfers,
    control requests and the interrupt handler; \<open>usb_stream_helper.c\<close> (\<open>Usb_Stream\<close>): streams of chunks.
  \<^item> \<open>usb_device_tiny/usb_msc.c\<close> (\<open>Usb_Msc\<close>): the SCSI commands of the disk;
    \<open>bootrom/usb_boot_device.c\<close> (\<open>Boot_Device\<close>): descriptors, PICOBOOT, initialisation.
    \<open>Descriptors\<close> has the descriptors as structures, with a host that reads them back.
    \<open>Usb_Dispatch\<close> connects the function pointers to their functions.
  \<^item> \<open>bootrom/program_flash_generic.c\<close> (\<open>Flash_Driver\<close>): the driver of the flash chip, as events on its bus.
    \<open>Flash_Fifo\<close> has the loop of \<open>flash_put_get\<close> one register access at a time, with the interface moving
    bytes in between; \<open>Flash_Calls\<close> runs the calls of the tasks on the driver.

  How the model corresponds to the code.  A definition has the name of the C function, without a leading
  underscore.  The static variables are the fields of one record that grows along the theories
  (\<open>runtime_state\<close>, \<open>async_state\<close>, \<open>disk_state\<close>, \<open>usb_state\<close>, \<open>stream_state\<close>, \<open>usb_msc_state\<close>,
  \<open>boot_state\<close>); an operation takes the state and gives the new one.  Machine integers are words, memory is a
  partial function from addresses to bytes, buffers are lists of bytes with checked stores.  The result
  \<^term>\<open>None\<close> is a fault: an access outside of memory or of a buffer, a null pointer, a call that does not
  return.  Pointers to static objects are names, function pointers are names of functions; the library of
  USB takes the function that performs such a call as an argument, and \<open>Usb_Dispatch.run\<close> gives it, with the
  depth of nested calls as fuel.  The build is the one of \<open>CMakeLists.txt\<close>: \<open>NDEBUG\<close>, \<open>USE_PICOBOOT\<close>,
  \<open>COMPRESS_TEXT\<close>, \<open>GENERAL_SIZE_HACKS\<close>, five endpoints.

  What is not under \<open>src/\<close> is a parameter: the address map (\<open>Platform.addressmap\<close>, with the documented
  facts in \<open>addressmap_ok\<close>), the headers of UF2 and PICOBOOT, the linker's addresses, the code that a client
  of PICOBOOT runs, the answers of the flash chip, the bytes that the stack frames of the compiled boot code leave in the
  RAM (the argument \<open>frames\<close> of \<open>usb_boot\<close>; the theorems only assume that they are below the stack pointer).  The witnesses use the documented values.

  What the lemmas show.  \<open>Disk_Image\<close>: the read handler implements an abstract image of the disk.
  \<open>Host_View\<close>: a FAT16 driver that reads this image finds the files, and the bytes of the RAM can be
  read back from the dump.  \<open>Async_Safety\<close>: the worker only touches RAM and whole pages and sectors of the
  flash, its queue delivers the last task, its table of functions stays intact.  \<open>Uf2_Write\<close>: a write
  never programs anything.  \<open>Flash_Fifo\<close>: the loop of \<open>flash_put_get\<close> loses no byte, ends, and does what its
  sequential reading in \<open>Flash_Driver\<close> says; after an abort by an interrupt in the middle of the loop it may break off, with
  what was done so far in order.  The sequential reading has no value once an abort is pending.
  \<open>Flash_Frames\<close>, \<open>Flash_Calls\<close>: the commands that reach the chip, of a task too.  \<open>Usb_Frame\<close>: what an
  interrupt leaves alone, by one locale for each layer of the USB code: a part of the state that the calls through
  function pointers keep, for states of a domain.  It is interpreted on the calls of the program twice: for the
  memory, in all states, and in \<open>Usb_Wiring\<close> for what the initialisation sets up (with \<open>Buffer_Sizes\<close>).
  \<open>Usb_Start\<close>: the initialisation leaves the device so set up.  \<open>Usb_Configure\<close>: from whatever state interrupts have
  left, SET_CONFIGURATION brings the mass storage class to the state in which it waits for a command.
  \<open>Worker_History\<close>: a turn of the worker changes only the addresses of the task that it takes, and nothing of what was
  set up, unless it calls code of the client.  \<open>Usb_Enumerate\<close>: requests on the control pipe, packet by packet, and the
  way from the start to the dump, with any interrupts and turns of the worker before; an interrupt and a turn are one step each.
  \<open>Sector_Stream\<close>, \<open>Data_Phase\<close>, \<open>Usb_Read\<close>: the device against a model of the controller and the host, packet by
  packet and interrupt by interrupt.  The invariant is the queue of packets in the two buffers of the endpoint;
  a READ(10) delivers the sectors of the image and the status, and leaves the device waiting for the next
  command.  \<open>Boot_Clocks\<close>: an invariant by statement number gives that no clock is changed while it is used, for
  every order of the moves of code and chip; with a usable crystal and a fair order the program gets through,
  without one it stays where it is safe.  \<open>Bit_Functions\<close>: the word tricks against their plain definitions.
  \<open>Usb_Mount\<close> puts the FAT16 driver of \<open>Host_View\<close> on these commands; the locale \<open>fat_disk\<close>, a disk that
  serves the image, has the laws that both disks share.  Five nested calls are enough for a read.  This theory composes the rest.

  \<open>Memory_Functions\<close>: for every length and alignment the word copies and fills equal the byte loops, so that the other
  theories may take them as plain copies and fills.  \<open>Crc32\<close>: the checksum is that of a shift register fed bit by
  bit.  \<open>Reset_Path\<close>: two locales for code that waits on a chip that moves by itself; with them the statements of
  \<open>watchdog_reboot\<close> have the effect that \<open>Runtime\<close> gives them in one step, and the entry reaches \<open>main\<close> with all set up.

  Not modelled: the floating point libraries \<open>mufplib.S\<close> and \<open>mufplib-double.S\<close>, which no part of the program calls;
  the tables of functions for user programs; the programs in \<open>src/test\<close>, but for the reference loops; debug output; the
  rest of \<open>_write_uf2_page\<close>, behind a call that does not return.
\<close>

subsection \<open>The disk after the start-up code\<close>

lemma started_ram:
  assumes "start_set_memory am m = Some m'" and "addressmap_ok am" "sram_mapped am m" and "k < MEM_SIZE am"
  shows "(m' ++ f) (SRAM_BASE am + of_nat k) =
    Some (case f (SRAM_BASE am + of_nat k) of None \<Rightarrow> startup_byte am k | Some b \<Rightarrow> b)"
proof -
  have "m' (SRAM_BASE am + of_nat k) = Some (startup_byte am k)"
    using start_set_memory_fills [OF assms(2,3)] assms(1,4) by auto
  then show ?thesis by (simp add: map_add_def split: option.split)
qed

text \<open>C13: The start-up code fills the RAM, whatever it held; the code that runs afterwards uses the stack below
  \<open>_stacktop\<close>, in the same RAM (\<open>f1\<close> and \<open>f2\<close> are the bytes of its frames).  So the crash dump that a host reads
  shows the bytes of these frames, and the start-up pattern at every other byte, and nothing of what the RAM held
  before: two dumps are the same outside of the stack, and the same everywhere if the frames are.\<close>

theorem dump_after_startup:
  assumes "start_set_memory am m1 = Some m1'" and "start_set_memory am m2 = Some m2'"
    and "disk_ok am gen html ser m1" and "sram_mapped am m2" and "copy < 2"
    and "dom f1 \<subseteq> boot_stack (stacktop am) depth" "dom f2 \<subseteq> boot_stack (stacktop am) depth"
  shows "\<exists>g1 g2.
    read_file (device_disk am gen ser (m1' ++ f1) now bds) device_volume copy (ascii_bytes ''CRASHDMPXXD'') = Some g1 \<and>
    read_file (device_disk am gen ser (m2' ++ f2) now bds) device_volume copy (ascii_bytes ''CRASHDMPXXD'') = Some g2 \<and>
    (\<forall>k < MEM_SIZE am.
      dumped_byte g1 k = (case f1 (SRAM_BASE am + of_nat k) of None \<Rightarrow> startup_byte am k | Some b \<Rightarrow> b) \<and>
      dumped_byte g2 k = (case f2 (SRAM_BASE am + of_nat k) of None \<Rightarrow> startup_byte am k | Some b \<Rightarrow> b) \<and>
      (SRAM_BASE am + of_nat k \<notin> boot_stack (stacktop am) depth \<longrightarrow>
        dumped_byte g1 k = startup_byte am k \<and> dumped_byte g2 k = startup_byte am k)) \<and>
    (f1 = f2 \<longrightarrow> g1 = g2)"
proof -
  note ok = disk_okD [OF assms(3)]
  note ram = started_ram [OF assms(1) ok(1,2)] started_ram [OF assms(2) ok(1) assms(4)]
  have disks: "disk_ok am gen html ser (m1' ++ f1)" "disk_ok am gen html ser (m2' ++ f2)"
    using assms(3) ram by (simp_all add: disk_ok_def sram_mapped_def)
  note files = drive.read_crash_file [OF disks(1) assms(5)] drive.read_crash_file [OF disks(2) assms(5)]
  have "dumped_byte (crash_text am (m1' ++ f1)) k = (case f1 (SRAM_BASE am + of_nat k) of None \<Rightarrow> startup_byte am k | Some b \<Rightarrow> b) \<and>
      dumped_byte (crash_text am (m2' ++ f2)) k = (case f2 (SRAM_BASE am + of_nat k) of None \<Rightarrow> startup_byte am k | Some b \<Rightarrow> b)"
    if "k < MEM_SIZE am" for k
    using dumped_byte_crash_text [OF ok(1) that] ram [OF that] by simp
  moreover have "f1 x = None \<and> f2 x = None" if "x \<notin> boot_stack (stacktop am) depth" for x
    using that assms(6,7) by (auto simp: domIff subset_iff)
  moreover have "crash_text am (m1' ++ f1) = crash_text am (m2' ++ f2)" if "f1 = f2"
    by (rule crash_text_cong [OF ok(1)]) (use ram that in simp)
  ultimately show ?thesis using files by auto
qed

theorem dump_after_startup_witness:
  "\<exists>m' g. start_set_memory rp2040 zero_ram = Some m' \<and>
     read_file (device_disk rp2040 repo_generated (replicate 12 0x30) (m' ++ readme_frames) 7
       \<lparr>serial_number32 = 0, serial_number_valid = False\<rparr>) device_volume 0 (ascii_bytes ''CRASHDMPXXD'') = Some g \<and>
     dumped_byte g 5 = 0xCD \<and> dumped_byte g 0x41ea1 = 0x0e"
proof -
  obtain m' where m': "start_set_memory rp2040 zero_ram = Some m'"
    using start_set_memory_fills [OF rp2040_ok zero_ram_sram] by auto
  obtain g where g: "read_file (device_disk rp2040 repo_generated (replicate 12 0x30) (m' ++ readme_frames) 7
       \<lparr>serial_number32 = 0, serial_number_valid = False\<rparr>) device_volume 0 (ascii_bytes ''CRASHDMPXXD'') = Some g"
    and bytes: "\<forall>k < MEM_SIZE rp2040. dumped_byte g k =
      (case readme_frames (SRAM_BASE rp2040 + of_nat k) of None \<Rightarrow> startup_byte rp2040 k | Some b \<Rightarrow> b)"
    using dump_after_startup [OF m' m' repo_disk_ok zero_ram_sram _ readme_frames_in_stack readme_frames_in_stack, of 0 7
        "\<lparr>serial_number32 = 0, serial_number_valid = False\<rparr>"] by auto
  have "readme_frames 0x20000005 = None" "readme_frames 0x20041ea1 = Some 0x0e" by code_simp+
  then have "dumped_byte g 5 = 0xCD" "dumped_byte g 0x41ea1 = 0x0e"
    using bytes [rule_format, of 5] bytes [rule_format, of "0x41ea1"]
    by (simp_all add: MEM_SIZE_rp2040) (simp_all add: rp2040_def startup_byte_def fill_word_bytes)
  then show ?thesis using m' g by blast
qed

end
